(* ===== verification/Prelude.thy ===== *)
theory Prelude
  imports Main "HOL-Library.Word"
begin

text \<open>
  Shared vocabulary of the development: machine integers with Rust's checked, saturating and
  wrapping arithmetic, the result of a fallible computation (a value, an error, or a panic),
  programs over an explicit state with their \<open>?\<close> operator, a small calculus of exceptional
  Hoare triples over them, and the little- and big-endian byte encodings of integers.
  The operations of the Rust standard library are modelled here; everything else of the
  development is translated from the sources named in each theory.
\<close>

unbundle bit_operations_syntax

section \<open>Machine integers\<close>

type_synonym u8 = "8 word"
type_synonym u16 = "16 word"
type_synonym u32 = "32 word"
type_synonym u64 = "64 word"
type_synonym i64 = "64 word"

text \<open>Lengths and indices (\<open>usize\<close> on the 64-bit targets of the program) are naturals; the
  bound \<open>2 ^ 64\<close> is written out where the code checks it.\<close>

type_synonym usize = nat
type_synonym bytes = "u8 list"

definition u64_max :: u64 where
  "u64_max = - 1"

definition checked_add :: "'a::len word \<Rightarrow> 'a word \<Rightarrow> 'a word option" where
  "checked_add a b = (if unat a + unat b < 2 ^ LENGTH('a) then Some (a + b) else None)"

definition checked_sub :: "'a::len word \<Rightarrow> 'a word \<Rightarrow> 'a word option" where
  "checked_sub a b = (if b \<le> a then Some (a - b) else None)"

definition checked_mul :: "'a::len word \<Rightarrow> 'a word \<Rightarrow> 'a word option" where
  "checked_mul a b = (if unat a * unat b < 2 ^ LENGTH('a) then Some (a * b) else None)"

definition saturating_sub :: "'a::len word \<Rightarrow> 'a word \<Rightarrow> 'a word" where
  "saturating_sub a b = (if b \<le> a then a - b else 0)"

definition saturating_add :: "'a::len word \<Rightarrow> 'a word \<Rightarrow> 'a word" where
  "saturating_add a b = (if unat a + unat b < 2 ^ LENGTH('a) then a + b else - 1)"

definition is_multiple_of :: "'a::len word \<Rightarrow> 'a word \<Rightarrow> bool" where
  "is_multiple_of a b = (if b = 0 then a = 0 else a mod b = 0)"

definition is_power_of_two :: "'a::len word \<Rightarrow> bool" where
  "is_power_of_two a = (a \<noteq> 0 \<and> a AND (a - 1) = 0)"

text \<open>\<open>usize::checked_add\<close>.\<close>

definition usize_add :: "usize \<Rightarrow> usize \<Rightarrow> usize option" where
  "usize_add a b = (if a + b < 2 ^ 64 then Some (a + b) else None)"

lemma unat_bound: "unat a < 2 ^ LENGTH('a)"
  for a :: "'a::len word"
  by (rule unsigned_less)

lemma checked_add_Some:
  "checked_add a b = Some c \<Longrightarrow> unat c = unat a + unat b"
  for a b c :: "'a::len word"
  by (auto simp: checked_add_def unat_word_ariths split: if_splits)

lemma checked_mul_Some:
  "checked_mul a b = Some c \<Longrightarrow> unat c = unat a * unat b"
  for a b c :: "'a::len word"
  by (auto simp: checked_mul_def unat_word_ariths split: if_splits)

lemma checked_sub_Some:
  "checked_sub a b = Some c \<Longrightarrow> unat c = unat a - unat b \<and> unat b \<le> unat a"
  for a b c :: "'a::len word"
  by (auto simp: checked_sub_def unat_sub word_le_nat_alt split: if_splits)

lemma checked_add_None_iff:
  "checked_add a b = None \<longleftrightarrow> 2 ^ LENGTH('a) \<le> unat a + unat b"
  for a b :: "'a::len word"
  by (auto simp: checked_add_def)

lemma is_multiple_of_unat:
  "is_multiple_of a b \<longleftrightarrow> unat b dvd unat a"
  for a b :: "'a::len word"
proof (cases "b = 0")
  case True
  then show ?thesis by (simp add: is_multiple_of_def unat_eq_0)
next
  case False
  have "a mod b = 0 \<longleftrightarrow> unat (a mod b) = 0"
    by (simp add: unat_eq_0)
  with False show ?thesis
    by (simp add: is_multiple_of_def unat_mod_distrib dvd_eq_mod_eq_0)
qed

lemma unat_saturating_sub: "unat (saturating_sub a b) = unat a - unat b"
  for a b :: "'a::len word"
  by (auto simp: saturating_sub_def unat_sub word_le_nat_alt)

section \<open>Results, errors and panics\<close>

text \<open>A Rust function that may fail returns \<open>Ok\<close>, returns \<open>Err\<close>, or panics (a failed
  assertion, an out-of-range index, an \<open>unwrap\<close> of nothing).\<close>

datatype ('a, 'e) result = Ok 'a | Err 'e | Panic

fun map_err :: "('e \<Rightarrow> 'f) \<Rightarrow> ('a, 'e) result \<Rightarrow> ('a, 'f) result" where
  "map_err f (Ok x) = Ok x"
| "map_err f (Err e) = Err (f e)"
| "map_err f Panic = Panic"

fun and_then :: "('a, 'e) result \<Rightarrow> ('a \<Rightarrow> ('b, 'e) result) \<Rightarrow> ('b, 'e) result" where
  "and_then (Ok x) f = f x"
| "and_then (Err e) f = Err e"
| "and_then Panic f = Panic"

fun ok_or :: "'a option \<Rightarrow> 'e \<Rightarrow> ('a, 'e) result" where
  "ok_or (Some x) e = Ok x"
| "ok_or None e = Err e"

fun is_ok :: "('a, 'e) result \<Rightarrow> bool" where
  "is_ok (Ok x) = True"
| "is_ok (Err e) = False"
| "is_ok Panic = False"

lemma and_then_Ok_iff: "and_then r f = Ok y \<longleftrightarrow> (\<exists>x. r = Ok x \<and> f x = Ok y)"
  by (cases r) auto

lemma and_then_Panic_iff: "and_then r f = Panic \<longleftrightarrow> r = Panic \<or> (\<exists>x. r = Ok x \<and> f x = Panic)"
  by (cases r) auto

lemma ok_or_Ok_iff [simp]: "ok_or x e = Ok y \<longleftrightarrow> x = Some y"
  by (cases x) auto

lemma ok_or_not_Panic [simp]: "ok_or x e \<noteq> Panic"
  by (cases x) auto

lemma map_err_Ok_iff [simp]: "map_err f r = Ok y \<longleftrightarrow> r = Ok y"
  by (cases r) auto

lemma map_err_Panic_iff [simp]: "map_err f r = Panic \<longleftrightarrow> r = Panic"
  by (cases r) auto

text \<open>Calls into crates that are not part of the repository return an explicit sum.\<close>

fun of_sum :: "('e \<Rightarrow> 'f) \<Rightarrow> 'e + 'a \<Rightarrow> ('a, 'f) result" where
  "of_sum conv (Inl e) = Err (conv e)"
| "of_sum conv (Inr x) = Ok x"

lemma of_sum_not_Panic [simp]: "of_sum conv r \<noteq> Panic"
  by (cases r) auto

text \<open>\<open>Iterator::collect\<close> into a \<open>Result\<close>: the first error, or every value.\<close>

fun collect_results :: "('e + 'a) list \<Rightarrow> 'e + 'a list" where
  "collect_results [] = Inr []"
| "collect_results (Inl e # rs) = Inl e"
| "collect_results (Inr x # rs) =
     (case collect_results rs of Inl e \<Rightarrow> Inl e | Inr xs \<Rightarrow> Inr (x # xs))"

lemma collect_results_Inr: "collect_results rs = Inr xs \<longleftrightarrow> rs = map Inr xs"
proof (induction rs arbitrary: xs rule: collect_results.induct)
  case (3 x rs)
  show ?case
  proof (cases "collect_results rs")
    case (Inl e)
    then have "rs \<noteq> map Inr ys" for ys using "3" by (metis Inl_Inr_False)
    with Inl show ?thesis by (cases xs) auto
  next
    case (Inr ys)
    with "3" have "rs = map Inr ys" by blast
    with Inr show ?thesis by (cases xs) (auto simp: inj_map_eq_map inj_on_def)
  qed
qed auto

text \<open>\<open>Iterator::try_fold\<close> with \<open>usize::checked_add\<close>.\<close>

fun try_sum :: "usize list \<Rightarrow> usize \<Rightarrow> usize option" where
  "try_sum [] n = Some n"
| "try_sum (x # xs) n = (case usize_add n x of None \<Rightarrow> None | Some k \<Rightarrow> try_sum xs k)"

lemma try_sum_Some: "try_sum xs n = Some k \<Longrightarrow> k = n + sum_list xs"
  by (induction xs arbitrary: n) (fastforce simp: usize_add_def split: option.splits if_splits)+

lemma try_sum_total: "n + sum_list xs < 2 ^ 64 \<Longrightarrow> try_sum xs n = Some (n + sum_list xs)"
  by (induction xs arbitrary: n) (auto simp: usize_add_def)

section \<open>Programs over a state\<close>

text \<open>A method that mutates its receiver, its queues or guest memory is a function from a state
  to a result and the state it leaves, also when it fails. \<open>bnd\<close> is the \<open>?\<close> operator.\<close>

type_synonym ('s, 'a, 'e) prog = "'s \<Rightarrow> ('a, 'e) result \<times> 's"

definition ret :: "'a \<Rightarrow> ('s, 'a, 'e) prog" where
  "ret x = (\<lambda>s. (Ok x, s))"

definition throw :: "'e \<Rightarrow> ('s, 'a, 'e) prog" where
  "throw e = (\<lambda>s. (Err e, s))"

definition panic :: "('s, 'a, 'e) prog" where
  "panic = (\<lambda>s. (Panic, s))"

definition bnd :: "('s, 'a, 'e) prog \<Rightarrow> ('a \<Rightarrow> ('s, 'b, 'e) prog) \<Rightarrow> ('s, 'b, 'e) prog" where
  "bnd f g = (\<lambda>s. case f s of
     (Ok x, s') \<Rightarrow> g x s'
   | (Err e, s') \<Rightarrow> (Err e, s')
   | (Panic, s') \<Rightarrow> (Panic, s'))"

definition get_state :: "('s, 's, 'e) prog" where
  "get_state = (\<lambda>s. (Ok s, s))"

definition modify :: "('s \<Rightarrow> 's) \<Rightarrow> ('s, unit, 'e) prog" where
  "modify f = (\<lambda>s. (Ok (), f s))"

definition pure_res :: "('a, 'e) result \<Rightarrow> ('s, 'a, 'e) prog" where
  "pure_res r = (\<lambda>s. (r, s))"

text \<open>A call into a crate outside the repository, with the \<open>From\<close> conversion of its error.\<close>

definition call_ext :: "('f \<Rightarrow> 'e) \<Rightarrow> ('s \<Rightarrow> ('f + 'a) \<times> 's) \<Rightarrow> ('s, 'a, 'e) prog" where
  "call_ext conv f = (\<lambda>s. case f s of (r, s') \<Rightarrow> (of_sum conv r, s'))"

text \<open>Run a program on the second component of the state.\<close>

definition zoom_snd :: "('t, 'a, 'e) prog \<Rightarrow> ('d \<times> 't, 'a, 'e) prog" where
  "zoom_snd f = (\<lambda>(d, t). case f t of (r, t') \<Rightarrow> (r, (d, t')))"

text \<open>A counted loop whose body decides whether to go on (\<open>break\<close> is \<open>False\<close>).\<close>

fun loop_upto :: "nat \<Rightarrow> ('s, bool, 'e) prog \<Rightarrow> ('s, unit, 'e) prog" where
  "loop_upto 0 body = ret ()"
| "loop_upto (Suc n) body = bnd body (\<lambda>go. if go then loop_upto n body else ret ())"

named_theorems prog_defs \<open>unfold equations of the program combinators\<close>

declare ret_def [prog_defs] throw_def [prog_defs] panic_def [prog_defs] bnd_def [prog_defs]
  get_state_def [prog_defs] modify_def [prog_defs] pure_res_def [prog_defs]
  call_ext_def [prog_defs] zoom_snd_def [prog_defs]

subsection \<open>Exceptional Hoare triples\<close>

text \<open>\<open>hoare P f Q E\<close>: from a state with \<open>P\<close>, \<open>f\<close> does not panic; it returns a value
  with \<open>Q\<close>, or an error with \<open>E\<close>.\<close>

definition hoare ::
  "('s \<Rightarrow> bool) \<Rightarrow> ('s, 'a, 'e) prog \<Rightarrow> ('a \<Rightarrow> 's \<Rightarrow> bool) \<Rightarrow> ('e \<Rightarrow> 's \<Rightarrow> bool) \<Rightarrow> bool" where
  "hoare P f Q E \<longleftrightarrow> (\<forall>s. P s \<longrightarrow> (case f s of
     (Ok x, s') \<Rightarrow> Q x s' | (Err e, s') \<Rightarrow> E e s' | (Panic, s') \<Rightarrow> False))"

lemma hoareI:
  assumes "\<And>s x s'. P s \<Longrightarrow> f s = (Ok x, s') \<Longrightarrow> Q x s'"
    and "\<And>s e s'. P s \<Longrightarrow> f s = (Err e, s') \<Longrightarrow> E e s'"
    and "\<And>s s'. P s \<Longrightarrow> f s \<noteq> (Panic, s')"
  shows "hoare P f Q E"
  unfolding hoare_def using assms by (auto split: prod.splits result.splits)

lemma hoare_Ok: "hoare P f Q E \<Longrightarrow> P s \<Longrightarrow> f s = (Ok x, s') \<Longrightarrow> Q x s'"
  by (auto simp: hoare_def split: prod.splits result.splits)

lemma hoare_Err: "hoare P f Q E \<Longrightarrow> P s \<Longrightarrow> f s = (Err e, s') \<Longrightarrow> E e s'"
  by (auto simp: hoare_def split: prod.splits result.splits)

lemma hoare_no_panic: "hoare P f Q E \<Longrightarrow> P s \<Longrightarrow> fst (f s) \<noteq> Panic"
  by (cases "f s") (auto simp: hoare_def)

named_theorems hoare_intros \<open>structural rules for exceptional Hoare triples\<close>

lemma hoare_ret [hoare_intros]: "(\<And>s. P s \<Longrightarrow> Q x s) \<Longrightarrow> hoare P (ret x) Q E"
  by (auto simp: hoare_def ret_def)

lemma hoare_throw [hoare_intros]: "(\<And>s. P s \<Longrightarrow> E e s) \<Longrightarrow> hoare P (throw e) Q E"
  by (auto simp: hoare_def throw_def)

lemma hoare_bnd:
  "hoare P f Q E \<Longrightarrow> (\<And>x. hoare (Q x) (g x) R E) \<Longrightarrow> hoare P (bnd f g) R E"
  unfolding hoare_def bnd_def by (fastforce split: prod.splits result.splits)

lemma hoare_weaken:
  "hoare P f Q E \<Longrightarrow> (\<And>s. P' s \<Longrightarrow> P s) \<Longrightarrow> (\<And>x s. Q x s \<Longrightarrow> Q' x s) \<Longrightarrow>
    (\<And>e s. E e s \<Longrightarrow> E' e s) \<Longrightarrow> hoare P' f Q' E'"
  unfolding hoare_def by (fastforce split: prod.splits result.splits)

lemma hoare_if [hoare_intros]:
  "(b \<Longrightarrow> hoare P f Q E) \<Longrightarrow> (\<not> b \<Longrightarrow> hoare P g Q E) \<Longrightarrow> hoare P (if b then f else g) Q E"
  by simp

lemma hoare_case_option [hoare_intros]:
  "(x = None \<Longrightarrow> hoare P f Q E) \<Longrightarrow> (\<And>y. x = Some y \<Longrightarrow> hoare P (g y) Q E) \<Longrightarrow>
    hoare P (case x of None \<Rightarrow> f | Some y \<Rightarrow> g y) Q E"
  by (cases x) auto

lemma hoare_get [hoare_intros]: "(\<And>s. P s \<Longrightarrow> Q s s) \<Longrightarrow> hoare P get_state Q E"
  by (auto simp: hoare_def get_state_def)

lemma hoare_modify [hoare_intros]: "(\<And>s. P s \<Longrightarrow> Q () (f s)) \<Longrightarrow> hoare P (modify f) Q E"
  by (auto simp: hoare_def modify_def)

lemma hoare_pure_res:
  "r \<noteq> Panic \<Longrightarrow> (\<And>x s. P s \<Longrightarrow> r = Ok x \<Longrightarrow> Q x s) \<Longrightarrow> (\<And>e s. P s \<Longrightarrow> r = Err e \<Longrightarrow> E e s) \<Longrightarrow>
    hoare P (pure_res r) Q E"
  by (cases r) (auto simp: hoare_def pure_res_def)

lemma hoare_call_ext:
  "(\<And>s x s'. P s \<Longrightarrow> f s = (Inr x, s') \<Longrightarrow> Q x s') \<Longrightarrow>
    (\<And>s e s'. P s \<Longrightarrow> f s = (Inl e, s') \<Longrightarrow> E (conv e) s') \<Longrightarrow> hoare P (call_ext conv f) Q E"
  unfolding hoare_def call_ext_def
  by (auto split: prod.splits result.splits) (metis of_sum.elims result.distinct(1,3,5) result.inject)+

lemma hoare_zoom_snd:
  "(\<And>d. hoare (\<lambda>t. P (d, t)) f (\<lambda>x t. Q x (d, t)) (\<lambda>e t. E e (d, t))) \<Longrightarrow> hoare P (zoom_snd f) Q E"
  unfolding hoare_def zoom_snd_def by (fastforce split: prod.splits result.splits)

lemma hoare_loop_upto:
  assumes "hoare I body (\<lambda>_. I) E"
  shows "hoare I (loop_upto n body) (\<lambda>_. I) E"
proof (induction n)
  case 0
  then show ?case by (auto intro!: hoare_intros)
next
  case (Suc n)
  then show ?case
    by (auto intro!: hoare_bnd [OF assms] hoare_intros)
qed

subsection \<open>What a program keeps of its state\<close>

text \<open>\<open>keeps R f\<close>: whatever \<open>f\<close> returns, the state it leaves is related by \<open>R\<close> to the one it
  found. For a reflexive and transitive \<open>R\<close> this composes along \<open>bnd\<close> and loops.\<close>

definition keeps :: "('s \<Rightarrow> 's \<Rightarrow> bool) \<Rightarrow> ('s, 'a, 'e) prog \<Rightarrow> bool" where
  "keeps R f \<longleftrightarrow> (\<forall>s. R s (snd (f s)))"

named_theorems keeps_intros \<open>structural rules for what a program keeps of its state\<close>

lemma keepsD: "keeps R f \<Longrightarrow> f s = (r, s') \<Longrightarrow> R s s'"
  by (metis keeps_def snd_conv)

lemma keeps_ret [keeps_intros]: "reflp R \<Longrightarrow> keeps R (ret x)"
  by (simp add: keeps_def ret_def reflpD)

lemma keeps_throw [keeps_intros]: "reflp R \<Longrightarrow> keeps R (throw e)"
  by (simp add: keeps_def throw_def reflpD)

lemma keeps_panic [keeps_intros]: "reflp R \<Longrightarrow> keeps R panic"
  by (simp add: keeps_def panic_def reflpD)

lemma keeps_get [keeps_intros]: "reflp R \<Longrightarrow> keeps R get_state"
  by (simp add: keeps_def get_state_def reflpD)

lemma keeps_pure_res [keeps_intros]: "reflp R \<Longrightarrow> keeps R (pure_res r)"
  by (simp add: keeps_def pure_res_def reflpD)

lemma keeps_modify [keeps_intros]: "(\<And>s. R s (f s)) \<Longrightarrow> keeps R (modify f)"
  by (simp add: keeps_def modify_def)

lemma keeps_call_ext [keeps_intros]: "(\<And>s. R s (snd (f s))) \<Longrightarrow> keeps R (call_ext conv f)"
  by (simp add: keeps_def call_ext_def split: prod.splits) (metis snd_conv)

lemma keeps_bnd [keeps_intros]:
  assumes "transp R" and "keeps R f" and "\<And>x. keeps R (g x)"
  shows "keeps R (bnd f g)"
proof -
  have "R s (snd (bnd f g s))" for s
  proof (cases "f s")
    case (Pair r s')
    with assms(2) have *: "R s s'" by (rule keepsD)
    show ?thesis
    proof (cases r)
      case (Ok x)
      have "R s' (snd (g x s'))" using assms(3) by (simp add: keeps_def)
      with * assms(1) have "R s (snd (g x s'))" by (blast dest: transpD)
      with Pair Ok show ?thesis by (simp add: bnd_def)
    qed (use Pair * in \<open>simp_all add: bnd_def\<close>)
  qed
  then show ?thesis by (simp add: keeps_def)
qed

lemma keeps_if [keeps_intros]: "keeps R f \<Longrightarrow> keeps R g \<Longrightarrow> keeps R (if b then f else g)"
  by simp

lemma keeps_case_option [keeps_intros]:
  "keeps R f \<Longrightarrow> (\<And>y. keeps R (g y)) \<Longrightarrow> keeps R (case x of None \<Rightarrow> f | Some y \<Rightarrow> g y)"
  by (cases x) auto

lemma keeps_case_prod [keeps_intros]:
  "(\<And>a b. keeps R (f a b)) \<Longrightarrow> keeps R (case p of (a, b) \<Rightarrow> f a b)"
  by (cases p) simp

lemma keeps_loop_upto [keeps_intros]:
  "reflp R \<Longrightarrow> transp R \<Longrightarrow> keeps R body \<Longrightarrow> keeps R (loop_upto n body)"
  by (induction n) (auto intro!: keeps_intros)

lemma keeps_zoom_snd [keeps_intros]:
  "(\<And>d. keeps (\<lambda>t t'. R (d, t) (d, t')) f) \<Longrightarrow> keeps R (zoom_snd f)"
  by (auto simp: keeps_def zoom_snd_def split: prod.splits) (metis snd_conv)

subsection \<open>Programs that never panic\<close>

definition no_panic :: "('s, 'a, 'e) prog \<Rightarrow> bool" where
  "no_panic f \<longleftrightarrow> (\<forall>s. fst (f s) \<noteq> Panic)"

named_theorems no_panic_intros \<open>structural rules for programs that never panic\<close>

lemma no_panicD: "no_panic f \<Longrightarrow> f s \<noteq> (Panic, s')"
  by (metis fst_conv no_panic_def)

lemma no_panic_ret [no_panic_intros]: "no_panic (ret x)"
  by (simp add: no_panic_def ret_def)

lemma no_panic_throw [no_panic_intros]: "no_panic (throw e)"
  by (simp add: no_panic_def throw_def)

lemma no_panic_get [no_panic_intros]: "no_panic get_state"
  by (simp add: no_panic_def get_state_def)

lemma no_panic_modify [no_panic_intros]: "no_panic (modify f)"
  by (simp add: no_panic_def modify_def)

lemma no_panic_pure_res [no_panic_intros]: "r \<noteq> Panic \<Longrightarrow> no_panic (pure_res r)"
  by (simp add: no_panic_def pure_res_def)

lemma no_panic_call_ext [no_panic_intros]: "no_panic (call_ext conv f)"
  by (simp add: no_panic_def call_ext_def split: prod.splits)

lemma no_panic_bnd [no_panic_intros]:
  "no_panic f \<Longrightarrow> (\<And>x. no_panic (g x)) \<Longrightarrow> no_panic (bnd f g)"
  by (auto simp: no_panic_def bnd_def split: prod.splits result.splits) (metis fst_conv)

text \<open>When the continuation relies on what the first program returned.\<close>

lemma no_panic_bnd_result:
  "fst (f s) \<noteq> Panic \<Longrightarrow> (\<And>x s'. f s = (Ok x, s') \<Longrightarrow> fst (g x s') \<noteq> Panic) \<Longrightarrow> fst (bnd f g s) \<noteq> Panic"
  by (auto simp: bnd_def split: prod.splits result.splits)

lemma no_panic_if [no_panic_intros]:
  "(b \<Longrightarrow> no_panic f) \<Longrightarrow> (\<not> b \<Longrightarrow> no_panic g) \<Longrightarrow> no_panic (if b then f else g)"
  by simp

lemma no_panic_case_option [no_panic_intros]:
  "(x = None \<Longrightarrow> no_panic f) \<Longrightarrow> (\<And>y. x = Some y \<Longrightarrow> no_panic (g y)) \<Longrightarrow>
    no_panic (case x of None \<Rightarrow> f | Some y \<Rightarrow> g y)"
  by (cases x) auto

lemma no_panic_case_prod [no_panic_intros]:
  "(\<And>a b. no_panic (f a b)) \<Longrightarrow> no_panic (case p of (a, b) \<Rightarrow> f a b)"
  by (cases p) simp

lemma no_panic_zoom_snd [no_panic_intros]: "no_panic f \<Longrightarrow> no_panic (zoom_snd f)"
  by (auto simp: no_panic_def zoom_snd_def split: prod.splits) (metis fst_conv)

lemma no_panic_loop_upto [no_panic_intros]: "no_panic body \<Longrightarrow> no_panic (loop_upto n body)"
  by (induction n) (auto intro!: no_panic_intros)

section \<open>Bytes\<close>

text \<open>\<open>to_le_bytes\<close>, \<open>from_le_bytes\<close> and \<open>from_be_bytes\<close> of the unsigned integers.\<close>

fun le_bytes :: "nat \<Rightarrow> nat \<Rightarrow> bytes" where
  "le_bytes 0 v = []"
| "le_bytes (Suc n) v = word_of_nat (v mod 256) # le_bytes n (v div 256)"

fun le_nat :: "bytes \<Rightarrow> nat" where
  "le_nat [] = 0"
| "le_nat (b # bs) = unat b + 256 * le_nat bs"

definition be_nat :: "bytes \<Rightarrow> nat" where
  "be_nat bs = le_nat (rev bs)"

lemma length_le_bytes [simp]: "length (le_bytes n v) = n"
  by (induction n arbitrary: v) auto

lemma unat_byte_of_nat: "unat (word_of_nat (v mod 256) :: u8) = v mod 256"
  by (simp add: unat_of_nat take_bit_eq_mod)

lemma le_nat_le_bytes: "le_nat (le_bytes n v) = v mod 256 ^ n"
proof (induction n arbitrary: v)
  case 0
  then show ?case by simp
next
  case (Suc n)
  have "v mod 256 ^ Suc n = v mod 256 + 256 * (v div 256 mod 256 ^ n)"
    by (simp add: mod_mult2_eq)
  with Suc show ?case by (simp only: le_bytes.simps le_nat.simps unat_byte_of_nat)
qed

lemma le_nat_bound: "le_nat bs < 256 ^ length bs"
proof (induction bs)
  case (Cons b bs)
  have "unat b < 256" using unat_bound [of b] by simp
  with Cons show ?case by simp
qed simp

lemma le_bytes_le_nat: "le_bytes (length bs) (le_nat bs) = bs"
proof (induction bs)
  case (Cons b bs)
  have "unat b < 256" using unat_bound [of b] by simp
  then have "(unat b + 256 * le_nat bs) mod 256 = unat b"
    and "(unat b + 256 * le_nat bs) div 256 = le_nat bs" by simp_all
  with Cons show ?case by simp
qed simp

text \<open>\<open>xs[off..off + len]\<close> as a value; the callers bound it.\<close>

definition sub_bytes :: "nat \<Rightarrow> nat \<Rightarrow> 'a list \<Rightarrow> 'a list" where
  "sub_bytes off len xs = take len (drop off xs)"

lemma length_sub_bytes [simp]: "length (sub_bytes off len xs) = min len (length xs - off)"
  by (simp add: sub_bytes_def)

text \<open>\<open>xs[off..off + ys.len()].copy_from_slice(ys)\<close>.\<close>

definition put_bytes :: "nat \<Rightarrow> 'a list \<Rightarrow> 'a list \<Rightarrow> 'a list" where
  "put_bytes off ys xs = take off xs @ ys @ drop (off + length ys) xs"

lemma length_put_bytes [simp]:
  "off + length ys \<le> length xs \<Longrightarrow> length (put_bytes off ys xs) = length xs"
  by (simp add: put_bytes_def)

lemma sub_put_bytes:
  "off + length ys \<le> length xs \<Longrightarrow> sub_bytes off (length ys) (put_bytes off ys xs) = ys"
  by (simp add: sub_bytes_def put_bytes_def)

end
