(* ===== verification/Errors.thy ===== *)
theory Errors
  imports Prelude
begin

text \<open>
  The typed errors of \<open>src/src/error.rs\<close>: one datatype per enum, with the enum's variants in
  order and their fields as arguments in order, so that a variant is written as in the source
  (\<open>DeviceError.InvalidFlush\<close>). The classification \<open>is_guest\<close> decides which errors a lenient
  transport contains to one device; \<open>diagnostic\<close> renders an error with its chain of causes.
  Errors of other crates are opaque: \<open>ext_error\<close> is their rendered message.
\<close>

section \<open>Errors of the standard library and of other crates\<close>

type_synonym ext_error = string

datatype IoErrorKind = WouldBlock | Interrupted | BrokenPipe | InvalidInput | OtherKind

datatype IoError = IoError IoErrorKind string

fun io_kind :: "IoError \<Rightarrow> IoErrorKind" where
  "io_kind (IoError k m) = k"

datatype RecvTimeoutError = Timeout | Disconnected

section \<open>The error enums\<close>

datatype (plugins only: code) StorageError =
    ReadOnly
  | CapacityMismatch u64 u64
  | NotRegularFile
  | InvalidCapacity u64
  | InvalidHeaderLength u32
  | IncompatibleFeatures u64
  | InternalSnapshotsUnsupported
  | EncryptedImagesUnsupported
  | InvalidQcow2ClusterSize u32
  | BackingChainsUnsupported
  | UnsupportedVersion u32
  | InvalidHeader
  | OutOfBounds u64 u64 usize
  | Backend ext_error
  | Io IoError
  | Operation string string IoError

datatype (plugins only: code) NetError =
    InvalidVmnetRxFrameSize usize usize
  | InvalidVmnetRxCount int
  | VmnetRxBufferTooSmall usize usize
  | InvalidVmnetTxCount int
  | InvalidVmnetTxFrameSize usize usize
  | CreateVmnetDescription
  | InvalidVmnetFrameCapacity
  | UnexpectedMtu u16
  | MissingVmnetInterfaceParameters
  | InvalidVmnetMacAddress
  | Vmnet string u32
  | PermissionDenied string u32
  | Backend ext_error
  | Integer ext_error
  | Utf8 ext_error
  | MacParse ext_error
  | Wait string RecvTimeoutError
  | Start NetError
  | MissingMac
  | MissingInterface
  | Closed

datatype (plugins only: code) BootError =
    LoaderLayoutDisagreement
  | FdtExceedsReservedSpace usize
  | AtLeastOneCpuRequired
  | TooManyVirtioDevicesForGicSpis usize
  | KernelInitramfsFdtOverlapOrExceedRam
  | ImageSizeOverflow
  | InitrdTooLarge usize
  | RamAddressOverflow
  | RamExceedsHostAllocationSize usize
  | KernelOffsetOverflow u64
  | UnalignedKernelTextOffset u64
  | BigEndianKernelUnsupported
  | LegacyImageWithoutImageSizeIsUnsupported
  | InvalidArm64Image
  | MemoryMustBeAtLeast128Mib u64
  | IpaRange u64 u64 u32
  | MemoryAddressOverflow u64 u64
  | InvalidIpaWidth u32
  | MemoryCapacityConversionOverflow u64
  | Integer ext_error
  | GuestAccess ext_error
  | Fdt ext_error
  | Loader ext_error

text \<open>\<open>PlatformError\<close> and \<open>MemoryError\<close> contain each other (\<open>Memory\<close>, \<open>Mapping\<close>).\<close>

datatype (plugins only: code) PlatformError =
    NoDefaultPlatform
  | HotplugLayoutMismatch
  | InvalidHotplugCapacityAlignment u64 u64 u64 u64
  | InvalidVirtioMmioRegion
  | RamCapacityMismatch u64 u64
  | RamCapacityOverflow u64 u64
  | OverlappingRegions u64 u64
  | PortRangeOverflow u64 u64
  | RegionOverflow u64 u64
  | EmptyRegion
  | UartRegionTooSmall u64
  | DeviceCountMismatch usize usize
  | NoBaseRam
  | InvalidVcpuCount
  | EventChannelDisconnected
  | VmNotPrepared
  | HotplugOverflow
  | UnsupportedVcpuCount
  | HvfHostPageAlignment
  | GicOverlapsRam
  | CreateGicConfiguration
  | GicSpiRange u32 u32
  | InvalidGicSpiRange
  | Hypervisor string u32
  | UnexpectedHvfExit u32 u64
  | UnhandledException u64 u64 u64
  | UnsupportedSysreg u64 u64
  | UnsupportedDataAbort u64 u64
  | VcpuInitializationThreadFailed
  | VcpuThreadPanicked
  | StartupCancelled
  | MmioReplyDisconnected u64
  | MappingOverlap u64 u64
  | MappingNotFound u64 u64
  | MappingMismatch u64 u64
  | Backend ext_error
  | Memory MemoryError
  | Boot BootError
  | Integer ext_error
  | Io IoError
and MemoryError =
    Stopped
  | InvalidTarget u64 u64 u64
  | CapacityOverflow u64
  | ReadableDescriptorAfterWritableDescriptor
  | InvalidVirtioMemRequestBuffers usize usize
  | IpaOverflow
  | HotplugOverflow
  | HotplugAlignment u64 u64
  | InvalidRegionSize u64 u64
  | InvalidBlockSize u64
  | RollbackFailed MemoryError MemoryError
  | Backend ext_error
  | GuestMemory ext_error
  | GuestAccess ext_error
  | Slice ext_error
  | Mapping PlatformError
  | Regions ext_error

datatype (plugins only: code) DeviceError =
    InvalidGetId
  | InvalidFlush
  | SectorOverflow u64
  | WriteToReadOnlyDisk
  | UnalignedBlockRequest usize
  | BlockDescriptorDirectionMismatch
  | RequestLengthOverflow
  | InvalidBlockHeaderStatus
  | TruncatedBlockDescriptorChain
  | InvalidBlockName string
  | MissingBlockChain
  | RxLengthOverflow
  | RxDescriptorMustBeWritable
  | MissingRxChain
  | InvalidBackendRxPacketSize usize usize
  | UnnegotiatedTxChecksumGsoOffload
  | InvalidTxPacketSize usize usize
  | TxLengthOverflow
  | TxDescriptorMustBeReadable
  | NetworkMacMustBeNonzeroUnicast
  | InvalidNetworkMtuFrameCapacity u16 usize
  | InvalidQueueMemory
  | InvalidQueueReady u32
  | QueueTooLarge u32 u16
  | QueueConfigurationWhileReady
  | QueueConfigurationAfterDriverOk
  | DriverNotReady
  | StatusBitsCleared
  | CyclicDescriptorChain
  | InvalidDescriptorFlagsRange u64 u32 u16
  | UnnegotiatedIndirectDescriptor
  | DescriptorIndexOutOfRange u16 u16
  | InvalidAvailableDescriptor
  | AvailableRingOverrun u16 u16
  | InvalidVirtqueue
  | CyclicPendingDescriptorChain
  | InvalidPendingDescriptor u64 u32 u16
  | InvalidLiveQueue
  | Storage StorageError
  | Net NetError
  | Memory MemoryError
  | GuestAccess ext_error
  | Queue ext_error
  | Slice ext_error

datatype ControlError =
    Cancelled
  | OwnerThread
  | Disconnected
  | NotRunning
  | MemoryNotConfigured
  | CleanupFailed string
  | Memory MemoryError
  | ReplyFailed string

datatype RuntimeError =
    VmmThreadPanicked
  | UnmappedIo u64 usize
  | InvalidAccess u64 usize bool

datatype SerialError =
    InvalidReceiveLength usize usize
  | Io IoError
  | Uart ext_error

text \<open>The umbrella enum \<open>Error\<close>.\<close>

datatype VmmError =
    Storage StorageError
  | Memory MemoryError
  | Net NetError
  | Platform PlatformError
  | Boot BootError
  | Device DeviceError
  | Control ControlError
  | Runtime RuntimeError
  | Serial SerialError

text \<open>\<open>impl From<PlatformError> for MemoryError\<close>.\<close>

definition memory_error_from :: "PlatformError \<Rightarrow> MemoryError" where
  "memory_error_from source = MemoryError.Mapping source"

section \<open>Guest-caused errors\<close>

text \<open>\<open>MemoryError::is_guest\<close> and \<open>DeviceError::is_guest\<close>.\<close>

fun memory_is_guest :: "MemoryError \<Rightarrow> bool" where
  "memory_is_guest MemoryError.ReadableDescriptorAfterWritableDescriptor = True"
| "memory_is_guest (MemoryError.InvalidVirtioMemRequestBuffers _ _) = True"
| "memory_is_guest (MemoryError.GuestAccess _) = True"
| "memory_is_guest _ = False"

fun is_guest :: "DeviceError \<Rightarrow> bool" where
  "is_guest (DeviceError.Memory e) = memory_is_guest e"
| "is_guest (DeviceError.InvalidBlockName _) = False"
| "is_guest (DeviceError.InvalidBackendRxPacketSize _ _) = False"
| "is_guest DeviceError.NetworkMacMustBeNonzeroUnicast = False"
| "is_guest (DeviceError.InvalidNetworkMtuFrameCapacity _ _) = False"
| "is_guest (DeviceError.Storage _) = False"
| "is_guest (DeviceError.Net _) = False"
| "is_guest (DeviceError.Slice _) = False"
| "is_guest _ = True"

section \<open>Diagnostics\<close>

text \<open>\<open>diagnostic\<close>: the error's own message, then each cause of the \<open>source\<close> chain that the
  message does not already end with. The chain is given as the list of rendered messages,
  the error's own first.\<close>

definition ends_with :: "string \<Rightarrow> string \<Rightarrow> bool" where
  "ends_with m suffix = (length suffix \<le> length m \<and> drop (length m - length suffix) m = suffix)"

fun diagnostic_causes :: "string \<Rightarrow> string list \<Rightarrow> string" where
  "diagnostic_causes message [] = message"
| "diagnostic_causes message (cause # rest) =
     (if \<not> ends_with message cause
      then diagnostic_causes (message @ '': '' @ cause) rest
      else diagnostic_causes message rest)"

fun diagnostic :: "string list \<Rightarrow> string" where
  "diagnostic [] = []"
| "diagnostic (message # sources) = diagnostic_causes message sources"

lemma ends_with_append [simp]: "ends_with (m @ s) s"
  by (simp add: ends_with_def)

lemma diagnostic_causes_prefix: "\<exists>rest. diagnostic_causes m cs = m @ rest"
proof (induction cs arbitrary: m)
  case (Cons c cs)
  then show ?case
    by (cases "ends_with m c") (auto, metis append.assoc)
qed simp

end
