(* ===== verification/Crates.thy ===== *)
theory Crates
  imports Prelude Errors
begin

text \<open>
  The operations of the crates \<open>vm-memory\<close> and \<open>virtio-queue\<close> that the device models call, as
  one record of functions, a parameter of every definition that uses them. Their sources are
  not part of the repository: nothing is defined about them here. The guest's memory is the
  abstract state \<open>'m\<close>, a virtqueue the abstract state \<open>'q\<close>. A read also returns a memory
  state, so a memory that other vCPUs write between two accesses is an instance as well.
  What the program relies on of these crates is stated as named laws, used as hypotheses of
  the theorems that need them.
\<close>

section \<open>Values of the crates as the code observes them\<close>

text \<open>\<open>vm_memory::VolatileSlice\<close>, by its host pointer and length.\<close>

record vslice =
  vs_ptr :: usize
  vs_len :: usize

text \<open>\<open>virtio_queue::desc::split::Descriptor\<close>, by its accessors.\<close>

record descriptor =
  d_addr :: u64
  d_len :: u32
  d_flags :: u16
  d_next :: u16
  d_has_next :: bool
  d_write_only :: bool
  d_indirect :: bool

text \<open>\<open>Arc<GuestRegionMmap>\<close>, by guest address, length, host pointer and the identity of the
  allocation it wraps.\<close>

record region =
  r_start :: u64
  r_len :: u64
  r_ptr :: u64
  r_alloc :: nat

record ('q, 'm) crates =
  cm_check_range :: "'m \<Rightarrow> u64 \<Rightarrow> usize \<Rightarrow> bool"
  cm_read_slice :: "u64 \<Rightarrow> usize \<Rightarrow> 'm \<Rightarrow> (ext_error + bytes) \<times> 'm"
  cm_write_slice :: "u64 \<Rightarrow> bytes \<Rightarrow> 'm \<Rightarrow> (ext_error + unit) \<times> 'm"
  cm_read_descriptor :: "u64 \<Rightarrow> 'm \<Rightarrow> (ext_error + descriptor) \<times> 'm"
  cm_get_slices :: "'m \<Rightarrow> u64 \<Rightarrow> usize \<Rightarrow> (ext_error + vslice) list"
  cm_subslice :: "vslice \<Rightarrow> usize \<Rightarrow> usize \<Rightarrow> vslice option"
  cm_copy_to :: "vslice \<Rightarrow> usize \<Rightarrow> 'm \<Rightarrow> bytes \<times> 'm"
  cm_copy_from :: "vslice \<Rightarrow> bytes \<Rightarrow> 'm \<Rightarrow> 'm"
  cm_insert_region :: "'m \<Rightarrow> region \<Rightarrow> ext_error + 'm"
  cm_remove_region :: "'m \<Rightarrow> u64 \<Rightarrow> u64 \<Rightarrow> ext_error + 'm"
  cq_new :: "u16 \<Rightarrow> 'q option"
  cq_ready :: "'q \<Rightarrow> bool"
  cq_set_ready :: "bool \<Rightarrow> 'q \<Rightarrow> 'q"
  cq_is_valid :: "'q \<Rightarrow> 'm \<Rightarrow> bool"
  cq_reset :: "'q \<Rightarrow> 'q"
  cq_size :: "'q \<Rightarrow> u16"
  cq_try_set_size :: "u16 \<Rightarrow> 'q \<Rightarrow> (ext_error + unit) \<times> 'q"
  cq_desc_table :: "'q \<Rightarrow> u64"
  cq_avail_ring :: "'q \<Rightarrow> u64"
  cq_used_ring :: "'q \<Rightarrow> u64"
  cq_set_desc_table :: "u32 option \<Rightarrow> u32 option \<Rightarrow> 'q \<Rightarrow> 'q"
  cq_set_avail_ring :: "u32 option \<Rightarrow> u32 option \<Rightarrow> 'q \<Rightarrow> 'q"
  cq_set_used_ring :: "u32 option \<Rightarrow> u32 option \<Rightarrow> 'q \<Rightarrow> 'q"
  cq_next_avail :: "'q \<Rightarrow> u16"
  cq_set_next_avail :: "u16 \<Rightarrow> 'q \<Rightarrow> 'q"
  cq_avail_idx :: "'q \<Rightarrow> 'm \<Rightarrow> (ext_error + u16) \<times> 'm"
  cq_iter_next :: "'q \<times> 'm \<Rightarrow> (ext_error + u16 option) \<times> 'q \<times> 'm"
  cq_add_used :: "u16 \<Rightarrow> u32 \<Rightarrow> 'q \<times> 'm \<Rightarrow> (ext_error + unit) \<times> 'q \<times> 'm"

text \<open>The host addresses a slice covers.\<close>

definition cells :: "vslice \<Rightarrow> usize list" where
  "cells s = [vs_ptr s ..< vs_ptr s + vs_len s]"

definition all_cells :: "vslice list \<Rightarrow> usize list" where
  "all_cells ss = concat (map cells ss)"

lemma length_cells [simp]: "length (cells s) = vs_len s"
  by (simp add: cells_def)

lemma all_cells_Nil [simp]: "all_cells [] = []"
  by (simp add: all_cells_def)

lemma all_cells_Cons [simp]: "all_cells (s # ss) = cells s @ all_cells ss"
  by (simp add: all_cells_def)

lemma all_cells_append [simp]: "all_cells (ss @ ts) = all_cells ss @ all_cells ts"
  by (simp add: all_cells_def)

lemma length_all_cells: "length (all_cells ss) = sum_list (map vs_len ss)"
  by (induction ss) auto

lemma take_drop_cells:
  "off + n \<le> vs_len s \<Longrightarrow> take n (drop off (cells s)) = cells \<lparr>vs_ptr = vs_ptr s + off, vs_len = n\<rparr>"
  by (simp add: cells_def take_upt drop_upt)

section \<open>Documented laws of the crates\<close>

text \<open>\<open>VolatileSlice::subslice\<close> of a range inside the slice is that range.\<close>

definition subslice_law :: "('q, 'm) crates \<Rightarrow> bool" where
  "subslice_law C \<longleftrightarrow> (\<forall>s off n. off + n \<le> vs_len s \<longrightarrow>
     cm_subslice C s off n = Some \<lparr>vs_ptr = vs_ptr s + off, vs_len = n\<rparr>)"

text \<open>\<open>get_slices\<close> of a range either fails or yields slices that cover it exactly.\<close>

definition get_slices_law :: "('q, 'm) crates \<Rightarrow> bool" where
  "get_slices_law C \<longleftrightarrow> (\<forall>m a n ss.
     cm_get_slices C m a n = map Inr ss \<longrightarrow> sum_list (map vs_len ss) = n)"

text \<open>\<open>VolatileSlice::copy_to\<close> fills a destination no longer than the slice.\<close>

definition copy_to_law :: "('q, 'm) crates \<Rightarrow> bool" where
  "copy_to_law C \<longleftrightarrow> (\<forall>s n m. n \<le> vs_len s \<longrightarrow> length (fst (cm_copy_to C s n m)) = n)"

text \<open>The queue's readiness flag is what was last set; reset clears it; a rejected size
  leaves the queue as it was.\<close>

definition queue_config_law :: "('q, 'm) crates \<Rightarrow> bool" where
  "queue_config_law C \<longleftrightarrow>
     (\<forall>q b. cq_ready C (cq_set_ready C b q) = b) \<and>
     (\<forall>q. \<not> cq_ready C q \<longrightarrow> cq_set_ready C False (cq_set_ready C True q) = q) \<and>
     (\<forall>q. \<not> cq_ready C (cq_reset C q)) \<and>
     (\<forall>n q e q'. cq_try_set_size C n q = (Inl e, q') \<longrightarrow> q' = q)"

section \<open>Reading objects\<close>

text \<open>\<open>Bytes::read_obj::<u16>\<close> on the little-endian host.\<close>

definition read_u16 :: "('q, 'm) crates \<Rightarrow> (ext_error \<Rightarrow> 'e) \<Rightarrow> u64 \<Rightarrow> ('m, u16, 'e) prog" where
  "read_u16 C conv a =
     bnd (call_ext conv (cm_read_slice C a 2)) (\<lambda>bs. ret (word_of_nat (le_nat bs)))"

end
