(* ===== verification/Buffers.thy ===== *)
theory Buffers
  imports Crates "HOL-Library.Product_Lexorder" "HOL-Library.Multiset"
begin

text \<open>
  Scatter-gather views of descriptor chains, \<open>src/src/devices/buffers.rs\<close>: collecting the
  slices of a chain, cutting a byte range out of them, copying to and from them, and the
  overlap test. The failed assertions of \<open>range\<close>, \<open>copy_to\<close> and \<open>copy_from\<close> are panics.
  The lemmas relate each to the flat sequence of host addresses the slices cover.
\<close>

section \<open>Definitions\<close>

definition slices :: "('q, 'm) crates \<Rightarrow> 'm \<Rightarrow> descriptor list \<Rightarrow> ext_error + vslice list" where
  "slices C m desc =
     collect_results (concat (map (\<lambda>d. cm_get_slices C m (d_addr d) (unat (d_len d))) desc))"

fun range_from ::
  "('q, 'm) crates \<Rightarrow> vslice list \<Rightarrow> usize \<Rightarrow> usize \<Rightarrow> vslice list \<Rightarrow> (vslice list, DeviceError) result" where
  "range_from C [] skip len acc = (if len = 0 then Ok acc else Panic)"
| "range_from C (s # ss) skip len acc =
     (let offset = min skip (vs_len s);
          skip = skip - offset;
          n = min (vs_len s - offset) len
      in if n > 0 then
           (case cm_subslice C s offset n of
              None \<Rightarrow> Panic
            | Some t \<Rightarrow>
                if len - n = 0 then Ok (acc @ [t])
                else range_from C ss skip (len - n) (acc @ [t]))
         else if len = 0 then Ok acc
         else range_from C ss skip len acc)"

definition range_slices :: "('q, 'm) crates \<Rightarrow> vslice list \<Rightarrow> usize \<Rightarrow> usize \<Rightarrow> (vslice list, DeviceError) result" where
  "range_slices C ss skip len = range_from C ss skip len []"

declare range_from.simps [simp del]

fun copy_to :: "('q, 'm) crates \<Rightarrow> vslice list \<Rightarrow> usize \<Rightarrow> ('m, bytes, DeviceError) prog" where
  "copy_to C [] dst = (if dst = 0 then ret [] else panic)"
| "copy_to C (s # ss) dst =
     (if dst = 0 then ret []
      else (let n = min (vs_len s) dst
            in bnd (\<lambda>m. case cm_copy_to C s n m of (bs, m') \<Rightarrow> (Ok bs, m')) (\<lambda>bs.
               bnd (copy_to C ss (dst - n)) (\<lambda>rest. ret (bs @ rest)))))"

fun copy_from :: "('q, 'm) crates \<Rightarrow> vslice list \<Rightarrow> bytes \<Rightarrow> ('m, unit, DeviceError) prog" where
  "copy_from C [] src = (if src = [] then ret () else panic)"
| "copy_from C (s # ss) src =
     (if src = [] then ret ()
      else (let n = min (vs_len s) (length src)
            in bnd (modify (cm_copy_from C s (take n src))) (\<lambda>_.
               copy_from C ss (drop n src))))"

fun windows2 :: "'a list \<Rightarrow> ('a \<times> 'a) list" where
  "windows2 (x # y # ys) = (x, y) # windows2 (y # ys)"
| "windows2 xs = []"

definition overlaps :: "vslice list \<Rightarrow> bool" where
  "overlaps ss =
     (let ranges = sort (map (\<lambda>s. (vs_ptr s, vs_ptr s + vs_len s)) ss)
      in list_ex (\<lambda>(a, b). snd a > fst b) (windows2 ranges))"

section \<open>The range cut out of a chain\<close>

definition piece_of :: "vslice \<Rightarrow> usize \<Rightarrow> usize \<Rightarrow> vslice list" where
  "piece_of s off n = (if n = 0 then [] else [\<lparr>vs_ptr = vs_ptr s + off, vs_len = n\<rparr>])"

lemma all_cells_piece: "off + n \<le> vs_len s \<Longrightarrow> all_cells (piece_of s off n) = take n (drop off (cells s))"
  by (cases "n = 0") (simp_all add: piece_of_def take_drop_cells)

lemma piece_nonempty: "t \<in> set (piece_of s off n) \<Longrightarrow> 0 < vs_len t"
  by (auto simp: piece_of_def split: if_splits)

lemma range_from_Cons:
  assumes "subslice_law C" and "off = min skip (vs_len s)" and "n = min (vs_len s - off) len"
  shows "range_from C (s # ss) skip len acc =
    (if len = n then Ok (acc @ piece_of s off n)
     else range_from C ss (skip - off) (len - n) (acc @ piece_of s off n))"
proof -
  have "off + n \<le> vs_len s" using assms(2,3) by simp
  then have "cm_subslice C s off n = Some \<lparr>vs_ptr = vs_ptr s + off, vs_len = n\<rparr>"
    using assms(1) by (simp add: subslice_law_def)
  moreover have "n \<le> len" using assms(3) by simp
  ultimately show ?thesis
    unfolding range_from.simps Let_def assms(2) [symmetric] assms(3) [symmetric]
    by (auto simp: piece_of_def)
qed

lemma range_from_spec:
  assumes "subslice_law C" and "skip + len \<le> sum_list (map vs_len ss)"
  shows "\<exists>ts. range_from C ss skip len acc = Ok (acc @ ts) \<and>
    all_cells ts = take len (drop skip (all_cells ss)) \<and> (\<forall>t \<in> set ts. 0 < vs_len t)"
  using assms(2)
proof (induction ss arbitrary: skip len acc)
  case Nil
  then show ?case by (simp add: range_from.simps)
next
  case (Cons s ss)
  define off where "off = min skip (vs_len s)"
  define n where "n = min (vs_len s - off) len"
  note step = range_from_Cons [OF assms(1) off_def n_def, of ss acc]
  have piece: "all_cells (piece_of s off n) = take n (drop off (cells s))"
    by (rule all_cells_piece) (simp add: off_def n_def)
  have split: "take len (drop skip (all_cells (s # ss))) =
      take n (drop off (cells s)) @ take (len - n) (drop (skip - off) (all_cells ss))"
    by (auto simp: off_def n_def min_def)
  show ?case
  proof (cases "len = n")
    case True
    with step piece split show ?thesis
      by (intro exI [of _ "piece_of s off n"]) (auto dest: piece_nonempty)
  next
    case False
    with Cons.prems have "skip - off + (len - n) \<le> sum_list (map vs_len ss)"
      by (auto simp: off_def n_def min_def split: if_splits)
    from Cons.IH [OF this, of "acc @ piece_of s off n"] obtain ts where
      "range_from C ss (skip - off) (len - n) (acc @ piece_of s off n) = Ok ((acc @ piece_of s off n) @ ts)"
      "all_cells ts = take (len - n) (drop (skip - off) (all_cells ss))" "\<forall>t \<in> set ts. 0 < vs_len t"
      by blast
    with False step piece split show ?thesis
      by (intro exI [of _ "piece_of s off n @ ts"]) (auto dest: piece_nonempty)
  qed
qed

lemma range_from_too_long:
  assumes "subslice_law C" and "sum_list (map vs_len ss) < skip + len" and "len \<noteq> 0"
  shows "range_from C ss skip len acc = Panic"
  using assms(2,3)
proof (induction ss arbitrary: skip len acc)
  case Nil
  then show ?case by (simp add: range_from.simps)
next
  case (Cons s ss)
  define off where "off = min skip (vs_len s)"
  define n where "n = min (vs_len s - off) len"
  have "len \<noteq> n" and "sum_list (map vs_len ss) < skip - off + (len - n)" and "len - n \<noteq> 0"
    using Cons.prems by (auto simp: off_def n_def min_def split: if_splits)
  then show ?case
    unfolding range_from_Cons [OF assms(1) off_def n_def] by (simp only: if_False) (rule Cons.IH)
qed

section \<open>Copies\<close>

lemma copy_to_Cons:
  assumes "n = min (vs_len s) k" and "cm_copy_to C s n m = (b, m1)"
  shows "copy_to C (s # ss) k m =
    (if k = 0 then (Ok [], m)
     else case copy_to C ss (k - n) m1 of
       (Ok r, m2) \<Rightarrow> (Ok (b @ r), m2) | (Err e, m2) \<Rightarrow> (Err e, m2) | (Panic, m2) \<Rightarrow> (Panic, m2))"
  using assms by (auto simp: Let_def bnd_def ret_def split: prod.splits result.splits)

declare copy_to.simps(2) [simp del]

lemma copy_to_total:
  assumes "copy_to_law C" and "k \<le> sum_list (map vs_len ss)"
  shows "\<exists>bs m'. copy_to C ss k m = (Ok bs, m') \<and> length bs = k"
  using assms(2)
proof (induction ss arbitrary: k m)
  case (Cons s ss)
  define n where "n = min (vs_len s) k"
  obtain b m1 where b: "cm_copy_to C s n m = (b, m1)" by (cases "cm_copy_to C s n m")
  with assms(1) have len: "length b = n" by (metis copy_to_law_def fst_conv min.cobounded1 n_def)
  have "k - n \<le> sum_list (map vs_len ss)" using Cons.prems by (simp add: n_def)
  from Cons.IH [OF this, of m1] obtain r m' where
    "copy_to C ss (k - n) m1 = (Ok r, m')" and "length r = k - n" by blast
  moreover have "n \<le> k" by (simp add: n_def)
  ultimately show ?case using copy_to_Cons [OF n_def b, of ss] len by simp
qed (simp add: ret_def)

lemma copy_from_total:
  "length bs \<le> sum_list (map vs_len ss) \<Longrightarrow> \<exists>m'. copy_from C ss bs m = (Ok (), m')"
proof (induction ss arbitrary: bs m)
  case (Cons s ss)
  define n where "n = min (vs_len s) (length bs)"
  have "length (drop n bs) \<le> sum_list (map vs_len ss)" using Cons.prems by (simp add: n_def)
  from Cons.IH [OF this, of "cm_copy_from C s (take n bs) m"] obtain m' where
    "copy_from C ss (drop n bs) (cm_copy_from C s (take n bs) m) = (Ok (), m')" by blast
  then show ?case by (auto simp: n_def [symmetric] Let_def bnd_def ret_def modify_def)
qed (simp add: ret_def)

lemma copy_from_not_Err: "fst (copy_from C ss bs m) \<noteq> Err e"
proof (induction ss arbitrary: bs m)
  case (Cons s ss)
  then show ?case by (simp add: Let_def bnd_def ret_def modify_def)
qed (simp add: ret_def panic_def)

lemma copy_to_not_Err: "fst (copy_to C ss k m) \<noteq> Err e"
proof (induction ss arbitrary: k m)
  case (Cons s ss)
  obtain b m1 where b: "cm_copy_to C s (min (vs_len s) k) m = (b, m1)"
    by (cases "cm_copy_to C s (min (vs_len s) k) m")
  have "fst (copy_to C ss (k - min (vs_len s) k) m1) \<noteq> Err e" by (rule Cons.IH)
  then show ?case unfolding copy_to_Cons [OF refl b] by (auto split: prod.splits result.splits)
qed (simp add: ret_def panic_def)

section \<open>The slices of a chain\<close>

lemma slices_total_length:
  assumes "get_slices_law C" and "slices C m desc = Inr ss"
  shows "sum_list (map vs_len ss) = sum_list (map (\<lambda>d. unat (d_len d)) desc)"
proof -
  from assms(2) have "concat (map (\<lambda>d. cm_get_slices C m (d_addr d) (unat (d_len d))) desc) = map Inr ss"
    by (simp add: slices_def collect_results_Inr)
  then show ?thesis
  proof (induction desc arbitrary: ss)
    case (Cons d desc)
    then obtain us vs where "cm_get_slices C m (d_addr d) (unat (d_len d)) = map Inr us"
      and "concat (map (\<lambda>d. cm_get_slices C m (d_addr d) (unat (d_len d))) desc) = map Inr vs"
      and "ss = us @ vs"
      by (auto simp: append_eq_map_conv)
    with Cons.IH assms(1) show ?case by (auto simp: get_slices_law_def)
  qed simp
qed

section \<open>The overlap test\<close>

lemma windows2_sorted_head:
  assumes "sorted (x # xs)" and "list_all (\<lambda>(a, b). snd a \<le> fst b) (windows2 (x # xs))" and "y \<in> set xs"
    and "\<forall>z \<in> set (x # xs). fst z \<le> snd z"
  shows "snd x \<le> fst (y :: usize \<times> usize)"
  using assms
proof (induction xs arbitrary: x)
  case (Cons z zs)
  have xz: "snd x \<le> fst z" using Cons.prems(2) by simp
  show ?case
  proof (cases "y = z")
    case False
    with Cons.prems have "snd z \<le> fst y" by (intro Cons.IH) auto
    moreover have "fst z \<le> snd z" using Cons.prems(4) by simp
    ultimately show ?thesis using xz by linarith
  qed (use xz in simp)
qed simp

lemma windows2_sorted_disjoint:
  assumes "sorted xs" and "list_all (\<lambda>(a, b). snd a \<le> fst b) (windows2 xs)"
    and "\<forall>z \<in> set xs. fst z \<le> (snd z :: usize)"
  shows "sorted_wrt (\<lambda>a b. snd a \<le> fst b) xs"
  using assms
proof (induction xs)
  case (Cons x xs)
  have "list_all (\<lambda>(a, b). snd a \<le> fst b) (windows2 xs)"
    using Cons.prems(2) by (cases xs) auto
  with Cons show ?case using windows2_sorted_head [of x xs] by simp
qed simp

definition span_cells :: "usize \<times> usize \<Rightarrow> usize list" where
  "span_cells r = [fst r ..< snd r]"

lemma distinct_concat_sorted:
  assumes "sorted xs" and "\<forall>r \<in> set xs. fst r < snd r"
  shows "distinct (concat (map span_cells xs)) \<longleftrightarrow> list_all (\<lambda>(a, b). snd a \<le> fst b) (windows2 xs)"
proof
  assume "list_all (\<lambda>(a, b). snd a \<le> fst b) (windows2 xs)"
  then have "sorted_wrt (\<lambda>a b. snd a \<le> fst b) xs"
    using windows2_sorted_disjoint assms by (simp add: less_imp_le)
  then show "distinct (concat (map span_cells xs))"
    by (induction xs) (force simp: span_cells_def)+
next
  assume "distinct (concat (map span_cells xs))"
  then show "list_all (\<lambda>(a, b). snd a \<le> fst b) (windows2 xs)"
    using assms
  proof (induction xs rule: windows2.induct)
    case (1 x y ys)
    have "fst x \<le> fst y" using 1(3) by (auto simp: less_eq_prod_def)
    moreover have "fst y \<notin> set (span_cells x)" using 1(2,4) by (auto simp: span_cells_def)
    ultimately have "snd x \<le> fst y" by (simp add: span_cells_def)
    moreover have "list_all (\<lambda>(a, b). snd a \<le> fst b) (windows2 (y # ys))" using 1 by auto
    ultimately show ?case by simp
  qed auto
qed

lemma distinct_concat_sort:
  "distinct (concat (map f (sort xs))) = distinct (concat (map f xs))"
proof (rule mset_eq_imp_distinct_iff)
  have "mset (concat (map f ys)) = (\<Sum>x \<in># mset ys. mset (f x))" for ys
    by (induction ys) auto
  then show "mset (concat (map f (sort xs))) = mset (concat (map f xs))" by simp
qed

lemma overlaps_iff:
  assumes "\<forall>s \<in> set ss. 0 < vs_len s"
  shows "overlaps ss \<longleftrightarrow> \<not> distinct (all_cells ss)"
proof -
  let ?rs = "map (\<lambda>s. (vs_ptr s, vs_ptr s + vs_len s)) ss"
  have "all_cells ss = concat (map span_cells ?rs)"
    by (simp add: all_cells_def span_cells_def cells_def [abs_def] comp_def)
  moreover have "distinct (concat (map span_cells ?rs)) \<longleftrightarrow>
      list_all (\<lambda>(a, b). snd a \<le> fst b) (windows2 (sort ?rs))"
    unfolding distinct_concat_sort [symmetric, of span_cells ?rs]
    using assms by (intro distinct_concat_sorted) auto
  moreover have "overlaps ss \<longleftrightarrow> \<not> list_all (\<lambda>(a, b). snd a \<le> fst b) (windows2 (sort ?rs))"
    unfolding overlaps_def Let_def list_ex_iff list_all_iff by fastforce
  ultimately show ?thesis by simp
qed

end
