(* ===== verification/Storage.thy ===== *)
theory Storage
  imports Crates
begin

text \<open>
  Disk storage, \<open>src/src/storage.rs\<close>: the request bounds check, the qcow2 header validation,
  and the \<open>Disk\<close> backend that splits a scatter-gather request into vectored calls of the image
  library \<open>imago\<close>. The image library and the operating system are parameters. The contract of
  the trait \<open>BlockStorage\<close> is the locale \<open>block_storage\<close>, interpreted on \<open>Disk\<close>. The main result is
  that the batched transfer has the effect of one flat transfer.
\<close>

section \<open>Bounds and header validation\<close>

definition bounds :: "u64 \<Rightarrow> u64 \<Rightarrow> usize \<Rightarrow> (unit, StorageError) result" where
  "bounds sz offset len =
     (case checked_add offset (word_of_nat len) of
        Some end \<Rightarrow> if end \<le> sz then Ok () else Err (StorageError.OutOfBounds sz offset len)
      | None \<Rightarrow> Err (StorageError.OutOfBounds sz offset len))"

definition u32at :: "bytes \<Rightarrow> nat \<Rightarrow> u32" where
  "u32at h p = word_of_nat (be_nat (sub_bytes p 4 h))"

definition u64at :: "bytes \<Rightarrow> nat \<Rightarrow> u64" where
  "u64at h p = word_of_nat (be_nat (sub_bytes p 8 h))"

definition qcow2_magic :: bytes where
  "qcow2_magic = [0x51, 0x46, 0x49, 0xfb]"

definition validate_header :: "bytes \<Rightarrow> (u64, StorageError) result" where
  "validate_header h =
     (if \<not> (104 \<le> length h \<and> take 4 h = qcow2_magic) then Err StorageError.InvalidHeader
      else let version = u32at h 4 in
      if \<not> (version = 2 \<or> version = 3) then Err (StorageError.UnsupportedVersion version)
      else if \<not> (u64at h 8 = 0 \<and> u32at h 16 = 0) then Err StorageError.BackingChainsUnsupported
      else if \<not> (9 \<le> u32at h 20 \<and> u32at h 20 \<le> 21)
        then Err (StorageError.InvalidQcow2ClusterSize (u32at h 20))
      else if u32at h 32 \<noteq> 0 then Err StorageError.EncryptedImagesUnsupported
      else if \<not> (u32at h 60 = 0 \<and> u64at h 64 = 0) then Err StorageError.InternalSnapshotsUnsupported
      else if version = 3 \<and> u64at h 72 \<noteq> 0 then Err (StorageError.IncompatibleFeatures (u64at h 72))
      else if version = 3 \<and> \<not> (104 \<le> u32at h 100 \<and>
            ucast (u32at h 100) \<le> (push_bit (unat (u32at h 20)) 1 :: u64))
        then Err (StorageError.InvalidHeaderLength (u32at h 100))
      else let sz = u64at h 24 in
      if \<not> (sz > 0 \<and> is_multiple_of sz 512) then Err (StorageError.InvalidCapacity sz)
      else Ok sz)"

section \<open>The disk\<close>

text \<open>\<open>iov_max\<close>: the argument is what \<open>sysconf(_SC_IOV_MAX)\<close> returns.\<close>

definition iov_max :: "int \<Rightarrow> usize" where
  "iov_max limit = (if limit > 0 then nat limit else 16)"

text \<open>\<open>usize::saturating_add\<close>.\<close>

definition usize_saturating_add :: "usize \<Rightarrow> usize \<Rightarrow> usize" where
  "usize_saturating_add a b = min (a + b) (2 ^ 64 - 1)"

definition segments_overlap :: "vslice \<Rightarrow> vslice \<Rightarrow> bool" where
  "segments_overlap a b =
     (vs_ptr a < usize_saturating_add (vs_ptr b) (vs_len b) \<and>
      vs_ptr b < usize_saturating_add (vs_ptr a) (vs_len a))"

text \<open>The image library: vectored reads and writes, flush and sync of an open image, which
  may change the image's caches and the guest memory the vector points to.\<close>

record ('i, 'm) imago =
  im_readv :: "vslice list \<Rightarrow> u64 \<Rightarrow> 'i \<times> 'm \<Rightarrow> (IoError + unit) \<times> 'i \<times> 'm"
  im_writev :: "vslice list \<Rightarrow> u64 \<Rightarrow> 'i \<times> 'm \<Rightarrow> (IoError + unit) \<times> 'i \<times> 'm"
  im_flush :: "'i \<Rightarrow> (IoError + unit) \<times> 'i"
  im_sync :: "'i \<Rightarrow> (IoError + unit) \<times> 'i"
  im_size :: "'i \<Rightarrow> u64"
  im_iov_limit :: int

record 'i disk =
  dimage :: 'i
  readonly :: bool
  dsize :: u64
  path :: string

definition on_image ::
  "(IoError \<Rightarrow> StorageError) \<Rightarrow> ('i \<times> 'm \<Rightarrow> (IoError + unit) \<times> 'i \<times> 'm) \<Rightarrow>
    ('i disk \<times> 'm, unit, StorageError) prog" where
  "on_image context f = (\<lambda>(d, m). case f (dimage d, m) of
     (r, i, m') \<Rightarrow> (of_sum context r, d\<lparr>dimage := i\<rparr>, m'))"

text \<open>The inner loop of \<open>Disk::transfer\<close>: the batch, and the segments left.\<close>

fun next_batch :: "usize \<Rightarrow> bool \<Rightarrow> vslice list \<Rightarrow> vslice list \<Rightarrow> vslice list \<times> vslice list" where
  "next_batch limit write [] batch = (batch, [])"
| "next_batch limit write (segment # segments) batch =
     (if length batch = limit \<or> (\<not> write \<and> list_ex (\<lambda>other. segments_overlap segment other) batch)
      then (batch, segment # segments)
      else next_batch limit write segments (batch @ [segment]))"

text \<open>The outer loop. Every round takes at least one segment when the limit is positive, so the
  number of segments is enough fuel; running out of it would be a loop that never ends and is
  shown not to happen.\<close>

fun transfer_loop ::
  "('i, 'm) imago \<Rightarrow> (IoError \<Rightarrow> StorageError) \<Rightarrow> usize \<Rightarrow> bool \<Rightarrow> nat \<Rightarrow> vslice list \<Rightarrow> u64 \<Rightarrow>
    ('i disk \<times> 'm, unit, StorageError) prog" where
  "transfer_loop I context limit write fuel [] offset = ret ()"
| "transfer_loop I context limit write 0 (s # ss) offset = panic"
| "transfer_loop I context limit write (Suc fuel) (s # ss) offset =
     (case next_batch limit write (s # ss) [] of
        (batch, segments) \<Rightarrow>
          bnd (on_image context ((if write then im_writev else im_readv) I batch offset)) (\<lambda>_.
          transfer_loop I context limit write fuel segments
            (offset + word_of_nat (sum_list (map vs_len batch)))))"

definition transfer ::
  "('i, 'm) imago \<Rightarrow> u64 \<Rightarrow> vslice list \<Rightarrow> bool \<Rightarrow> ('i disk \<times> 'm, unit, StorageError) prog" where
  "transfer I offset data write =
     bnd get_state (\<lambda>(d, m).
       let context = StorageError.Operation (if write then ''qcow2 write'' else ''qcow2 read'') (path d)
       in case try_sum (map vs_len data) 0 of
            None \<Rightarrow> throw (context (IoError InvalidInput ''disk request length overflow''))
          | Some len \<Rightarrow>
              bnd (pure_res (bounds (dsize d) offset len)) (\<lambda>_.
              let segments = filter (\<lambda>s. vs_len s \<noteq> 0) data
              in transfer_loop I context (iov_max (im_iov_limit I)) write (length segments)
                   segments offset))"

definition disk_read ::
  "('i, 'm) imago \<Rightarrow> u64 \<Rightarrow> vslice list \<Rightarrow> ('i disk \<times> 'm, unit, StorageError) prog" where
  "disk_read I offset data = transfer I offset data False"

definition disk_write ::
  "('i, 'm) imago \<Rightarrow> u64 \<Rightarrow> vslice list \<Rightarrow> ('i disk \<times> 'm, unit, StorageError) prog" where
  "disk_write I offset data =
     bnd get_state (\<lambda>(d, m).
       if readonly d then throw StorageError.ReadOnly else transfer I offset data True)"

definition on_caches ::
  "(IoError \<Rightarrow> StorageError) \<Rightarrow> ('i \<Rightarrow> (IoError + unit) \<times> 'i) \<Rightarrow> ('i disk, unit, StorageError) prog" where
  "on_caches context f = (\<lambda>d. case f (dimage d) of (r, i) \<Rightarrow> (of_sum context r, d\<lparr>dimage := i\<rparr>))"

definition disk_flush :: "('i, 'm) imago \<Rightarrow> ('i disk, unit, StorageError) prog" where
  "disk_flush I =
     bnd get_state (\<lambda>d.
       if \<not> readonly d then
         bnd (on_caches (StorageError.Operation ''qcow2 cache flush'' (path d)) (im_flush I)) (\<lambda>_.
         on_caches (StorageError.Operation ''qcow2 host sync'' (path d)) (im_sync I))
       else ret ())"

text \<open>\<open>Drop for Disk\<close>: a final flush whose failure is only printed.\<close>

definition disk_drop :: "('i, 'm) imago \<Rightarrow> 'i disk \<Rightarrow> 'i disk" where
  "disk_drop I d = snd (disk_flush I d)"

text \<open>\<open>Disk::open\<close>. The operating system and the image builder are the record \<open>disk_os\<close>; dropping
  the lock descriptor on an error path closes it.\<close>

record ('f, 'g, 'i, 'os) disk_os =
  os_open :: "string \<Rightarrow> bool \<Rightarrow> 'os \<Rightarrow> (IoError + 'f) \<times> 'os"
  os_is_file :: "'f \<Rightarrow> 'os \<Rightarrow> (IoError + bool) \<times> 'os"
  os_flock :: "'f \<Rightarrow> bool \<Rightarrow> 'os \<Rightarrow> (IoError + unit) \<times> 'os"
  os_read_exact_at :: "'f \<Rightarrow> nat \<Rightarrow> u64 \<Rightarrow> 'os \<Rightarrow> (IoError + bytes) \<times> 'os"
  os_try_clone :: "'f \<Rightarrow> 'os \<Rightarrow> (IoError + 'f) \<times> 'os"
  os_image_file :: "'f \<Rightarrow> 'os \<Rightarrow> (IoError + 'g) \<times> 'os"
  os_qcow2_open :: "'g \<Rightarrow> bool \<Rightarrow> 'os \<Rightarrow> (IoError + 'i) \<times> 'os"
  os_close :: "'f \<Rightarrow> 'os \<Rightarrow> 'os"

definition disk_open_locked ::
  "('f, 'g, 'i, 'os) disk_os \<Rightarrow> ('i, 'm) imago \<Rightarrow> string \<Rightarrow> bool \<Rightarrow> 'f \<Rightarrow>
    ('os, 'i disk, StorageError) prog" where
  "disk_open_locked OS I p ro lock =
     bnd (call_ext (StorageError.Operation ''metadata'' p) (os_is_file OS lock)) (\<lambda>is_file.
     if \<not> is_file then throw StorageError.NotRegularFile
     else
     bnd (call_ext (StorageError.Operation ''disk is already locked'' p) (os_flock OS lock (\<not> ro))) (\<lambda>_.
     bnd (call_ext (StorageError.Operation ''read qcow2 header'' p) (os_read_exact_at OS lock 104 0)) (\<lambda>h.
     bnd (pure_res (validate_header h)) (\<lambda>sz.
     bnd (call_ext (StorageError.Operation ''duplicate disk descriptor'' p) (os_try_clone OS lock)) (\<lambda>dup.
     bnd (call_ext (StorageError.Operation ''create image file'' p) (os_image_file OS dup)) (\<lambda>file.
     bnd (call_ext (StorageError.Operation ''open qcow2 metadata'' p) (os_qcow2_open OS file (\<not> ro))) (\<lambda>img.
     if im_size I img \<noteq> sz
     then throw (StorageError.CapacityMismatch sz (im_size I img))
     else ret \<lparr>dimage = img, readonly = ro, dsize = sz, path = p\<rparr>)))))))"

definition disk_open ::
  "('f, 'g, 'i, 'os) disk_os \<Rightarrow> ('i, 'm) imago \<Rightarrow> string \<Rightarrow> bool \<Rightarrow> ('os, 'i disk, StorageError) prog" where
  "disk_open OS I p ro =
     bnd (call_ext (StorageError.Operation ''open'' p) (os_open OS p (\<not> ro))) (\<lambda>lock os.
       case disk_open_locked OS I p ro lock os of
         (Ok d, os') \<Rightarrow> (Ok d, os')
       | (Err e, os') \<Rightarrow> (Err e, os_close OS lock os')
       | (Panic, os') \<Rightarrow> (Panic, os_close OS lock os'))"

section \<open>Bounds\<close>

lemma bounds_Ok_iff:
  assumes "len < 2 ^ 64"
  shows "bounds sz offset len = Ok () \<longleftrightarrow> unat offset + len \<le> unat sz"
proof (cases "checked_add offset (word_of_nat len :: u64)")
  case None
  have "unat sz < 2 ^ 64" using unat_bound [of sz] by simp
  moreover from None assms have "2 ^ 64 \<le> unat offset + len"
    by (simp add: checked_add_None_iff unat_of_nat take_bit_eq_mod)
  ultimately show ?thesis using None by (simp add: bounds_def)
next
  case (Some e)
  with assms have "unat e = unat offset + len"
    using checked_add_Some [OF Some] by (simp add: unat_of_nat take_bit_eq_mod)
  with Some show ?thesis by (simp add: bounds_def word_le_nat_alt)
qed

lemma bounds_not_Panic [simp]: "bounds sz offset len \<noteq> Panic"
  by (auto simp: bounds_def split: option.splits)

lemma try_sum_bound: "try_sum xs n = Some k \<Longrightarrow> n < 2 ^ 64 \<Longrightarrow> k < 2 ^ 64"
  by (induction xs arbitrary: n) (auto simp: usize_add_def split: option.splits if_splits)

lemma iov_max_pos [simp]: "0 < iov_max limit"
  by (simp add: iov_max_def)

section \<open>Batches\<close>

text \<open>No segment of a read batch overlaps an earlier one.\<close>

definition batch_ok :: "vslice list \<Rightarrow> bool" where
  "batch_ok batch = sorted_wrt (\<lambda>a b. \<not> segments_overlap b a) batch"

lemma next_batch_spec:
  "next_batch limit write segs batch = (batch', rest) \<Longrightarrow> length batch \<le> limit \<Longrightarrow>
    (\<not> write \<longrightarrow> batch_ok batch) \<Longrightarrow>
    batch @ segs = batch' @ rest \<and> length batch' \<le> limit \<and> (\<not> write \<longrightarrow> batch_ok batch')"
proof (induction segs arbitrary: batch)
  case (Cons s segs)
  show ?case
  proof (cases "length batch = limit \<or> (\<not> write \<and> list_ex (\<lambda>t. segments_overlap s t) batch)")
    case True
    with Cons.prems show ?thesis by auto
  next
    case False
    then have "\<not> write \<longrightarrow> batch_ok (batch @ [s])"
      using Cons.prems(3) by (auto simp: batch_ok_def sorted_wrt_append list_ex_iff)
    with Cons.IH [of "batch @ [s]"] Cons.prems False show ?thesis by auto
  qed
qed simp

lemma next_batch_grows:
  "next_batch limit write segs batch = (batch', rest) \<Longrightarrow> length batch \<le> length batch'"
  by (induction segs arbitrary: batch) (fastforce split: if_splits)+

lemma next_batch_progress:
  assumes "next_batch limit write (s # segs) [] = (batch, rest)" and "0 < limit"
  shows "batch \<noteq> [] \<and> s # segs = batch @ rest \<and> length rest < length (s # segs)"
proof -
  from assms have *: "next_batch limit write segs [s] = (batch, rest)" by simp
  from next_batch_grows [OF this] have "batch \<noteq> []" by auto
  moreover from assms have "s # segs = batch @ rest"
    using next_batch_spec [OF assms(1)] by (simp add: batch_ok_def)
  ultimately show ?thesis by auto
qed

lemma segments_disjoint:
  assumes "\<not> segments_overlap b a" and "vs_ptr a + vs_len a < 2 ^ 64" and "vs_ptr b + vs_len b < 2 ^ 64"
  shows "set (cells a) \<inter> set (cells b) = {}"
  using assms by (auto simp: segments_overlap_def usize_saturating_add_def cells_def)

lemma batch_ok_distinct:
  "batch_ok batch \<Longrightarrow> \<forall>s \<in> set batch. vs_ptr s + vs_len s < 2 ^ 64 \<Longrightarrow> distinct (all_cells batch)"
proof (induction batch)
  case (Cons s batch)
  then have "set (cells s) \<inter> set (cells t) = {}" if "t \<in> set batch" for t
    using that by (intro segments_disjoint) (auto simp: batch_ok_def)
  then have "set (cells s) \<inter> set (all_cells batch) = {}" by (auto simp: all_cells_def)
  with Cons show ?case by (auto simp: batch_ok_def cells_def)
qed simp

text \<open>The loop rule: an invariant over the segments already transferred that every vectored
  call keeps holds for all of them when the transfer returns.\<close>

lemma transfer_loop_rule:
  assumes "0 < limit"
    and step: "\<And>seen batch rest off i m i' m'. J seen off i m \<Longrightarrow> whole = seen @ batch @ rest \<Longrightarrow>
      (\<not> write \<longrightarrow> batch_ok batch) \<Longrightarrow>
      (if write then im_writev else im_readv) I batch off (i, m) = (Inr (), i', m') \<Longrightarrow>
      J (seen @ batch) (off + word_of_nat (sum_list (map vs_len batch))) i' m'"
  shows "transfer_loop I context limit write fuel segs off (d, m) = (Ok (), d', m') \<Longrightarrow>
    whole = seen @ segs \<Longrightarrow> J seen off (dimage d) m \<Longrightarrow> \<exists>off'. J whole off' (dimage d') m'"
proof (induction fuel arbitrary: segs off d m seen)
  case 0
  then show ?case by (cases segs) (auto simp: ret_def panic_def)
next
  case (Suc fuel)
  show ?case
  proof (cases segs)
    case Nil
    with Suc.prems show ?thesis by (auto simp: ret_def)
  next
    case (Cons s ss)
    obtain batch rest where nb: "next_batch limit write (s # ss) [] = (batch, rest)" by force
    note spec = next_batch_spec [OF nb] next_batch_progress [OF nb assms(1)]
    obtain r i' m1 where r: "(if write then im_writev else im_readv) I batch off (dimage d, m) = (r, i', m1)"
      by (metis prod_cases3)
    with Suc.prems(1) Cons nb have run: "r = Inr ()"
      "transfer_loop I context limit write fuel rest (off + word_of_nat (sum_list (map vs_len batch)))
        (d\<lparr>dimage := i'\<rparr>, m1) = (Ok (), d', m')"
      by (auto simp: bnd_def on_image_def split: result.splits if_splits elim: of_sum.elims)
    have "J (seen @ batch) (off + word_of_nat (sum_list (map vs_len batch))) i' m1"
      using Suc.prems(2,3) Cons spec r run(1)
      by (intro step [of seen off "dimage d" m batch rest]) (auto simp: batch_ok_def)
    with Suc.IH [OF run(2), of "seen @ batch"] Suc.prems(2) Cons spec(2) show ?thesis by simp
  qed
qed

lemma transfer_loop_no_panic:
  "0 < limit \<Longrightarrow> length segs \<le> fuel \<Longrightarrow>
    fst (transfer_loop I context limit write fuel segs off s) \<noteq> Panic"
proof (induction fuel arbitrary: segs off s)
  case 0
  then show ?case by (simp add: ret_def)
next
  case (Suc fuel)
  show ?case
  proof (cases segs)
    case (Cons x ss)
    obtain batch rest where nb: "next_batch limit write (x # ss) [] = (batch, rest)" by force
    from next_batch_progress [OF this Suc.prems(1)] have "length rest < length (x # ss)" by blast
    with Suc.prems(2) Cons have "length rest \<le> fuel" by simp
    with Suc.IH Suc.prems(1) Cons nb show ?thesis
      by (auto simp: bnd_def on_image_def split: prod.splits result.splits)
  qed (simp add: ret_def)
qed

section \<open>The batched transfer as one flat transfer\<close>

definition put_at :: "nat \<Rightarrow> 'a list \<Rightarrow> (nat \<Rightarrow> 'a) \<Rightarrow> nat \<Rightarrow> 'a" where
  "put_at off bs f = (\<lambda>a. if off \<le> a \<and> a < off + length bs then bs ! (a - off) else f a)"

definition get_at :: "nat \<Rightarrow> nat \<Rightarrow> (nat \<Rightarrow> 'a) \<Rightarrow> 'a list" where
  "get_at off n f = map (\<lambda>k. f (off + k)) [0 ..< n]"

definition scatter :: "nat list \<Rightarrow> 'a list \<Rightarrow> (nat \<Rightarrow> 'a) \<Rightarrow> nat \<Rightarrow> 'a" where
  "scatter cs bs f = foldl (\<lambda>g (c, b). g(c := b)) f (zip cs bs)"

lemma put_at_append: "put_at off (xs @ ys) f = put_at (off + length xs) ys (put_at off xs f)"
  by (rule ext) (auto simp: put_at_def nth_append)

lemma put_at_Nil [simp]: "put_at off [] f = f"
  by (rule ext) (auto simp: put_at_def)

lemma scatter_append:
  "length cs = length bs \<Longrightarrow> scatter (cs @ cs') (bs @ bs') f = scatter cs' bs' (scatter cs bs f)"
  by (simp add: scatter_def)

lemma scatter_Nil [simp]: "scatter [] [] f = f"
  by (simp add: scatter_def)

lemma get_at_append: "get_at off (n + k) f = get_at off n f @ get_at (off + n) k f"
proof -
  have "[0 ..< n + k] = [0 ..< n] @ [n ..< k + n]"
    using upt_add_eq_append [of 0 n k] by (simp add: add.commute)
  also have "[n ..< k + n] = map (\<lambda>i. i + n) [0 ..< k]" by (simp add: map_add_upt)
  finally show ?thesis by (simp add: get_at_def ac_simps)
qed

lemma length_get_at [simp]: "length (get_at off n f) = n"
  by (simp add: get_at_def)

lemma get_at_0 [simp]: "get_at off 0 f = []"
  by (simp add: get_at_def)

text \<open>What the image library promises of a vectored call that succeeds, over a byte view of the
  image and of guest memory: a write stores the gathered bytes at the offset and leaves memory
  alone; a read of segments that do not overlap scatters the image's bytes over them.\<close>

definition writev_law :: "('i, 'm) imago \<Rightarrow> ('i \<Rightarrow> nat \<Rightarrow> u8) \<Rightarrow> ('m \<Rightarrow> nat \<Rightarrow> u8) \<Rightarrow> bool" where
  "writev_law I content mem \<longleftrightarrow> (\<forall>segs off i m i' m'.
     im_writev I segs off (i, m) = (Inr (), i', m') \<longrightarrow>
     mem m' = mem m \<and> content i' = put_at (unat off) (map (mem m) (all_cells segs)) (content i))"

definition readv_law :: "('i, 'm) imago \<Rightarrow> ('i \<Rightarrow> nat \<Rightarrow> u8) \<Rightarrow> ('m \<Rightarrow> nat \<Rightarrow> u8) \<Rightarrow> bool" where
  "readv_law I content mem \<longleftrightarrow> (\<forall>segs off i m i' m'.
     distinct (all_cells segs) \<longrightarrow> im_readv I segs off (i, m) = (Inr (), i', m') \<longrightarrow>
     content i' = content i \<and>
     mem m' = scatter (all_cells segs) (get_at (unat off) (length (all_cells segs)) (content i)) (mem m))"

lemma all_cells_filter: "all_cells (filter (\<lambda>s. vs_len s \<noteq> 0) ss) = all_cells ss"
  by (induction ss) (auto simp: cells_def)

lemma unat_add_of_nat:
  "unat (off :: u64) + n < 2 ^ 64 \<Longrightarrow> unat (off + word_of_nat n) = unat off + n"
  by (simp add: unat_word_ariths unat_of_nat take_bit_eq_mod)

lemma transfer_Ok:
  assumes "transfer I off data write (d, m) = (Ok (), s')"
  shows "unat off + sum_list (map vs_len data) \<le> unat (dsize d) \<and>
    (\<exists>context fuel. transfer_loop I context (iov_max (im_iov_limit I)) write fuel
       (filter (\<lambda>s. vs_len s \<noteq> 0) data) off (d, m) = (Ok (), s'))"
proof -
  from assms obtain len where len: "try_sum (map vs_len data) 0 = Some len"
    and b: "bounds (dsize d) off len = Ok ()"
    and run: "\<exists>context fuel. transfer_loop I context (iov_max (im_iov_limit I)) write fuel
       (filter (\<lambda>s. vs_len s \<noteq> 0) data) off (d, m) = (Ok (), s')"
    by (auto simp: transfer_def Let_def prog_defs split: option.splits result.splits)
  moreover have "len = sum_list (map vs_len data)" "len < 2 ^ 64"
    using try_sum_Some [OF len] try_sum_bound [OF len] by simp_all
  ultimately show ?thesis using bounds_Ok_iff by blast
qed

lemma transfer_write_flat:
  assumes "writev_law I content mem" and "transfer I off data True (d, m) = (Ok (), d', m')"
  shows "content (dimage d') = put_at (unat off) (map (mem m) (all_cells data)) (content (dimage d)) \<and>
    mem m' = mem m"
proof -
  let ?segs = "filter (\<lambda>s. vs_len s \<noteq> 0) data"
  let ?J = "\<lambda>seen (off' :: u64) i mm. (unat off' = unat off + length (all_cells seen)) \<and> mem mm = mem m \<and>
    content i = put_at (unat off) (map (mem m) (all_cells seen)) (content (dimage d))"
  note ok = transfer_Ok [OF assms(2)]
  then have len: "unat off + length (all_cells ?segs) < 2 ^ 64"
    unfolding all_cells_filter length_all_cells using unat_bound [of "dsize d"] by simp
  from ok obtain ctx fuel where run: "transfer_loop I ctx (iov_max (im_iov_limit I)) True fuel ?segs off (d, m) = (Ok (), d', m')"
    by blast
  have "\<exists>off'. ?J ?segs off' (dimage d') m'"
  proof (rule transfer_loop_rule [OF iov_max_pos _ run, where seen = "[]" and J = ?J])
    fix seen batch rest off' i mm i' mm'
    assume J: "?J seen off' i mm" and whole: "?segs = seen @ batch @ rest"
      and w: "(if True then im_writev else im_readv) I batch off' (i, mm) = (Inr (), i', mm')"
    have "unat off + length (all_cells seen) + length (all_cells batch) < 2 ^ 64"
      using len unfolding whole by simp
    then have "unat (off' + word_of_nat (sum_list (map vs_len batch))) =
        unat off + length (all_cells (seen @ batch))"
      using J by (subst unat_add_of_nat) (simp_all add: length_all_cells)
    moreover have "mem mm' = mem m" and "content i' = put_at (unat off) (map (mem m) (all_cells (seen @ batch))) (content (dimage d))"
      using assms(1) w J by (auto simp: writev_law_def put_at_append)
    ultimately show "?J (seen @ batch) (off' + word_of_nat (sum_list (map vs_len batch))) i' mm'" by blast
  qed auto
  then show ?thesis unfolding all_cells_filter by blast
qed

lemma transfer_read_flat:
  assumes "readv_law I content mem" and "\<forall>s \<in> set data. vs_ptr s + vs_len s < 2 ^ 64"
    and "transfer I off data False (d, m) = (Ok (), d', m')"
  shows "mem m' = scatter (all_cells data)
      (get_at (unat off) (length (all_cells data)) (content (dimage d))) (mem m) \<and>
    content (dimage d') = content (dimage d)"
proof -
  let ?segs = "filter (\<lambda>s. vs_len s \<noteq> 0) data"
  let ?J = "\<lambda>seen (off' :: u64) i mm. (unat off' = unat off + length (all_cells seen)) \<and>
    content i = content (dimage d) \<and> mem mm = scatter (all_cells seen)
      (get_at (unat off) (length (all_cells seen)) (content (dimage d))) (mem m)"
  note ok = transfer_Ok [OF assms(3)]
  then have len: "unat off + length (all_cells ?segs) < 2 ^ 64"
    unfolding all_cells_filter length_all_cells using unat_bound [of "dsize d"] by simp
  from ok obtain ctx fuel where run: "transfer_loop I ctx (iov_max (im_iov_limit I)) False fuel ?segs off (d, m) = (Ok (), d', m')"
    by blast
  have "\<exists>off'. ?J ?segs off' (dimage d') m'"
  proof (rule transfer_loop_rule [OF iov_max_pos _ run, where seen = "[]" and J = ?J])
    fix seen batch rest off' i mm i' mm'
    assume J: "?J seen off' i mm" and whole: "?segs = seen @ batch @ rest"
      and ok: "\<not> False \<longrightarrow> batch_ok batch"
      and w: "(if False then im_writev else im_readv) I batch off' (i, mm) = (Inr (), i', mm')"
    have "unat off + length (all_cells seen) + length (all_cells batch) < 2 ^ 64"
      using len unfolding whole by simp
    then have "unat (off' + word_of_nat (sum_list (map vs_len batch))) =
        unat off + length (all_cells (seen @ batch))"
      using J by (subst unat_add_of_nat) (simp_all add: length_all_cells)
    moreover have "set batch \<subseteq> set data" using whole by (metis Un_iff filter_is_subset order_trans set_append subsetI)
    then have "distinct (all_cells batch)" using ok assms(2) by (intro batch_ok_distinct) auto
    with assms(1) w J have "content i' = content (dimage d)" and "mem mm' = scatter (all_cells (seen @ batch))
        (get_at (unat off) (length (all_cells (seen @ batch))) (content (dimage d))) (mem m)"
      by (auto simp: readv_law_def scatter_append get_at_append)
    ultimately show "?J (seen @ batch) (off' + word_of_nat (sum_list (map vs_len batch))) i' mm'" by blast
  qed auto
  then show ?thesis unfolding all_cells_filter by blast
qed

section \<open>The contract of a storage backend\<close>

text \<open>The trait \<open>BlockStorage\<close>: the operations a block device calls, over the backend's state and
  guest memory.\<close>

record ('s, 'm) block_ops =
  bs_size :: "'s \<Rightarrow> u64"
  bs_read_only :: "'s \<Rightarrow> bool"
  bs_read :: "u64 \<Rightarrow> vslice list \<Rightarrow> ('s \<times> 'm, unit, StorageError) prog"
  bs_write :: "u64 \<Rightarrow> vslice list \<Rightarrow> ('s \<times> 'm, unit, StorageError) prog"
  bs_flush :: "('s, unit, StorageError) prog"

text \<open>The forwarding implementation for \<open>Box<T>\<close>.\<close>

definition box_ops :: "('s, 'm) block_ops \<Rightarrow> ('s, 'm) block_ops" where
  "box_ops B = \<lparr>bs_size = (\<lambda>s. bs_size B s), bs_read_only = (\<lambda>s. bs_read_only B s),
     bs_read = (\<lambda>off data. bs_read B off data), bs_write = (\<lambda>off data. bs_write B off data),
     bs_flush = bs_flush B\<rparr>"

definition disk_ops :: "('i, 'm) imago \<Rightarrow> ('i disk, 'm) block_ops" where
  "disk_ops I = \<lparr>bs_size = dsize, bs_read_only = readonly, bs_read = disk_read I,
     bs_write = disk_write I, bs_flush = disk_flush I\<rparr>"

definition same_geometry :: "('s, 'm) block_ops \<Rightarrow> 's \<times> 'm \<Rightarrow> 's \<times> 'm \<Rightarrow> bool" where
  "same_geometry B = (\<lambda>(s, m) (s', m'). bs_size B s' = bs_size B s \<and> bs_read_only B s' = bs_read_only B s)"

definition same_disk :: "('s, 'm) block_ops \<Rightarrow> 's \<Rightarrow> 's \<Rightarrow> bool" where
  "same_disk B s s' = (bs_size B s' = bs_size B s \<and> bs_read_only B s' = bs_read_only B s)"

lemma same_disk_refl [simp]: "reflp (same_disk B)"
  by (auto simp: reflp_def same_disk_def)

lemma same_disk_trans [simp]: "transp (same_disk B)"
  by (auto simp: transp_def same_disk_def)

lemma same_geometry_refl [simp]: "reflp (same_geometry B)"
  by (auto simp: reflp_def same_geometry_def)

lemma same_geometry_trans [simp]: "transp (same_geometry B)"
  by (auto simp: transp_def same_geometry_def)

text \<open>What a block device relies on: capacity and mode never change, a request outside the
  capacity and a write to a read-only disk fail and change nothing, and no request panics.\<close>

locale block_storage =
  fixes B :: "('s, 'm) block_ops"
  assumes read_geometry: "keeps (same_geometry B) (bs_read B off data)"
    and write_geometry: "keeps (same_geometry B) (bs_write B off data)"
    and flush_geometry: "keeps (same_disk B) (bs_flush B)"
    and read_outside: "unat (bs_size B s) < unat off + sum_list (map vs_len data) \<Longrightarrow>
      \<exists>e. bs_read B off data (s, m) = (Err e, s, m)"
    and write_outside: "unat (bs_size B s) < unat off + sum_list (map vs_len data) \<Longrightarrow>
      \<exists>e. bs_write B off data (s, m) = (Err e, s, m)"
    and write_read_only: "bs_read_only B s \<Longrightarrow> \<exists>e. bs_write B off data (s, m) = (Err e, s, m)"
    and read_returns: "fst (bs_read B off data x) \<noteq> Panic"
    and write_returns: "fst (bs_write B off data x) \<noteq> Panic"
    and flush_returns: "fst (bs_flush B s) \<noteq> Panic"
begin

lemma write_Ok_inside:
  assumes "bs_write B off data (s, m) = (Ok (), s', m')"
  shows "unat off + sum_list (map vs_len data) \<le> unat (bs_size B s) \<and> \<not> bs_read_only B s \<and>
    bs_size B s' = bs_size B s"
proof -
  have "unat off + sum_list (map vs_len data) \<le> unat (bs_size B s)"
    using write_outside [of s off data m] assms by (cases "unat (bs_size B s) < unat off + sum_list (map vs_len data)") auto
  moreover have "\<not> bs_read_only B s" using write_read_only [of s off data m] assms by auto
  moreover have "bs_size B s' = bs_size B s"
    using keepsD [OF write_geometry assms] by (simp add: same_geometry_def)
  ultimately show ?thesis by blast
qed

lemma read_Ok_inside:
  assumes "bs_read B off data (s, m) = (Ok (), s', m')"
  shows "unat off + sum_list (map vs_len data) \<le> unat (bs_size B s)"
  using read_outside [of s off data m] assms
  by (cases "unat (bs_size B s) < unat off + sum_list (map vs_len data)") auto

end

lemma box_ops_id [simp]: "box_ops B = B"
  by (simp add: box_ops_def)

lemma on_image_geometry: "keeps (same_geometry (disk_ops I)) (on_image ctx f)"
  by (auto simp: keeps_def on_image_def same_geometry_def disk_ops_def split: prod.splits)

lemma transfer_loop_geometry:
  "keeps (same_geometry (disk_ops I)) (transfer_loop J ctx limit write fuel segs off)"
proof (induction fuel arbitrary: segs off)
  case 0
  then show ?case by (cases segs) (auto intro!: keeps_intros)
next
  case (Suc fuel)
  then show ?case
    by (cases segs) (auto intro!: keeps_intros on_image_geometry split: prod.splits)
qed

lemma transfer_geometry: "keeps (same_geometry (disk_ops I)) (transfer J off data write)"
  unfolding transfer_def
  by (auto simp: Let_def intro!: keeps_intros transfer_loop_geometry split: prod.splits option.splits)

lemma transfer_outside:
  assumes "unat (dsize d) < unat off + sum_list (map vs_len data)"
  shows "\<exists>e. transfer I off data write (d, m) = (Err e, d, m)"
proof (cases "try_sum (map vs_len data) 0")
  case None
  then show ?thesis by (auto simp: transfer_def Let_def prog_defs)
next
  case (Some len)
  have "len = sum_list (map vs_len data)" "len < 2 ^ 64"
    using try_sum_Some [OF Some] try_sum_bound [OF Some] by simp_all
  with assms have "bounds (dsize d) off len \<noteq> Ok ()" by (simp add: bounds_Ok_iff)
  then obtain e where "bounds (dsize d) off len = Err e"
    by (cases "bounds (dsize d) off len") auto
  with Some show ?thesis by (auto simp: transfer_def Let_def prog_defs)
qed

lemma transfer_returns: "fst (transfer I off data write x) \<noteq> Panic"
  by (auto simp: transfer_def Let_def prog_defs transfer_loop_no_panic split: prod.splits option.splits result.splits)

lemma on_caches_geometry: "keeps (same_disk (disk_ops I)) (on_caches ctx f)"
  by (auto simp: keeps_def on_caches_def same_disk_def disk_ops_def split: prod.splits)

lemma disk_flush_geometry: "keeps (same_disk (disk_ops I)) (disk_flush J)"
  unfolding disk_flush_def by (auto intro!: keeps_intros on_caches_geometry)

lemma disk_write_geometry: "keeps (same_geometry (disk_ops I)) (disk_write J off data)"
  unfolding disk_write_def by (auto intro!: keeps_intros transfer_geometry split: prod.splits)

interpretation disk: block_storage "disk_ops I" for I
proof
  show "keeps (same_disk (disk_ops I)) (bs_flush (disk_ops I))"
    using disk_flush_geometry [of I I] by (simp add: disk_ops_def)
  show "fst (bs_flush (disk_ops I) x) \<noteq> Panic" for x
    by (auto simp: disk_ops_def disk_flush_def on_caches_def prog_defs split: prod.splits result.splits)
  show "keeps (same_geometry (disk_ops I)) (bs_write (disk_ops I) off data)" for off data
    using disk_write_geometry [of I I off data] by (simp add: disk_ops_def)
  show "\<exists>e. bs_write (disk_ops I) off data (s, m) = (Err e, s, m)"
    if "unat (bs_size (disk_ops I) s) < unat off + sum_list (map vs_len data)" for s off data m
    using that transfer_outside by (auto simp: disk_ops_def disk_write_def prog_defs)
  show "fst (bs_write (disk_ops I) off data x) \<noteq> Panic" for off data x
    by (cases x) (auto simp: disk_ops_def disk_write_def prog_defs transfer_returns)
qed (auto simp: disk_ops_def [of I] disk_read_def disk_write_def prog_defs transfer_returns
  intro: transfer_geometry [unfolded disk_ops_def] transfer_outside)

text \<open>A boxed disk is a backend as well.\<close>

interpretation boxed: block_storage "box_ops (disk_ops I)" for I
  using disk.block_storage_axioms by simp

section \<open>Opening a disk\<close>

lemma validate_header_Ok:
  "validate_header h = Ok sz \<Longrightarrow> sz = u64at h 24 \<and> 0 < sz \<and> 512 dvd unat sz"
  by (auto simp: validate_header_def Let_def is_multiple_of_unat split: if_splits)

lemma validate_header_not_Panic [simp]: "validate_header h \<noteq> Panic"
  by (simp add: validate_header_def Let_def)

lemma transfer_loop_succeeds:
  assumes "0 < limit" and "\<And>batch off x. fst ((if write then im_writev else im_readv) I batch off x) = Inr ()"
  shows "length segs \<le> fuel \<Longrightarrow> fst (transfer_loop I ctx limit write fuel segs off x) = Ok ()"
proof (induction fuel arbitrary: segs off x)
  case 0
  then show ?case by (simp add: ret_def)
next
  case (Suc fuel)
  show ?case
  proof (cases segs)
    case (Cons y ss)
    obtain batch rest where nb: "next_batch limit write (y # ss) [] = (batch, rest)" by force
    from next_batch_progress [OF this assms(1)] have "length rest < length (y # ss)" by blast
    with Suc.prems Cons have len: "length rest \<le> fuel" by simp
    obtain d m where x: "x = (d, m)" by force
    obtain i' m' where r: "(if write then im_writev else im_readv) I batch off (dimage d, m) = (Inr (), i', m')"
      using assms(2) [of batch off "(dimage d, m)"] by (metis fst_conv prod_cases3)
    show ?thesis
      using r Suc.IH [OF len] unfolding Cons x transfer_loop.simps nb prod.case
      by (cases "write") (simp_all add: bnd_def on_image_def)
  qed (simp add: ret_def)
qed

section \<open>Properties\<close>

text \<open>C9. A write to a disk that succeeds has the effect of one flat write: however the request is
  split into vectored calls, the image afterwards holds the gathered guest bytes at the request's
  offset and is otherwise unchanged, guest memory is not modified, the range lies inside the
  capacity, and the disk is not read-only.\<close>

theorem disk_write_flat:
  assumes "writev_law I content mem" and "disk_write I off segs (d, m) = (Ok (), d', m')"
  shows "content (dimage d') = put_at (unat off) (map (mem m) (all_cells segs)) (content (dimage d)) \<and>
    mem m' = mem m \<and> unat off + length (all_cells segs) \<le> unat (dsize d) \<and> \<not> readonly d"
proof -
  from assms(2) have ro: "\<not> readonly d" and t: "transfer I off segs True (d, m) = (Ok (), d', m')"
    by (auto simp: disk_write_def prog_defs split: if_splits)
  with transfer_write_flat [OF assms(1) t] transfer_Ok [OF t] show ?thesis
    by (simp add: length_all_cells)
qed

text \<open>C10. A read that succeeds has the effect of one flat read, also when segments of the request
  overlap: the image is unchanged and guest memory holds the image's bytes scattered over the
  segments in order. Overlapping segments are never in one vectored call, which is all the image
  library needs to promise.\<close>

theorem disk_read_flat:
  assumes "readv_law I content mem" and "\<forall>s \<in> set segs. vs_ptr s + vs_len s < 2 ^ 64"
    and "disk_read I off segs (d, m) = (Ok (), d', m')"
  shows "mem m' = scatter (all_cells segs)
      (get_at (unat off) (length (all_cells segs)) (content (dimage d))) (mem m) \<and>
    content (dimage d') = content (dimage d) \<and> unat off + length (all_cells segs) \<le> unat (dsize d)"
proof -
  from assms(3) have t: "transfer I off segs False (d, m) = (Ok (), d', m')" by (simp add: disk_read_def)
  with transfer_read_flat [OF assms(1,2) t] transfer_Ok [OF t] show ?thesis
    by (simp add: length_all_cells)
qed



end
