(* ===== verification/Mmio.thy ===== *)
theory Mmio
  imports Crates
begin

text \<open>
  The virtio-mmio transport and the checked split-queue access, \<open>src/src/devices/mmio.rs\<close>:
  the queues of a device (\<open>pinned\<close>, \<open>available\<close>, \<open>pop\<close>, \<open>complete\<close>), and the register file
  \<open>Mmio\<close> with its reads, writes, polling and the containment of guest errors. The trait
  \<open>VirtioDevice\<close> is the record \<open>virtio_device\<close> of operations; its contract is the locale
  \<open>virtio_device\<close>, in which the invariant of the register file is proved for every device.
\<close>

section \<open>Queues\<close>

definition MAX_QUEUE :: u16 where
  "MAX_QUEUE = 128"

definition DRIVER_OK :: u32 where
  "DRIVER_OK = 4"

definition FEATURES_OK :: u32 where
  "FEATURES_OK = 8"

definition NEEDS_RESET :: u32 where
  "NEEDS_RESET = 0x40"

definition VERSION_1 :: u64 where
  "VERSION_1 = push_bit 32 1"

record chain =
  head :: u16
  descriptors :: "descriptor list"

record 'q queues =
  rings :: "'q list"
  negotiated :: u64
  interrupt :: u32

text \<open>The descriptor of a queue's table at an index.\<close>

definition read_descriptor :: "('q, 'm) crates \<Rightarrow> 'q \<Rightarrow> u16 \<Rightarrow> ('m, descriptor, DeviceError) prog" where
  "read_descriptor C q index =
     call_ext DeviceError.GuestAccess (cm_read_descriptor C (cq_desc_table C q + ucast index * 16))"

text \<open>One pending chain of \<open>pinned\<close>: the first argument counts the remaining links.\<close>

fun pinned_chain ::
  "('q, 'm) crates \<Rightarrow> 'q \<Rightarrow> nat \<Rightarrow> u16 \<Rightarrow> (u64 \<times> u64) list \<Rightarrow> ('m, (u64 \<times> u64) list, DeviceError) prog" where
  "pinned_chain C q 0 index pins = throw DeviceError.CyclicPendingDescriptorChain"
| "pinned_chain C q (Suc n) index pins =
     (if index \<ge> cq_size C q then throw (DeviceError.DescriptorIndexOutOfRange index (cq_size C q))
      else
      bnd (read_descriptor C q index) (\<lambda>d.
      bnd get_state (\<lambda>m.
      if \<not> (d_flags d AND NOT 3 = 0 \<and> cm_check_range C m (d_addr d) (unat (d_len d)))
      then throw (DeviceError.InvalidPendingDescriptor (d_addr d) (d_len d) (d_flags d))
      else
        let pins = (if d_len d \<noteq> 0 then pins @ [(d_addr d, ucast (d_len d))] else pins)
        in if \<not> d_has_next d then ret pins
           else pinned_chain C q n (d_next d) pins)))"

text \<open>The pending slots \<open>i, ..., i + k - 1\<close> of one queue. A zero queue size would divide by zero.\<close>

fun pinned_slots ::
  "('q, 'm) crates \<Rightarrow> 'q \<Rightarrow> nat \<Rightarrow> u16 \<Rightarrow> (u64 \<times> u64) list \<Rightarrow> ('m, (u64 \<times> u64) list, DeviceError) prog" where
  "pinned_slots C q 0 i pins = ret pins"
| "pinned_slots C q (Suc k) i pins =
     (if cq_size C q = 0 then panic
      else
      let slot = (cq_next_avail C q + i) mod cq_size C q
      in bnd (read_u16 C DeviceError.GuestAccess (cq_avail_ring C q + 4 + ucast slot * 2)) (\<lambda>index.
         bnd (pinned_chain C q (unat (cq_size C q)) index pins) (\<lambda>pins.
         pinned_slots C q k (i + 1) pins)))"

definition pinned_queue ::
  "('q, 'm) crates \<Rightarrow> 'q \<Rightarrow> (u64 \<times> u64) list \<Rightarrow> ('m, (u64 \<times> u64) list, DeviceError) prog" where
  "pinned_queue C q pins =
     bnd get_state (\<lambda>m.
     if \<not> cq_is_valid C q m then throw DeviceError.InvalidLiveQueue
     else
       let pins = pins @ [(cq_desc_table C q, ucast (cq_size C q) * 16),
                          (cq_avail_ring C q, 6 + ucast (cq_size C q) * 2),
                          (cq_used_ring C q, 6 + ucast (cq_size C q) * 8)]
       in bnd (call_ext DeviceError.Queue (cq_avail_idx C q)) (\<lambda>idx.
          let available = idx - cq_next_avail C q
          in if available > cq_size C q
             then throw (DeviceError.AvailableRingOverrun available (cq_size C q))
             else pinned_slots C q (unat available) 0 pins))"

fun pinned_queues ::
  "('q, 'm) crates \<Rightarrow> 'q list \<Rightarrow> (u64 \<times> u64) list \<Rightarrow> ('m, (u64 \<times> u64) list, DeviceError) prog" where
  "pinned_queues C [] pins = ret pins"
| "pinned_queues C (q # qs) pins = bnd (pinned_queue C q pins) (\<lambda>pins. pinned_queues C qs pins)"

definition pinned ::
  "('q, 'm) crates \<Rightarrow> 'q queues \<Rightarrow> ('m, (u64 \<times> u64) list, DeviceError) prog" where
  "pinned C qs = pinned_queues C (filter (cq_ready C) (rings qs)) []"

definition available ::
  "('q, 'm) crates \<Rightarrow> usize \<Rightarrow> ('q queues \<times> 'm, u16, DeviceError) prog" where
  "available C index =
     bnd get_state (\<lambda>(qs, m).
     if length (rings qs) \<le> index then panic
     else let q = rings qs ! index in
     if \<not> cq_ready C q then ret 0
     else if \<not> cq_is_valid C q m then throw DeviceError.InvalidVirtqueue
     else bnd (zoom_snd (call_ext DeviceError.Queue (cq_avail_idx C q))) (\<lambda>idx.
       let count = idx - cq_next_avail C q
       in if count > cq_size C q then throw (DeviceError.AvailableRingOverrun count (cq_size C q))
          else ret count))"

definition on_ring ::
  "usize \<Rightarrow> ('q \<times> 'm \<Rightarrow> (ext_error + 'a) \<times> 'q \<times> 'm) \<Rightarrow> ('q queues \<times> 'm, 'a, DeviceError) prog" where
  "on_ring index f = (\<lambda>(qs, m).
     if length (rings qs) \<le> index then (Panic, qs, m)
     else case f (rings qs ! index, m) of
       (r, q, m') \<Rightarrow> (of_sum DeviceError.Queue r, qs\<lparr>rings := (rings qs)[index := q]\<rparr>, m'))"

fun pop_walk ::
  "('q, 'm) crates \<Rightarrow> 'q \<Rightarrow> nat \<Rightarrow> u16 \<Rightarrow> u16 \<Rightarrow> descriptor list \<Rightarrow> ('m, chain option, DeviceError) prog" where
  "pop_walk C q 0 first index descs = throw DeviceError.CyclicDescriptorChain"
| "pop_walk C q (Suc n) first index descs =
     (if index \<ge> cq_size C q then throw (DeviceError.DescriptorIndexOutOfRange index (cq_size C q))
      else
      bnd (read_descriptor C q index) (\<lambda>d.
      if d_indirect d then throw DeviceError.UnnegotiatedIndirectDescriptor
      else
      bnd get_state (\<lambda>m.
      if \<not> (d_flags d AND NOT 3 = 0 \<and> cm_check_range C m (d_addr d) (unat (d_len d)))
      then throw (DeviceError.InvalidDescriptorFlagsRange (d_addr d) (d_len d) (d_flags d))
      else if \<not> d_has_next d then ret (Some \<lparr>head = first, descriptors = descs @ [d]\<rparr>)
      else pop_walk C q n first (d_next d) (descs @ [d]))))"

definition pop ::
  "('q, 'm) crates \<Rightarrow> usize \<Rightarrow> ('q queues \<times> 'm, chain option, DeviceError) prog" where
  "pop C index =
     bnd (available C index) (\<lambda>count.
     if count = 0 then ret None
     else
     bnd (on_ring index (cq_iter_next C)) (\<lambda>next.
     case next of
       None \<Rightarrow> throw DeviceError.InvalidAvailableDescriptor
     | Some first \<Rightarrow>
         bnd get_state (\<lambda>(qs, m).
         let q = rings qs ! index
         in zoom_snd (pop_walk C q (unat (cq_size C q)) first first []))))"

definition complete ::
  "('q, 'm) crates \<Rightarrow> usize \<Rightarrow> u16 \<Rightarrow> u32 \<Rightarrow> ('q queues \<times> 'm, unit, DeviceError) prog" where
  "complete C index first len =
     bnd (on_ring index (cq_add_used C first len)) (\<lambda>_.
     modify (\<lambda>(qs, m). (qs\<lparr>interrupt := interrupt qs OR 1\<rparr>, m)))"

section \<open>The transport\<close>

text \<open>The trait \<open>VirtioDevice\<close>.\<close>

record ('d, 'q, 'm) virtio_ops =
  vd_required_features :: "'d \<Rightarrow> u64"
  vd_generation :: "'d \<Rightarrow> u32"
  vd_device_id :: "'d \<Rightarrow> u32"
  vd_features :: "'d \<Rightarrow> u64"
  vd_queue_count :: "'d \<Rightarrow> usize"
  vd_read_config :: "'d \<Rightarrow> usize \<Rightarrow> usize \<Rightarrow> bytes"
  vd_notify :: "usize \<Rightarrow> ('d \<times> 'q queues \<times> 'm, unit, DeviceError) prog"
  vd_poll :: "('d \<times> 'q queues \<times> 'm, unit, DeviceError) prog"
  vd_reset :: "('d, unit, DeviceError) prog"
  vd_flush :: "('d, unit, DeviceError) prog"

record ('d, 'q) mmio =
  device :: 'd
  queues :: "'q queues"
  feature_sel :: u32
  driver_sel :: u32
  queue_sel :: u32
  features :: u64
  mstatus :: u32
  strict :: bool
  rejected :: u64

definition mmio_new ::
  "('q, 'm) crates \<Rightarrow> ('d, 'q, 'm) virtio_ops \<Rightarrow> 'd \<Rightarrow> (('d, 'q) mmio, DeviceError) result" where
  "mmio_new C V d =
     (if cq_new C MAX_QUEUE = None \<and> 0 < vd_queue_count V d then Panic
      else
        let rs = (case cq_new C MAX_QUEUE of None \<Rightarrow> [] | Some q \<Rightarrow> replicate (vd_queue_count V d) q)
        in Ok \<lparr>device = d, queues = \<lparr>rings = rs, negotiated = 0, interrupt = 0\<rparr>,
                feature_sel = 0, driver_sel = 0, queue_sel = 0,
                features = vd_features V d OR VERSION_1, mstatus = 0, strict = True, rejected = 0\<rparr>)"

definition with_strict :: "bool \<Rightarrow> ('d, 'q) mmio \<Rightarrow> ('d, 'q) mmio" where
  "with_strict b t = t\<lparr>strict := b\<rparr>"

definition needs_reset :: "('d, 'q) mmio \<Rightarrow> bool" where
  "needs_reset t = (mstatus t AND NEEDS_RESET \<noteq> 0)"

definition config_changed :: "('d, 'q) mmio \<Rightarrow> ('d, 'q) mmio" where
  "config_changed t = t\<lparr>queues := (queues t)\<lparr>interrupt := interrupt (queues t) OR 2\<rparr>\<rparr>"

definition interrupt_pending :: "('d, 'q) mmio \<Rightarrow> bool" where
  "interrupt_pending t = (interrupt (queues t) \<noteq> 0)"

fun contain :: "('a, DeviceError) result \<Rightarrow> (('d, 'q) mmio, 'a option, DeviceError) prog" where
  "contain (Ok v) t = (Ok (Some v), t)"
| "contain (Err e) t =
     (if \<not> strict t \<and> is_guest e then
        (let t = t\<lparr>mstatus := mstatus t OR NEEDS_RESET\<rparr>;
             t = (if mstatus t AND DRIVER_OK \<noteq> 0 then config_changed t else t)
         in (Ok None, t))
      else (Err e, t))"
| "contain Panic t = (Panic, t)"

definition mmio_flush :: "('d, 'q, 'm) virtio_ops \<Rightarrow> (('d, 'q) mmio, unit, DeviceError) prog" where
  "mmio_flush V t = (case vd_flush V (device t) of (r, d) \<Rightarrow> (r, t\<lparr>device := d\<rparr>))"

definition active :: "('d, 'q) mmio \<Rightarrow> bool" where
  "active t = (mstatus t AND 0xcf = 0xf)"

text \<open>A device operation on the transport's queues, its result passed through \<open>contain\<close>.\<close>

definition run_contained ::
  "('d \<times> 'q queues \<times> 'm, unit, DeviceError) prog \<Rightarrow> (('d, 'q) mmio \<times> 'm, unit, DeviceError) prog" where
  "run_contained f = (\<lambda>(t, m). case f (device t, queues t, m) of
     (r, d, qs, m') \<Rightarrow>
       (case contain r (t\<lparr>device := d, queues := qs\<rparr>) of
          (Ok _, t') \<Rightarrow> (Ok (), t', m')
        | (Err e, t') \<Rightarrow> (Err e, t', m')
        | (Panic, t') \<Rightarrow> (Panic, t', m')))"

definition mmio_poll :: "('d, 'q, 'm) virtio_ops \<Rightarrow> (('d, 'q) mmio \<times> 'm, unit, DeviceError) prog" where
  "mmio_poll V = (\<lambda>(t, m). if active t then run_contained (vd_poll V) (t, m) else (Ok (), t, m))"

definition mmio_read ::
  "('q, 'm) crates \<Rightarrow> ('d, 'q, 'm) virtio_ops \<Rightarrow> ('d, 'q) mmio \<Rightarrow> u64 \<Rightarrow> usize \<Rightarrow> u64 option" where
  "mmio_read C V t offset width =
     (if width \<notin> {1, 2, 4, 8} then None
      else if 0x100 \<le> offset \<and> offset < 0x1000 then
        (if offset + word_of_nat width > 0x1000 then None
         else Some (word_of_nat (le_nat (vd_read_config V (device t) (unat (offset - 0x100)) width))))
      else if width \<noteq> 4 then None
      else Some (
        if offset = 0 then 0x74726976
        else if offset = 4 then 2
        else if offset = 8 then ucast (vd_device_id V (device t))
        else if offset = 12 then 0x57564d4d
        else if offset = 0x10 \<and> feature_sel t < 2 then
          drop_bit (unat (feature_sel t) * 32) (features t) AND 0xffffffff
        else if offset = 0x34 \<and> unat (queue_sel t) < length (rings (queues t)) then ucast MAX_QUEUE
        else if offset = 0x44 then
          (if unat (queue_sel t) < length (rings (queues t)) \<and>
              cq_ready C (rings (queues t) ! unat (queue_sel t)) then 1 else 0)
        else if offset = 0x60 then ucast (interrupt (queues t))
        else if offset = 0x70 then ucast (mstatus t)
        else if offset = 0xfc then ucast (vd_generation V (device t))
        else 0))"

text \<open>The feature subset a driver may confirm with \<open>FEATURES_OK\<close>.\<close>

definition acceptable :: "('d, 'q, 'm) virtio_ops \<Rightarrow> ('d, 'q) mmio \<Rightarrow> bool" where
  "acceptable V t \<longleftrightarrow>
     \<not> (negotiated (queues t) AND NOT (features t) \<noteq> 0 \<or>
        negotiated (queues t) AND VERSION_1 = 0 \<or>
        negotiated (queues t) AND vd_required_features V (device t) \<noteq> vd_required_features V (device t))"

text \<open>Leaving \<open>FEATURES_OK\<close> clear rejects the negotiated subset.\<close>

definition accepted_status :: "('d, 'q, 'm) virtio_ops \<Rightarrow> ('d, 'q) mmio \<Rightarrow> u32 \<Rightarrow> u32" where
  "accepted_status V t value =
     (if value AND FEATURES_OK \<noteq> 0 \<and> \<not> acceptable V t then value AND NOT FEATURES_OK else value)"

definition configure_status ::
  "('q, 'm) crates \<Rightarrow> ('d, 'q, 'm) virtio_ops \<Rightarrow> u32 \<Rightarrow> 'm \<Rightarrow> (('d, 'q) mmio, unit, DeviceError) prog" where
  "configure_status C V value m t =
     (if value = 0 then
        (case vd_reset V (device t) of
           (Err e, d) \<Rightarrow> (Err e, t\<lparr>device := d\<rparr>)
         | (Panic, d) \<Rightarrow> (Panic, t\<lparr>device := d\<rparr>)
         | (Ok _, d) \<Rightarrow>
             (Ok (), t\<lparr>device := d,
                queues := \<lparr>rings = map (cq_reset C) (rings (queues t)), negotiated = 0, interrupt = 0\<rparr>,
                feature_sel := 0, driver_sel := 0, queue_sel := 0, mstatus := 0\<rparr>))
      else if value AND mstatus t \<noteq> mstatus t then (Err DeviceError.StatusBitsCleared, t)
      else
        let status = accepted_status V t value
        in if status AND DRIVER_OK \<noteq> 0 \<and> mstatus t AND DRIVER_OK = 0 \<and>
              \<not> (status AND 0xb = 0xb \<and> list_all (\<lambda>q. cq_is_valid C q m) (rings (queues t)))
           then (Err DeviceError.DriverNotReady, t)
           else (Ok (), t\<lparr>mstatus := status\<rparr>))"

definition set_ring :: "usize \<Rightarrow> 'q \<Rightarrow> ('d, 'q) mmio \<Rightarrow> ('d, 'q) mmio" where
  "set_ring i q t = t\<lparr>queues := (queues t)\<lparr>rings := (rings (queues t))[i := q]\<rparr>\<rparr>"

definition configure_queue ::
  "('q, 'm) crates \<Rightarrow> u64 \<Rightarrow> u32 \<Rightarrow> 'm \<Rightarrow> (('d, 'q) mmio, unit, DeviceError) prog" where
  "configure_queue C offset value m t =
     (let i = unat (queue_sel t) in
      if length (rings (queues t)) \<le> i then (Ok (), t)
      else
        let q = rings (queues t) ! i;
            disable = (offset = 0x44 \<and> value = 0)
        in if mstatus t AND DRIVER_OK \<noteq> 0 \<and> \<not> disable
           then (Err DeviceError.QueueConfigurationAfterDriverOk, t)
           else if cq_ready C q \<and> \<not> disable then (Err DeviceError.QueueConfigurationWhileReady, t)
           else if offset = 0x38 then
             (if value > ucast MAX_QUEUE then (Err (DeviceError.QueueTooLarge value MAX_QUEUE), t)
              else case cq_try_set_size C (ucast value) q of
                (r, q') \<Rightarrow> (of_sum DeviceError.Queue r, set_ring i q' t))
           else if offset = 0x44 then
             (if value > 1 then (Err (DeviceError.InvalidQueueReady value), t)
              else let q' = cq_set_ready C (value = 1) q
                   in if value = 1 \<and> \<not> cq_is_valid C q' m
                      then (Err DeviceError.InvalidQueueMemory, set_ring i (cq_set_ready C False q') t)
                      else (Ok (), set_ring i q' t))
           else if offset = 0x80 then (Ok (), set_ring i (cq_set_desc_table C (Some value) None q) t)
           else if offset = 0x84 then (Ok (), set_ring i (cq_set_desc_table C None (Some value) q) t)
           else if offset = 0x90 then (Ok (), set_ring i (cq_set_avail_ring C (Some value) None q) t)
           else if offset = 0x94 then (Ok (), set_ring i (cq_set_avail_ring C None (Some value) q) t)
           else if offset = 0xa0 then (Ok (), set_ring i (cq_set_used_ring C (Some value) None q) t)
           else if offset = 0xa4 then (Ok (), set_ring i (cq_set_used_ring C None (Some value) q) t)
           else (Panic, t))"

definition queue_registers :: "u64 set" where
  "queue_registers = {0x38, 0x44, 0x80, 0x84, 0x90, 0x94, 0xa0, 0xa4}"

definition configure ::
  "('q, 'm) crates \<Rightarrow> ('d, 'q, 'm) virtio_ops \<Rightarrow> u64 \<Rightarrow> u32 \<Rightarrow> 'm \<Rightarrow> (('d, 'q) mmio, unit, DeviceError) prog" where
  "configure C V offset value m t =
     (if offset = 0x14 then (Ok (), t\<lparr>feature_sel := value\<rparr>)
      else if offset = 0x24 then (Ok (), t\<lparr>driver_sel := value\<rparr>)
      else if offset = 0x30 then (Ok (), t\<lparr>queue_sel := value\<rparr>)
      else if offset = 0x20 \<and> mstatus t AND FEATURES_OK = 0 \<and> driver_sel t < 2 then
        (let shift = unat (driver_sel t) * 32
         in (Ok (), t\<lparr>queues := (queues t)\<lparr>negotiated :=
               (negotiated (queues t) AND NOT (push_bit shift 0xffffffff)) OR push_bit shift (ucast value)\<rparr>\<rparr>))
      else if offset = 0x70 then configure_status C V value m t
      else if offset = 0x64 then
        (Ok (), t\<lparr>queues := (queues t)\<lparr>interrupt := interrupt (queues t) AND NOT value\<rparr>\<rparr>)
      else if offset \<in> queue_registers then configure_queue C offset value m t
      else (Ok (), t))"

definition mmio_write ::
  "('q, 'm) crates \<Rightarrow> ('d, 'q, 'm) virtio_ops \<Rightarrow> u64 \<Rightarrow> u32 \<Rightarrow>
    (('d, 'q) mmio \<times> 'm, unit, DeviceError) prog" where
  "mmio_write C V offset value = (\<lambda>(t, m).
     if offset = 0x50 then
       (if active t \<and> unat value < length (rings (queues t)) \<and> cq_ready C (rings (queues t) ! unat value)
        then run_contained (vd_notify V (unat value)) (t, m)
        else (Ok (), t, m))
     else case configure C V offset value m t of
       (Err e, t') \<Rightarrow>
         if \<not> strict t' \<and> is_guest e then (Ok (), t'\<lparr>rejected := rejected t' + 1\<rparr>, m)
         else (Err e, t', m)
     | (Ok x, t') \<Rightarrow> (Ok x, t', m)
     | (Panic, t') \<Rightarrow> (Panic, t', m))"

text \<open>\<open>read_config\<close>: the bytes of a read-only configuration, zero beyond its end.\<close>

definition read_config :: "bytes \<Rightarrow> usize \<Rightarrow> usize \<Rightarrow> bytes" where
  "read_config config offset len =
     map (\<lambda>i. if offset + i < length config then config ! (offset + i) else 0) [0 ..< len]"

section \<open>Queue operations\<close>

text \<open>What every queue operation keeps: the number of rings, the negotiated features, and the
  interrupt bits already raised.\<close>

definition queues_frame :: "'q queues \<Rightarrow> 'q queues \<Rightarrow> bool" where
  "queues_frame qs qs' \<longleftrightarrow> length (rings qs') = length (rings qs) \<and>
     negotiated qs' = negotiated qs \<and> interrupt qs AND interrupt qs' = interrupt qs"

abbreviation queue_frame :: "'q queues \<times> 'm \<Rightarrow> 'q queues \<times> 'm \<Rightarrow> bool" where
  "queue_frame \<equiv> (\<lambda>x y. queues_frame (fst x) (fst y))"

lemma queues_frame_refl [simp]: "queues_frame qs qs"
  by (simp add: queues_frame_def)

lemma queues_frame_trans: "queues_frame a b \<Longrightarrow> queues_frame b c \<Longrightarrow> queues_frame a c"
  by (simp add: queues_frame_def) (metis and.assoc)

lemma queue_frame_reflp [simp]: "reflp queue_frame"
  by (simp add: reflp_def)

lemma queue_frame_transp [simp]: "transp queue_frame"
  by (auto simp: transp_def intro: queues_frame_trans)

lemma keeps_all [keeps_intros]: "keeps (\<lambda>_ _. True) f"
  by (simp add: keeps_def)

lemma keeps_zoom_queues [keeps_intros]: "keeps queue_frame (zoom_snd f)"
  by (auto simp: keeps_def zoom_snd_def split: prod.splits)

lemma keeps_on_ring [keeps_intros]: "keeps queue_frame (on_ring i f)"
  by (auto simp: keeps_def on_ring_def queues_frame_def split: prod.splits)

lemma available_frame [keeps_intros]: "keeps queue_frame (available C i)"
  unfolding available_def Let_def by (auto intro!: keeps_intros split: prod.splits)

lemma pop_frame [keeps_intros]: "keeps queue_frame (pop C i)"
  unfolding pop_def Let_def by (auto intro!: keeps_intros split: prod.splits)

lemma complete_frame [keeps_intros]: "keeps queue_frame (complete C i h n)"
  unfolding complete_def
  by (intro keeps_intros queue_frame_transp)
    (auto simp: queues_frame_def bit.conj_disj_distrib split: prod.splits intro!: bit_eqI simp: bit_simps)

subsection \<open>Walking a chain\<close>

text \<open>A descriptor that passed the checks of \<open>pop\<close>.\<close>

definition checked_descriptor :: "('q, 'm) crates \<Rightarrow> 'm \<Rightarrow> descriptor \<Rightarrow> bool" where
  "checked_descriptor C m d \<longleftrightarrow> \<not> d_indirect d \<and> d_flags d AND NOT 3 = 0 \<and>
     cm_check_range C m (d_addr d) (unat (d_len d))"

text \<open>Reading guest memory does not change which ranges are mapped.\<close>

definition ranges_law :: "('q, 'm) crates \<Rightarrow> bool" where
  "ranges_law C \<longleftrightarrow>
     (\<forall>a m. cm_check_range C (snd (cm_read_descriptor C a m)) = cm_check_range C m) \<and>
     (\<forall>a n m. cm_check_range C (snd (cm_read_slice C a n m)) = cm_check_range C m) \<and>
     (\<forall>q m. cm_check_range C (snd (cq_avail_idx C q m)) = cm_check_range C m)"

lemma pop_walk_spec:
  assumes "ranges_law C"
  shows "pop_walk C q n f i ds m = (Ok r, m') \<Longrightarrow> \<forall>d \<in> set ds. checked_descriptor C m d \<Longrightarrow>
    \<exists>ch. r = Some ch \<and> head ch = f \<and> descriptors ch \<noteq> [] \<and> length (descriptors ch) \<le> length ds + n \<and>
      (\<forall>d \<in> set (descriptors ch). checked_descriptor C m' d)"
proof (induction n arbitrary: i ds m)
  case 0
  then show ?case by (simp add: throw_def)
next
  case (Suc n)
  obtain rd m1 where rd: "cm_read_descriptor C (cq_desc_table C q + ucast i * 16) m = (rd, m1)"
    by fastforce
  with assms have m1: "cm_check_range C m1 = cm_check_range C m"
    by (metis ranges_law_def snd_conv)
  from Suc.prems(1) rd obtain d where d: "rd = Inr d" and size: "\<not> cq_size C q \<le> i"
    and chk: "checked_descriptor C m1 d"
    by (cases rd) (auto simp: read_descriptor_def checked_descriptor_def prog_defs split: if_splits)
  have ds: "\<forall>x \<in> set (ds @ [d]). checked_descriptor C m1 x"
    using Suc.prems(2) chk m1 by (auto simp: checked_descriptor_def)
  show ?case
  proof (cases "d_has_next d")
    case False
    with Suc.prems(1) rd d size chk ds show ?thesis
      by (auto simp: read_descriptor_def checked_descriptor_def prog_defs)
  next
    case True
    with Suc.prems(1) rd d size chk have "pop_walk C q n f (d_next d) (ds @ [d]) m1 = (Ok r, m')"
      by (simp add: read_descriptor_def checked_descriptor_def prog_defs)
    from Suc.IH [OF this ds] show ?thesis by auto
  qed
qed

lemma pop_walk_no_panic: "fst (pop_walk C q n f i ds m) \<noteq> Panic"
proof (induction n arbitrary: i ds m)
  case (Suc n)
  then show ?case
    by (auto simp: read_descriptor_def prog_defs split: prod.splits result.splits)
qed (simp add: throw_def)

lemma pop_walk_not_Panic [simp]: "pop_walk C q n f i ds m \<noteq> (Panic, m')"
  by (metis fst_conv pop_walk_no_panic)

lemma available_no_panic: "i < length (rings qs) \<Longrightarrow> fst (available C i (qs, m)) \<noteq> Panic"
  by (auto simp: available_def Let_def prog_defs split: prod.splits result.splits)

lemma available_Ok:
  "available C i (qs, m) = (Ok n, qs', m') \<Longrightarrow> qs' = qs \<and> i < length (rings qs) \<and>
    (n \<noteq> 0 \<longrightarrow> cq_ready C (rings qs ! i) \<and> n \<le> cq_size C (rings qs ! i))"
  by (auto simp: available_def Let_def prog_defs not_less not_le
      split: prod.splits result.splits if_splits elim: of_sum.elims)

lemma pop_no_panic:
  assumes "i < length (rings qs)"
  shows "fst (pop C i (qs, m)) \<noteq> Panic"
proof -
  obtain r qs1 m1 where a: "available C i (qs, m) = (r, qs1, m1)" by (metis prod_cases3)
  show ?thesis
  proof (cases r)
    case (Ok n)
    with available_Ok [of C i qs m n] a have "qs1 = qs" by simp
    with a Ok assms show ?thesis
      by (auto simp: pop_def on_ring_def Let_def prog_defs split: prod.splits result.splits option.splits)
  next
    case (Err e)
    with a show ?thesis by (simp add: pop_def bnd_def)
  next
    case Panic
    with a available_no_panic [OF assms, of C m] show ?thesis by simp
  qed
qed

lemma complete_no_panic: "i < length (rings qs) \<Longrightarrow> fst (complete C i h n (qs, m)) \<noteq> Panic"
  by (auto simp: complete_def on_ring_def prog_defs split: prod.splits result.splits)

subsection \<open>Pinned ranges\<close>

text \<open>The descriptors a chain of a queue's table visits from an index.\<close>

inductive on_chain :: "('q, 'm) crates \<Rightarrow> 'q \<Rightarrow> 'm \<Rightarrow> u16 \<Rightarrow> descriptor \<Rightarrow> bool" for C q m where
  here: "cm_read_descriptor C (cq_desc_table C q + ucast i * 16) m = (Inr d, m') \<Longrightarrow> on_chain C q m i d"
| link: "cm_read_descriptor C (cq_desc_table C q + ucast i * 16) m = (Inr d, m') \<Longrightarrow> d_has_next d \<Longrightarrow>
    on_chain C q m (d_next d) e \<Longrightarrow> on_chain C q m i e"

text \<open>Guest memory that nothing else writes: reading leaves it as it is.\<close>

definition quiet_law :: "('q, 'm) crates \<Rightarrow> bool" where
  "quiet_law C \<longleftrightarrow> (\<forall>a m. snd (cm_read_descriptor C a m) = m) \<and>
     (\<forall>a n m. snd (cm_read_slice C a n m) = m) \<and> (\<forall>q m. snd (cq_avail_idx C q m) = m)"

lemma quiet_law_D:
  assumes "quiet_law C"
  shows "cm_read_descriptor C a m = (r, m') \<Longrightarrow> m' = m"
    and "cm_read_slice C a n m = (r', m') \<Longrightarrow> m' = m"
    and "cq_avail_idx C q m = (r'', m') \<Longrightarrow> m' = m"
  using assms by (metis quiet_law_def snd_conv)+

lemma pinned_chain_covers:
  assumes "quiet_law C"
  shows "pinned_chain C q n i pins m = (Ok pins', m') \<Longrightarrow> m' = m \<and> set pins \<subseteq> set pins' \<and>
    (\<forall>d. on_chain C q m i d \<longrightarrow> d_len d \<noteq> 0 \<longrightarrow> (d_addr d, ucast (d_len d)) \<in> set pins')"
proof (induction n arbitrary: i pins)
  case 0
  then show ?case by (simp add: throw_def)
next
  case (Suc n)
  obtain rd m1 where rd: "cm_read_descriptor C (cq_desc_table C q + ucast i * 16) m = (rd, m1)"
    by fastforce
  with assms have m1: "m1 = m" by (rule quiet_law_D)
  from Suc.prems(1) rd obtain d where d: "rd = Inr d"
    by (cases rd) (auto simp: read_descriptor_def prog_defs split: if_splits)
  define pins1 where "pins1 = (if d_len d \<noteq> 0 then pins @ [(d_addr d, ucast (d_len d))] else pins)"
  have step: "if d_has_next d then pinned_chain C q n (d_next d) pins1 m = (Ok pins', m')
      else pins' = pins1 \<and> m' = m"
    using Suc.prems(1) rd d m1
    by (auto simp: read_descriptor_def prog_defs Let_def pins1_def split: if_splits)
  have cases: "e = d \<or> (d_has_next d \<and> on_chain C q m (d_next d) e)" if "on_chain C q m i e" for e
    using that rd d by cases auto
  have sub: "set pins \<subseteq> set pins1" "d_len d \<noteq> 0 \<longrightarrow> (d_addr d, ucast (d_len d)) \<in> set pins1"
    by (auto simp: pins1_def)
  show ?case
  proof (cases "d_has_next d")
    case True
    with step Suc.IH [of "d_next d" pins1] sub cases show ?thesis by auto
  next
    case False
    with step sub cases show ?thesis by auto
  qed
qed

lemma pinned_chain_no_panic: "fst (pinned_chain C q n i pins m) \<noteq> Panic"
proof (induction n arbitrary: i pins m)
  case (Suc n)
  then show ?case
    by (auto simp: read_descriptor_def prog_defs Let_def split: prod.splits result.splits)
qed (simp add: throw_def)

text \<open>The head of the chain in a slot of the available ring.\<close>

definition slot_head :: "('q, 'm) crates \<Rightarrow> 'q \<Rightarrow> 'm \<Rightarrow> u16 \<Rightarrow> u16 option" where
  "slot_head C q m i =
     (case fst (cm_read_slice C (cq_avail_ring C q + 4 + ucast ((cq_next_avail C q + i) mod cq_size C q) * 2) 2 m) of
        Inl e \<Rightarrow> None | Inr bs \<Rightarrow> Some (word_of_nat (le_nat bs)))"

lemma pinned_slots_covers:
  assumes "quiet_law C"
  shows "pinned_slots C q k i pins m = (Ok pins', m') \<Longrightarrow> m' = m \<and> set pins \<subseteq> set pins' \<and>
    (\<forall>j < k. \<forall>h d. slot_head C q m (i + word_of_nat j) = Some h \<longrightarrow> on_chain C q m h d \<longrightarrow>
      d_len d \<noteq> 0 \<longrightarrow> (d_addr d, ucast (d_len d)) \<in> set pins')"
proof (induction k arbitrary: i pins)
  case 0
  then show ?case by (simp add: ret_def)
next
  case (Suc k)
  let ?a = "cq_avail_ring C q + 4 + ucast ((cq_next_avail C q + i) mod cq_size C q) * 2"
  obtain rd m1 where rd: "cm_read_slice C ?a 2 m = (rd, m1)" by fastforce
  with assms have m1: "m1 = m" by (rule quiet_law_D)
  from Suc.prems rd obtain bs where bs: "rd = Inr bs"
    by (cases rd) (auto simp: read_u16_def prog_defs Let_def split: if_splits)
  obtain r m2 where chain: "pinned_chain C q (unat (cq_size C q)) (word_of_nat (le_nat bs)) pins m = (r, m2)"
    by fastforce
  with Suc.prems rd bs m1 obtain p where r: "r = Ok p"
    by (cases r) (auto simp: read_u16_def prog_defs Let_def split: if_splits)
  note cov = pinned_chain_covers [OF assms chain [unfolded r]]
  have rest: "pinned_slots C q k (i + 1) p m = (Ok pins', m')"
    using Suc.prems rd bs m1 chain r cov
    by (auto simp: read_u16_def prog_defs Let_def split: if_splits)
  note IH = Suc.IH [OF rest]
  have hd: "slot_head C q m i = Some (word_of_nat (le_nat bs))"
    using rd bs by (simp add: slot_head_def)
  have "(d_addr d, ucast (d_len d)) \<in> set pins'"
    if "j < Suc k" and "slot_head C q m (i + word_of_nat j) = Some h" and "on_chain C q m h d" and "d_len d \<noteq> 0"
    for j h d
  proof (cases j)
    case 0
    with that hd cov IH show ?thesis by auto
  next
    case (Suc j')
    then have "i + word_of_nat j = i + 1 + word_of_nat j'" by simp
    with that Suc IH show ?thesis by (metis Suc_less_SucD)
  qed
  with cov IH show ?case by blast
qed

lemma pinned_slots_no_panic:
  "cq_size C q \<noteq> 0 \<Longrightarrow> fst (pinned_slots C q k i pins m) \<noteq> Panic"
proof (induction k arbitrary: i pins m)
  case (Suc k)
  then show ?case
    by (auto simp: read_u16_def prog_defs Let_def pinned_chain_no_panic split: prod.splits result.splits)
      (metis fst_conv pinned_chain_no_panic)
qed (simp add: ret_def)

lemma pinned_queue_no_panic: "fst (pinned_queue C q pins m) \<noteq> Panic"
proof -
  have "fst (pinned_slots C q (unat a) 0 ps m1) \<noteq> Panic" if "\<not> cq_size C q < a" for a ps m1
  proof (cases "cq_size C q = 0")
    case True
    with that have "a = 0" by (simp add: word_gt_0)
    then show ?thesis by (simp add: ret_def)
  qed (rule pinned_slots_no_panic)
  then show ?thesis
    by (auto simp: pinned_queue_def prog_defs Let_def split: prod.splits result.splits elim: of_sum.elims)
qed

lemma pinned_queues_no_panic: "fst (pinned_queues C qs pins m) \<noteq> Panic"
proof (induction qs arbitrary: pins m)
  case (Cons q qs)
  have "fst (pinned_queue C q pins m) \<noteq> Panic" by (rule pinned_queue_no_panic)
  with Cons show ?case by (auto simp: bnd_def split: prod.splits result.splits)
qed (simp add: ret_def)

lemma pinned_no_panic: "fst (pinned C qs m) \<noteq> Panic"
  by (simp add: pinned_def pinned_queues_no_panic)

text \<open>The ranges the device may still touch for a queue: its three areas and the buffers of
  every pending chain.\<close>

definition queue_uses :: "('q, 'm) crates \<Rightarrow> 'q \<Rightarrow> 'm \<Rightarrow> (u64 \<times> u64) set" where
  "queue_uses C q m =
     {(cq_desc_table C q, ucast (cq_size C q) * 16), (cq_avail_ring C q, 6 + ucast (cq_size C q) * 2),
      (cq_used_ring C q, 6 + ucast (cq_size C q) * 8)} \<union>
     {(d_addr d, ucast (d_len d)) | d. d_len d \<noteq> 0 \<and>
       (\<exists>idx j h. fst (cq_avail_idx C q m) = Inr idx \<and> j < unat (idx - cq_next_avail C q) \<and>
         slot_head C q m (word_of_nat j) = Some h \<and> on_chain C q m h d)}"

lemma pinned_queue_covers:
  assumes "quiet_law C" and "pinned_queue C q pins m = (Ok pins', m')"
  shows "m' = m \<and> set pins \<union> queue_uses C q m \<subseteq> set pins'"
proof -
  obtain rd m1 where rd: "cq_avail_idx C q m = (rd, m1)" by fastforce
  with assms(1) have m1: "m1 = m" by (rule quiet_law_D)
  from assms(2) rd obtain idx where idx: "rd = Inr idx"
    by (cases rd) (auto simp: pinned_queue_def prog_defs Let_def split: if_splits)
  have "pinned_slots C q (unat (idx - cq_next_avail C q)) 0
      (pins @ [(cq_desc_table C q, ucast (cq_size C q) * 16), (cq_avail_ring C q, 6 + ucast (cq_size C q) * 2),
        (cq_used_ring C q, 6 + ucast (cq_size C q) * 8)]) m = (Ok pins', m')"
    using assms(2) rd idx m1 by (auto simp: pinned_queue_def prog_defs Let_def split: if_splits)
  from pinned_slots_covers [OF assms(1) this] show ?thesis
    using rd idx by (auto simp: queue_uses_def)
qed

lemma pinned_queues_covers:
  assumes "quiet_law C"
  shows "pinned_queues C qs pins m = (Ok pins', m') \<Longrightarrow>
    m' = m \<and> set pins \<subseteq> set pins' \<and> (\<forall>q \<in> set qs. queue_uses C q m \<subseteq> set pins')"
proof (induction qs arbitrary: pins)
  case Nil
  then show ?case by (simp add: ret_def)
next
  case (Cons q qs)
  obtain r m1 where q: "pinned_queue C q pins m = (r, m1)" by fastforce
  with Cons.prems obtain p where r: "r = Ok p" by (cases r) (auto simp: bnd_def)
  note cov = pinned_queue_covers [OF assms q [unfolded r]]
  with Cons.prems q r have "pinned_queues C qs p m = (Ok pins', m')" by (simp add: bnd_def)
  from Cons.IH [OF this] cov show ?case by auto
qed

section \<open>The register file\<close>

lemma and_bit_iff:
  "w AND 4 = 0 \<longleftrightarrow> \<not> bit w 2" "w AND 8 = 0 \<longleftrightarrow> \<not> bit w 3" "w AND 0x40 = 0 \<longleftrightarrow> \<not> bit w 6"
  for w :: u32
  using and_exp_eq_0_iff_not_bit [of w 2] and_exp_eq_0_iff_not_bit [of w 3]
    and_exp_eq_0_iff_not_bit [of w 6] by simp_all

lemmas status_bits = DRIVER_OK_def FEATURES_OK_def NEEDS_RESET_def and_bit_iff

lemma and_FEATURES_OK: "w AND FEATURES_OK = 0 \<longleftrightarrow> \<not> bit w 3"
  by (simp add: FEATURES_OK_def and_bit_iff)

lemma and_superset:
  "v AND s = s \<Longrightarrow> s AND k = k \<Longrightarrow> v AND k = k"
  for v s k :: "'a::len word"
  by (metis and.assoc)

lemma superset_bit: "v AND s = s \<Longrightarrow> bit s n \<Longrightarrow> bit v n"
  for v s :: "'a::len word"
  by (metis bit_and_iff)

lemma bit_0xb: "bit (0xb :: u32) n \<longleftrightarrow> n = 0 \<or> n = 1 \<or> n = 3"
proof -
  consider "n = 0" | "n = 1" | "n = 2" | "n = 3" | k where "n = Suc (Suc (Suc (Suc k)))"
    by (metis One_nat_def Suc_1 eval_nat_numeral(3) not0_implies_Suc)
  then show ?thesis by cases (auto simp: bit_Suc)
qed

lemma bit_status_flags:
  "bit FEATURES_OK n \<longleftrightarrow> n = 3" "bit NEEDS_RESET n \<longleftrightarrow> n = 6"
  unfolding FEATURES_OK_def NEEDS_RESET_def
  using bit_exp_iff [of 6 n, where 'a = "32 word"] bit_exp_iff [of 3 n, where 'a = "32 word"] by auto

lemma and_0xb_iff: "w AND 0xb = 0xb \<longleftrightarrow> bit w 0 \<and> bit w 1 \<and> bit w 3"
  for w :: u32
proof
  show "bit w 0 \<and> bit w 1 \<and> bit w 3" if "w AND 0xb = 0xb"
    using superset_bit [OF that] unfolding bit_0xb by blast
  show "w AND 0xb = 0xb" if "bit w 0 \<and> bit w 1 \<and> bit w 3"
    by (rule bit_eqI, unfold bit_and_iff bit_0xb) (use that in auto)
qed

subsection \<open>The contract of a device\<close>

definition identity :: "('d, 'q, 'm) virtio_ops \<Rightarrow> 'd \<Rightarrow> u64 \<times> u32 \<times> u64 \<times> usize" where
  "identity V d = (vd_required_features V d, vd_device_id V d, vd_features V d, vd_queue_count V d)"

definition op_frame :: "('d, 'q, 'm) virtio_ops \<Rightarrow> 'd \<times> 'q queues \<times> 'm \<Rightarrow> 'd \<times> 'q queues \<times> 'm \<Rightarrow> bool" where
  "op_frame V = (\<lambda>(d, qs, m) (d', qs', m'). identity V d' = identity V d \<and> queues_frame qs qs')"

lemma op_frame_reflp [simp]: "reflp (op_frame V)"
  by (auto simp: reflp_def op_frame_def)

lemma op_frame_transp [simp]: "transp (op_frame V)"
  by (auto simp: transp_def op_frame_def intro: queues_frame_trans)

lemma zoom_op_frame:
  assumes "keeps queue_frame f"
  shows "keeps (op_frame V) (zoom_snd f)"
proof -
  have "op_frame V (d, qs, m) (snd (zoom_snd f (d, qs, m)))" for d qs m
    using assms [THEN keepsD, of "(qs, m)"]
    by (cases "f (qs, m)") (auto simp: zoom_snd_def op_frame_def)
  then show ?thesis by (auto simp: keeps_def)
qed

lemmas queue_op_frames = available_frame pop_frame complete_frame

definition mmio_inv :: "('d, 'q, 'm) virtio_ops \<Rightarrow> ('d, 'q) mmio \<Rightarrow> bool" where
  "mmio_inv V t \<longleftrightarrow>
     length (rings (queues t)) = vd_queue_count V (device t) \<and>
     features t = vd_features V (device t) OR VERSION_1 \<and>
     (mstatus t AND FEATURES_OK \<noteq> 0 \<longrightarrow> acceptable V t) \<and>
     (mstatus t AND DRIVER_OK \<noteq> 0 \<longrightarrow> mstatus t AND 0xb = 0xb)"

lemma mmio_inv_bits:
  "mmio_inv V t \<longleftrightarrow>
     length (rings (queues t)) = vd_queue_count V (device t) \<and>
     features t = vd_features V (device t) OR VERSION_1 \<and>
     (bit (mstatus t) 3 \<longrightarrow> acceptable V t) \<and>
     (bit (mstatus t) 2 \<longrightarrow> bit (mstatus t) 0 \<and> bit (mstatus t) 1 \<and> bit (mstatus t) 3)"
  by (simp add: mmio_inv_def status_bits and_0xb_iff)

lemma acceptable_cong:
  "negotiated (queues t') = negotiated (queues t) \<Longrightarrow> features t' = features t \<Longrightarrow>
    vd_required_features V (device t') = vd_required_features V (device t) \<Longrightarrow>
    acceptable V t' = acceptable V t"
  by (simp add: acceptable_def)

lemma mmio_inv_cong:
  assumes "mmio_inv V t" and "identity V (device t') = identity V (device t)" and "features t' = features t"
    and "length (rings (queues t')) = length (rings (queues t))"
    and "negotiated (queues t') = negotiated (queues t)" and "mstatus t' = mstatus t"
  shows "mmio_inv V t'"
  using assms acceptable_cong [of t' t V] by (simp add: mmio_inv_bits identity_def)

lemma mmio_inv_new: "mmio_new C V d = Ok t \<Longrightarrow> mmio_inv V t"
  by (auto simp: mmio_new_def mmio_inv_def Let_def split: if_splits option.splits)

lemma mmio_inv_with_strict [simp]: "mmio_inv V (with_strict b t) = mmio_inv V t"
  by (simp add: mmio_inv_def with_strict_def acceptable_def)

lemma mmio_inv_frame:
  assumes "mmio_inv V t" and "identity V d = identity V (device t)" and "queues_frame (queues t) qs"
    and "mstatus t' = mstatus t \<or> mstatus t' = mstatus t OR NEEDS_RESET"
    and "device t' = d" and "features t' = features t"
    and "rings (queues t') = rings qs" and "negotiated (queues t') = negotiated qs"
  shows "mmio_inv V t'"
proof -
  have "acceptable V t' = acceptable V t"
    using assms by (intro acceptable_cong) (simp_all add: identity_def queues_frame_def)
  moreover have "bit (mstatus t') n = bit (mstatus t) n" if "n \<in> {0, 1, 2, 3}" for n
    using assms(4) that by (auto simp: bit_or_iff bit_status_flags)
  ultimately show ?thesis
    using assms by (simp add: mmio_inv_bits identity_def queues_frame_def)
qed

lemma contain_frame:
  assumes "contain r t = (r', t')"
  shows "device t' = device t \<and> features t' = features t \<and> rings (queues t') = rings (queues t) \<and>
    negotiated (queues t') = negotiated (queues t) \<and> strict t' = strict t \<and>
    (mstatus t' = mstatus t \<or> mstatus t' = mstatus t OR NEEDS_RESET)"
  using assms by (cases r) (auto simp: Let_def config_changed_def split: if_splits)

lemma run_contained_inv:
  assumes "keeps (op_frame V) f" and "mmio_inv V t" and "run_contained f (t, m) = (r, t', m')"
  shows "mmio_inv V t'"
proof -
  obtain r1 d qs m1 where f: "f (device t, queues t, m) = (r1, d, qs, m1)" by (metis prod_cases4)
  from keepsD [OF assms(1) f] have fr: "identity V d = identity V (device t)" "queues_frame (queues t) qs"
    by (simp_all add: op_frame_def)
  obtain r2 t2 where c2: "contain r1 (t\<lparr>device := d, queues := qs\<rparr>) = (r2, t2)" by fastforce
  with assms(3) f have "t2 = t'" by (cases r2) (simp_all add: run_contained_def)
  with c2 have c: "contain r1 (t\<lparr>device := d, queues := qs\<rparr>) = (r2, t')" by simp
  from contain_frame [OF c] fr assms(2) show ?thesis
    using mmio_inv_frame [OF assms(2) fr, of t'] by auto
qed

lemma configure_status_inv:
  assumes "keeps (\<lambda>d d'. identity V d' = identity V d) (vd_reset V)" and "mmio_inv V t"
    and "configure_status C V v m t = (r, t')"
  shows "mmio_inv V t'"
proof (cases "v = 0")
  case True
  obtain r1 d where rst: "vd_reset V (device t) = (r1, d)" by fastforce
  have "identity V d = identity V (device t)" using keepsD [OF assms(1) rst] .
  moreover have "t' = t\<lparr>device := d\<rparr> \<or> (device t' = d \<and> mstatus t' = 0 \<and> features t' = features t \<and>
      length (rings (queues t')) = length (rings (queues t)))"
    using assms(3) True rst by (cases r1) (auto simp: configure_status_def)
  ultimately show ?thesis
    using assms(2) mmio_inv_cong [OF assms(2), of t'] by (auto simp: mmio_inv_bits identity_def)
next
  case False
  let ?st = "accepted_status V t v"
  consider "t' = t" | "t' = t\<lparr>mstatus := ?st\<rparr>" "v AND mstatus t = mstatus t"
      "bit ?st 2 \<Longrightarrow> \<not> bit (mstatus t) 2 \<Longrightarrow> bit ?st 0 \<and> bit ?st 1 \<and> bit ?st 3"
    using assms(3) False
    by (auto simp: configure_status_def Let_def status_bits and_0xb_iff split: if_splits)
  then show ?thesis
  proof cases
    case 2
    have "bit ?st n \<longleftrightarrow> bit v n \<and> (n = 3 \<longrightarrow> acceptable V t)" if "n < 32" for n
      using that by (auto simp: accepted_status_def bit_and_iff bit_not_iff bit_status_flags and_FEATURES_OK)
    moreover have "acceptable V t' = acceptable V t" using 2 by (intro acceptable_cong) simp_all
    moreover have "bit v n" if "bit (mstatus t) n" for n using 2(2) that by (rule superset_bit)
    ultimately show ?thesis using assms(2) 2 unfolding mmio_inv_bits by auto
  qed (use assms(2) in simp)
qed

lemma configure_queue_inv:
  assumes "mmio_inv V t" and "configure_queue C off v m t = (r, t')"
  shows "mmio_inv V t'"
proof -
  have "t' = t \<or> (\<exists>i q. t' = set_ring i q t)"
    using assms(2) by (auto simp: configure_queue_def Let_def split: if_splits prod.splits)
  then show ?thesis
    using mmio_inv_cong [OF assms(1), of t'] assms(1) by (auto simp: set_ring_def)
qed

lemma configure_inv:
  assumes "keeps (\<lambda>d d'. identity V d' = identity V d) (vd_reset V)" and "mmio_inv V t"
    and "configure C V off v m t = (r, t')"
  shows "mmio_inv V t'"
proof -
  consider "off = 0x70" | "off \<in> queue_registers" | "off = 0x20" | "off \<notin> queue_registers \<union> {0x70, 0x20}" by blast
  then show ?thesis
  proof cases
    case 1
    with assms(3) have "configure_status C V v m t = (r, t')" by (simp add: configure_def)
    with assms(1,2) show ?thesis by (rule configure_status_inv)
  next
    case 2
    then have "configure C V off v m t = configure_queue C off v m t"
      by (auto simp: configure_def queue_registers_def)
    with assms(2,3) configure_queue_inv [of V t C off v m r t'] show ?thesis by simp
  next
    case 3
    show ?thesis
    proof (cases "mstatus t AND FEATURES_OK = 0 \<and> driver_sel t < 2")
      case True
      with 3 assms(3) have "mstatus t' = mstatus t" "features t' = features t" "device t' = device t"
        "rings (queues t') = rings (queues t)" by (auto simp: configure_def Let_def)
      with True assms(2) show ?thesis by (simp add: mmio_inv_bits and_FEATURES_OK)
    next
      case False
      with 3 assms(3) have "t' = t" by (auto simp: configure_def queue_registers_def)
      with assms(2) show ?thesis by simp
    qed
  next
    case 4
    then have "t' = t \<or> t' = t\<lparr>feature_sel := v\<rparr> \<or> t' = t\<lparr>driver_sel := v\<rparr> \<or> t' = t\<lparr>queue_sel := v\<rparr> \<or>
        t' = t\<lparr>queues := (queues t)\<lparr>interrupt := interrupt (queues t) AND NOT v\<rparr>\<rparr>"
      using assms(3) by (simp add: configure_def split: if_splits)
    then show ?thesis using mmio_inv_cong [OF assms(2), of t'] assms(2) by auto
  qed
qed

locale virtio_device =
  fixes V :: "('d, 'q, 'm) virtio_ops"
  assumes notify_frame: "keeps (op_frame V) (vd_notify V i)"
    and poll_frame: "keeps (op_frame V) (vd_poll V)"
    and reset_frame: "keeps (\<lambda>d d'. identity V d' = identity V d) (vd_reset V)"
    and flush_frame: "keeps (\<lambda>d d'. identity V d' = identity V d) (vd_flush V)"
    and required_offered: "vd_required_features V d AND NOT (vd_features V d) = 0"
begin

lemma write_inv:
  assumes "mmio_inv V t" and "mmio_write C V off v (t, m) = (r, t', m')"
  shows "mmio_inv V t'"
proof (cases "off = 0x50")
  case True
  with assms show ?thesis
    by (auto simp: mmio_write_def split: if_splits intro: run_contained_inv [OF notify_frame])
next
  case False
  obtain r1 t1 where c: "configure C V off v m t = (r1, t1)" by fastforce
  note configure_inv [OF reset_frame assms(1) c]
  moreover have "t' = t1 \<or> t' = t1\<lparr>rejected := rejected t1 + 1\<rparr>"
    using assms(2) False c by (cases r1) (auto simp: mmio_write_def split: if_splits)
  ultimately show ?thesis using mmio_inv_cong [of V t1 t'] by auto
qed

lemma poll_inv:
  "mmio_inv V t \<Longrightarrow> mmio_poll V (t, m) = (r, t', m') \<Longrightarrow> mmio_inv V t'"
  by (auto simp: mmio_poll_def split: if_splits intro: run_contained_inv [OF poll_frame])

lemma flush_inv:
  assumes "mmio_inv V t" and "mmio_flush V t = (r, t')"
  shows "mmio_inv V t'"
proof -
  obtain d where "vd_flush V (device t) = (r, d)" and "t' = t\<lparr>device := d\<rparr>"
    using assms(2) by (auto simp: mmio_flush_def split: prod.splits)
  with keepsD [OF flush_frame this(1)] assms(1) show ?thesis
    using mmio_inv_cong [OF assms(1), of t'] by simp
qed

lemma active_negotiated:
  assumes "mmio_inv V t" and "active t"
  shows "vd_required_features V (device t) AND NOT (negotiated (queues t)) = 0"
proof -
  have "bit (mstatus t AND 0xcf) 3" using assms(2) by (simp add: active_def)
  then have "mstatus t AND FEATURES_OK \<noteq> 0" by (simp add: status_bits bit_simps)
  with assms(1) have "negotiated (queues t) AND vd_required_features V (device t) = vd_required_features V (device t)"
    by (simp add: mmio_inv_def acceptable_def)
  then show ?thesis by (metis and.assoc and.commute bit.conj_cancel_right bit.conj_zero_right)
qed

end

subsection \<open>Rejected writes\<close>

text \<open>Everything a register read shows except what the device itself computes, and the mode.\<close>

definition registers :: "('d, 'q) mmio \<Rightarrow> 'q queues \<times> u32 \<times> u32 \<times> u32 \<times> u64 \<times> u32 \<times> bool" where
  "registers t = (queues t, feature_sel t, driver_sel t, queue_sel t, features t, mstatus t, strict t)"

lemma configure_queue_Err:
  assumes "queue_config_law C" and "configure_queue C off v m t = (Err e, t')"
  shows "t' = t"
proof -
  have same: "set_ring i (rings (queues t) ! i) t = t" for i by (simp add: set_ring_def)
  have size: "q' = q" if "cq_try_set_size C n q = (Inl e', q')" for n q q' e'
    using assms(1) that by (auto simp: queue_config_law_def)
  have ready: "cq_set_ready C False (cq_set_ready C True q) = q" if "\<not> cq_ready C q" for q
    using assms(1) that by (simp add: queue_config_law_def)
  show ?thesis
    using assms(2)
    by (auto simp: configure_queue_def Let_def same ready split: if_splits prod.splits elim!: of_sum.elims dest!: size)
qed

lemma configure_Err:
  assumes "queue_config_law C" and "configure C V off v m t = (Err e, t')"
  shows "registers t' = registers t \<and> rejected t' = rejected t \<and> (device t' = device t \<or> off = 0x70 \<and> v = 0)"
proof (cases "off = 0x70")
  case True
  with assms(2) show ?thesis
    by (auto simp: configure_def configure_status_def registers_def Let_def split: if_splits prod.splits result.splits)
next
  case False
  with assms have "t' = t"
    by (auto simp: configure_def Let_def dest: configure_queue_Err split: if_splits)
  then show ?thesis by simp
qed

lemma configure_strict: "configure C V off v m t = (r, t') \<Longrightarrow> strict t' = strict t"
  by (auto simp: configure_def configure_status_def configure_queue_def set_ring_def Let_def
      split: if_splits prod.splits result.splits)

section \<open>Errors the guest caused\<close>

text \<open>\<open>guest_errors f\<close>: every error of \<open>f\<close> is one a lenient transport contains.\<close>

definition guest_errors :: "('s, 'a, DeviceError) prog \<Rightarrow> bool" where
  "guest_errors f \<longleftrightarrow> (\<forall>s e s'. f s = (Err e, s') \<longrightarrow> is_guest e)"

named_theorems guest_intros \<open>programs whose errors are the guest's\<close>

lemma guest_ret [guest_intros]: "guest_errors (ret x)"
  by (simp add: guest_errors_def ret_def)

lemma guest_throw [guest_intros]: "is_guest e \<Longrightarrow> guest_errors (throw e)"
  by (simp add: guest_errors_def throw_def)

lemma guest_panic [guest_intros]: "guest_errors panic"
  by (simp add: guest_errors_def panic_def)

lemma guest_get [guest_intros]: "guest_errors get_state"
  by (simp add: guest_errors_def get_state_def)

lemma guest_modify [guest_intros]: "guest_errors (modify f)"
  by (simp add: guest_errors_def modify_def)

lemma guest_bnd [guest_intros]: "guest_errors f \<Longrightarrow> (\<And>x. guest_errors (g x)) \<Longrightarrow> guest_errors (bnd f g)"
  by (auto simp: guest_errors_def bnd_def split: prod.splits result.splits)

lemma guest_call_ext [guest_intros]: "(\<And>e. is_guest (conv e)) \<Longrightarrow> guest_errors (call_ext conv f)"
  by (auto simp: guest_errors_def call_ext_def split: prod.splits elim: of_sum.elims)

lemma guest_zoom_snd [guest_intros]: "guest_errors f \<Longrightarrow> guest_errors (zoom_snd f)"
  by (auto simp: guest_errors_def zoom_snd_def split: prod.splits)

lemma guest_if [guest_intros]: "guest_errors f \<Longrightarrow> guest_errors g \<Longrightarrow> guest_errors (if b then f else g)"
  by simp

lemma guest_case_prod [guest_intros]:
  "(\<And>a b. guest_errors (f a b)) \<Longrightarrow> guest_errors (case p of (a, b) \<Rightarrow> f a b)"
  by (cases p) simp

lemma guest_case_option [guest_intros]:
  "guest_errors f \<Longrightarrow> (\<And>y. guest_errors (g y)) \<Longrightarrow> guest_errors (case x of None \<Rightarrow> f | Some y \<Rightarrow> g y)"
  by (cases x) auto

lemma guest_loop_upto [guest_intros]: "guest_errors body \<Longrightarrow> guest_errors (loop_upto n body)"
  by (induction n) (auto intro!: guest_intros)

lemma guest_on_ring [guest_intros]: "guest_errors (on_ring i f)"
  by (auto simp: guest_errors_def on_ring_def split: prod.splits if_splits elim: of_sum.elims)

lemma guest_available [guest_intros]: "guest_errors (available C i)"
  unfolding available_def Let_def by (intro guest_intros) simp_all

lemma guest_pop_walk [guest_intros]: "guest_errors (pop_walk C q n f i ds)"
proof (induction n arbitrary: i ds)
  case (Suc n)
  then show ?case
    unfolding pop_walk.simps read_descriptor_def by (intro guest_intros) simp_all
qed (simp add: guest_intros)

lemma guest_pop [guest_intros]: "guest_errors (pop C i)"
  unfolding pop_def Let_def by (intro guest_intros) simp_all

lemma guest_complete [guest_intros]: "guest_errors (complete C i h n)"
  unfolding complete_def by (intro guest_intros)

section \<open>Containment\<close>

lemma contain_lenient: "\<not> strict t \<Longrightarrow> contain r t = (Err e, t') \<Longrightarrow> \<not> is_guest e"
  by (cases r) (auto simp: Let_def split: if_splits)

lemma run_contained_lenient:
  assumes "\<not> strict t" and "run_contained f (t, m) = (Err e, t', m')"
  shows "\<not> is_guest e"
proof -
  obtain r d qs m1 where f: "f (device t, queues t, m) = (r, d, qs, m1)" by (metis prod_cases4)
  obtain r2 t2 where c: "contain r (t\<lparr>device := d, queues := qs\<rparr>) = (r2, t2)" by fastforce
  with assms(2) f have "r2 = Err e" by (cases r2) (simp_all add: run_contained_def)
  with contain_lenient [of "t\<lparr>device := d, queues := qs\<rparr>" r e t2] assms(1) c show ?thesis by simp
qed

lemma needs_reset_inactive: "needs_reset t \<Longrightarrow> \<not> active t"
proof
  assume "needs_reset t" and "active t"
  then have "bit (mstatus t AND 0xcf) 6" by (simp add: needs_reset_def status_bits bit_simps)
  with \<open>active t\<close> show False by (simp add: active_def)
qed

lemma configure_keeps_needs_reset:
  assumes "needs_reset t" and "\<not> (off = 0x70 \<and> v = 0)" and "configure C V off v m t = (r, t')"
  shows "needs_reset t' \<and> device t' = device t"
proof (cases "off = 0x70")
  case True
  with assms(2,3) have c: "configure_status C V v m t = (r, t')" and "v \<noteq> 0" by (auto simp: configure_def)
  then have "t' = t \<or> t' = t\<lparr>mstatus := accepted_status V t v\<rparr> \<and> v AND mstatus t = mstatus t"
    by (auto simp: configure_status_def Let_def split: if_splits)
  moreover have "bit (accepted_status V t v) 6" if "bit v 6"
    using that by (simp add: accepted_status_def bit_and_iff bit_not_iff bit_status_flags)
  ultimately show ?thesis
    using assms(1) superset_bit [of v "mstatus t" 6] by (auto simp: needs_reset_def status_bits)
next
  case False
  with assms(3) have "mstatus t' = mstatus t \<and> device t' = device t"
    by (auto simp: configure_def configure_queue_def set_ring_def Let_def split: if_splits prod.splits)
  with assms(1) show ?thesis by (simp add: needs_reset_def)
qed

text \<open>The events a transport sees, and a run of them; a fatal error ends the machine, so only what
  follows it is irrelevant, and every prefix is a run as well.\<close>

datatype mmio_event = Write u64 u32 | Poll

fun mmio_step ::
  "('q, 'm) crates \<Rightarrow> ('d, 'q, 'm) virtio_ops \<Rightarrow> mmio_event \<Rightarrow> (('d, 'q) mmio \<times> 'm, unit, DeviceError) prog" where
  "mmio_step C V (Write off v) = mmio_write C V off v"
| "mmio_step C V Poll = mmio_poll V"

fun mmio_run ::
  "('q, 'm) crates \<Rightarrow> ('d, 'q, 'm) virtio_ops \<Rightarrow> mmio_event list \<Rightarrow> ('d, 'q) mmio \<times> 'm \<Rightarrow> ('d, 'q) mmio \<times> 'm" where
  "mmio_run C V [] s = s"
| "mmio_run C V (ev # evs) s = mmio_run C V evs (snd (mmio_step C V ev s))"

lemma event_needs_reset:
  assumes "needs_reset t" and "ev \<noteq> Write 0x70 0"
  shows "\<exists>r t'. mmio_step C V ev (t, m) = (r, t', m) \<and> needs_reset t' \<and> device t' = device t"
proof (cases ev)
  case (Write off v)
  show ?thesis
  proof (cases "off = 0x50")
    case True
    with Write assms(1) show ?thesis by (simp add: mmio_write_def needs_reset_inactive)
  next
    case False
    obtain r t1 where c: "configure C V off v m t = (r, t1)" by fastforce
    have "needs_reset t1 \<and> device t1 = device t"
      using configure_keeps_needs_reset [OF assms(1) _ c] assms(2) Write by auto
    with False Write c show ?thesis
      by (cases r) (auto simp: mmio_write_def needs_reset_def)
  qed
next
  case Poll
  with assms(1) show ?thesis by (simp add: mmio_poll_def needs_reset_inactive)
qed

lemma run_needs_reset:
  "needs_reset t \<Longrightarrow> Write 0x70 0 \<notin> set evs \<Longrightarrow>
    \<exists>t'. mmio_run C V evs (t, m) = (t', m) \<and> needs_reset t' \<and> device t' = device t"
proof (induction evs arbitrary: t)
  case (Cons ev evs)
  then have "ev \<noteq> Write 0x70 0" by auto
  then obtain r t1 where "mmio_step C V ev (t, m) = (r, t1, m)" "needs_reset t1" "device t1 = device t"
    using event_needs_reset [OF Cons.prems(1), of ev C V m] by blast
  with Cons.IH [of t1] Cons.prems(2) show ?case by auto
qed simp

section \<open>Properties\<close>

text \<open>C18. A register write the device rejects leaves every register as it was, the queues
  included. A strict transport, and any transport whose error is the host's, returns the error; a
  lenient transport ignores the write and counts it.\<close>

theorem rejected_write_keeps_registers:
  assumes "queue_config_law C" and "off \<noteq> 0x50" and "configure C V off v m t = (Err e, t1)"
  shows "\<exists>r t'. mmio_write C V off v (t, m) = (r, t', m) \<and> registers t' = registers t \<and>
    (if strict t \<or> \<not> is_guest e then r = Err e \<and> rejected t' = rejected t
     else r = Ok () \<and> rejected t' = rejected t + 1)"
proof -
  from configure_Err [OF assms(1,3)] have "registers t1 = registers t" "rejected t1 = rejected t" by auto
  moreover from this have "strict t1 = strict t" by (simp add: registers_def)
  ultimately show ?thesis using assms(2,3) by (auto simp: mmio_write_def registers_def)
qed

text \<open>A lenient transport never returns an error the guest caused: whatever a register write
  or a poll returns as an error is a failure of the host.\<close>

theorem lenient_errors_are_host:
  assumes "\<not> strict t"
    and "mmio_write C V off v (t, m) = (Err e, t', m') \<or> mmio_poll V (t, m) = (Err e, t', m')"
  shows "\<not> is_guest e"
  using assms(2)
proof
  assume w: "mmio_write C V off v (t, m) = (Err e, t', m')"
  show ?thesis
  proof (cases "off = 0x50")
    case True
    with w assms(1) show ?thesis
      by (auto simp: mmio_write_def split: if_splits dest: run_contained_lenient)
  next
    case False
    obtain r t1 where c: "configure C V off v m t = (r, t1)" by fastforce
    have "strict t1 = strict t" by (rule configure_strict [OF c])
    with w False c assms(1) show ?thesis by (cases r) (auto simp: mmio_write_def split: if_splits)
  qed
qed (use assms(1) in \<open>auto simp: mmio_poll_def split: if_splits dest: run_contained_lenient\<close>)


text \<open>C22. A device that needs a reset stays isolated: over any sequence of register writes, queue
  notifications and polls without a driver reset, the device's own state and guest memory are not
  touched and the device still needs its reset.\<close>

theorem isolated_until_reset:
  assumes "needs_reset t" and "Write 0x70 0 \<notin> set evs"
  shows "\<exists>t'. mmio_run C V evs (t, m) = (t', m) \<and> needs_reset t' \<and> device t' = device t"
  by (rule run_needs_reset [OF assms])


text \<open>C15. The pinned ranges of a set of queues cover everything the device may still access for
  the guest: the three areas of every enabled queue and every buffer of every chain that is
  pending on it, and computing them never panics.\<close>

theorem pinned_covers_pending:
  assumes "quiet_law C"
  shows "case pinned C qs m of
      (Ok pins, m') \<Rightarrow> m' = m \<and> (\<forall>q \<in> set (rings qs). cq_ready C q \<longrightarrow> queue_uses C q m \<subseteq> set pins)
    | (Err e, m') \<Rightarrow> True | (Panic, m') \<Rightarrow> False"
proof -
  obtain r m' where p: "pinned C qs m = (r, m')" by fastforce
  show ?thesis
  proof (cases r)
    case (Ok pins)
    with p pinned_queues_covers [OF assms, of "filter (cq_ready C) (rings qs)" "[]" m pins m'] show ?thesis
      by (auto simp: pinned_def)
  qed (use p pinned_no_panic [of C qs m] in auto)
qed

end
