(* ===== verification/Block.thy ===== *)
theory Block
  imports Buffers Storage Mmio "HOL-Library.Char_ord"
begin

text \<open>
  The virtio block device, \<open>src/src/devices/block.rs\<close>, over any storage backend. The device
  validates a whole request before it touches the backend; a malformed or failed request is
  completed with \<open>IOERR\<close>. The diagnostics printed on the way are not modelled.
\<close>

section \<open>Definitions\<close>

definition SEG_MAX :: u32 where
  "SEG_MAX = ucast MAX_QUEUE - 2"

definition BLK_F_FLUSH :: u64 where
  "BLK_F_FLUSH = push_bit 9 1"

definition BLK_F_SEG_MAX :: u64 where
  "BLK_F_SEG_MAX = push_bit 2 1"

definition BLK_F_RO :: u64 where
  "BLK_F_RO = push_bit 5 1"

definition BLK_T_IN :: u32 where
  "BLK_T_IN = 0"

definition BLK_T_OUT :: u32 where
  "BLK_T_OUT = 1"

definition BLK_T_FLUSH :: u32 where
  "BLK_T_FLUSH = 4"

definition BLK_T_GET_ID :: u32 where
  "BLK_T_GET_ID = 8"

definition BLK_S_OK :: u8 where
  "BLK_S_OK = 0"

definition BLK_S_IOERR :: u8 where
  "BLK_S_IOERR = 1"

definition BLK_S_UNSUPP :: u8 where
  "BLK_S_UNSUPP = 2"

record 's block =
  bdisk :: 's
  bname :: string
  bid :: bytes

definition block_device_id :: u32 where
  "block_device_id = 2"

definition block_features :: "('s, 'm) block_ops \<Rightarrow> 's block \<Rightarrow> u64" where
  "block_features B b =
     BLK_F_FLUSH OR BLK_F_SEG_MAX OR (if bs_read_only B (bdisk b) then BLK_F_RO else 0)"

definition block_read_config :: "('s, 'm) block_ops \<Rightarrow> 's block \<Rightarrow> usize \<Rightarrow> usize \<Rightarrow> bytes" where
  "block_read_config B b =
     (let config = put_bytes 12 (le_bytes 4 (unat SEG_MAX))
            (put_bytes 0 (le_bytes 8 (unat (bs_size B (bdisk b) div 512))) (replicate 16 0))
      in read_config config)"

definition name_byte :: "char \<Rightarrow> bool" where
  "name_byte c = ((CHR ''a'' \<le> c \<and> c \<le> CHR ''z'') \<or> (CHR ''A'' \<le> c \<and> c \<le> CHR ''Z'') \<or>
     (CHR ''0'' \<le> c \<and> c \<le> CHR ''9'') \<or> c \<in> set ''._-'')"

definition block_new :: "string \<Rightarrow> 's \<Rightarrow> ('s block, DeviceError) result" where
  "block_new name d =
     (if \<not> (name \<noteq> [] \<and> length name \<le> 20 \<and> list_all name_byte name)
      then Err (DeviceError.InvalidBlockName name)
      else Ok \<lparr>bdisk = d, bname = name,
        bid = put_bytes 0 (map (word_of_nat \<circ> of_char) name) (replicate 20 0)\<rparr>)"

text \<open>The header loop of \<open>execute\<close>: no part of the 16 header bytes may be device-writable; the
  result lists the descriptors that hold data.\<close>

fun header_loop ::
  "descriptor list \<Rightarrow> usize \<Rightarrow> descriptor list \<Rightarrow> (descriptor list, DeviceError) result" where
  "header_loop [] remaining data = Ok data"
| "header_loop (d # ds) remaining data =
     (let header_len = min remaining (unat (d_len d))
      in if header_len \<noteq> 0 \<and> d_write_only d then Err DeviceError.InvalidBlockHeaderStatus
         else header_loop ds (remaining - header_len)
                (if header_len < unat (d_len d) then data @ [d] else data))"

text \<open>The first half of \<open>execute\<close>: validation, and the header's kind and sector. The result also
  holds the payload length, the payload descriptors and the payload slices.\<close>

record request =
  kind :: u32
  sector :: u64
  payload :: usize
  data :: "descriptor list"
  buffers :: "vslice list"

definition parse_request :: "('q, 'm) crates \<Rightarrow> descriptor list \<Rightarrow> ('m, request, DeviceError) prog" where
  "parse_request C request =
     bnd get_state (\<lambda>m.
     bnd (pure_res (of_sum DeviceError.GuestAccess (slices C m request))) (\<lambda>all.
     bnd (pure_res (ok_or (try_sum (map (\<lambda>d. unat (d_len d)) request) 0) DeviceError.RequestLengthOverflow)) (\<lambda>request_len.
     if request_len < 16 then throw DeviceError.InvalidBlockHeaderStatus
     else
     let total = request_len - 16 in
     bnd (pure_res (header_loop request 16 [])) (\<lambda>data.
     bnd (copy_to C all 16) (\<lambda>h.
     bnd (pure_res (range_slices C all 16 total)) (\<lambda>buffers.
     ret \<lparr>kind = word_of_nat (le_nat (take 4 h)), sector = word_of_nat (le_nat (drop 8 h)),
          payload = total, data = data, buffers = buffers\<rparr>))))))"

text \<open>The used length of a data request.\<close>

definition used_length :: "bool \<Rightarrow> usize \<Rightarrow> (u32, DeviceError) result" where
  "used_length read len =
     (if read then
        (if len < 2 ^ 32
         then ok_or (checked_add (word_of_nat len) 1) DeviceError.RequestLengthOverflow
         else Err DeviceError.RequestLengthOverflow)
      else Ok 1)"

definition lift_storage :: "('t, 'a, StorageError) prog \<Rightarrow> ('t, 'a, DeviceError) prog" where
  "lift_storage f = (\<lambda>s. case f s of (r, s') \<Rightarrow> (map_err DeviceError.Storage r, s'))"

text \<open>\<open>BlockStorage::flush\<close> does not see guest memory.\<close>

definition flush_backend :: "('s, 'm) block_ops \<Rightarrow> ('s \<times> 'm, unit, DeviceError) prog" where
  "flush_backend B = (\<lambda>(s, m). case lift_storage (bs_flush B) s of (r, s') \<Rightarrow> (r, s', m))"

definition block_transfer ::
  "('s, 'm) block_ops \<Rightarrow> u64 \<Rightarrow> request \<Rightarrow> ('s \<times> 'm, u8 \<times> u32, DeviceError) prog" where
  "block_transfer B neg r =
     bnd get_state (\<lambda>(s, m).
     let read = (kind r = BLK_T_IN) in
     if \<not> list_all (\<lambda>d. d_write_only d = read) (data r)
     then throw DeviceError.BlockDescriptorDirectionMismatch
     else if payload r mod 512 \<noteq> 0 then throw (DeviceError.UnalignedBlockRequest (payload r))
     else if \<not> (read \<or> \<not> bs_read_only B s) then throw DeviceError.WriteToReadOnlyDisk
     else
     bnd (pure_res (used_length read (payload r))) (\<lambda>used.
     bnd (pure_res (ok_or (checked_mul (sector r) 512) (DeviceError.SectorOverflow (sector r)))) (\<lambda>offset.
     bnd (pure_res (map_err DeviceError.Storage (bounds (bs_size B s) offset (payload r)))) (\<lambda>_.
     bnd (if read then lift_storage (bs_read B offset (buffers r))
          else bnd (lift_storage (bs_write B offset (buffers r))) (\<lambda>_.
               if neg AND BLK_F_FLUSH = 0 then flush_backend B else ret ())) (\<lambda>_.
     ret (BLK_S_OK, used))))))"

definition dispatch ::
  "('q, 'm) crates \<Rightarrow> ('s, 'm) block_ops \<Rightarrow> bytes \<Rightarrow> u64 \<Rightarrow> request \<Rightarrow> ('s \<times> 'm, u8 \<times> u32, DeviceError) prog" where
  "dispatch C B ident neg r =
     (if kind r = BLK_T_IN \<or> kind r = BLK_T_OUT then block_transfer B neg r
      else if kind r = BLK_T_FLUSH then
        (if \<not> (payload r = 0 \<and> neg AND BLK_F_FLUSH \<noteq> 0) then throw DeviceError.InvalidFlush
         else bnd (flush_backend B) (\<lambda>_. ret (BLK_S_OK, 1)))
      else if kind r = BLK_T_GET_ID then
        (if \<not> (20 \<le> payload r \<and> list_all d_write_only (data r)) then throw DeviceError.InvalidGetId
         else bnd (zoom_snd (copy_from C (buffers r) ident)) (\<lambda>_. ret (BLK_S_OK, 21)))
      else ret (BLK_S_UNSUPP, 1))"

definition execute ::
  "('q, 'm) crates \<Rightarrow> ('s, 'm) block_ops \<Rightarrow> bytes \<Rightarrow> descriptor list \<Rightarrow> u64 \<Rightarrow>
    ('s \<times> 'm, u8 \<times> u32, DeviceError) prog" where
  "execute C B ident request neg =
     bnd (zoom_snd (parse_request C request)) (\<lambda>r. dispatch C B ident neg r)"

definition block_request ::
  "('q, 'm) crates \<Rightarrow> ('s, 'm) block_ops \<Rightarrow> bytes \<Rightarrow> descriptor list \<Rightarrow> u64 \<Rightarrow>
    ('s \<times> 'm, u32, DeviceError) prog" where
  "block_request C B ident desc neg =
     (if desc = [] then throw DeviceError.TruncatedBlockDescriptorChain
      else
      let status = last desc; request = butlast desc in
      bnd get_state (\<lambda>(s, m).
      if \<not> (d_write_only status \<and> d_len status = 1 \<and> cm_check_range C m (d_addr status) 1)
      then throw DeviceError.InvalidBlockHeaderStatus
      else
      bnd (\<lambda>x. case execute C B ident request neg x of
                 (Ok done, x') \<Rightarrow> (Ok done, x')
               | (Err e, x') \<Rightarrow> (Ok (BLK_S_IOERR, 1), x')
               | (Panic, x') \<Rightarrow> (Panic, x')) (\<lambda>(status_value, used).
      bnd (zoom_snd (call_ext DeviceError.GuestAccess (cm_write_slice C (d_addr status) [status_value]))) (\<lambda>_.
      ret used))))"

definition on_backend ::
  "('s \<times> 'm, 'a, DeviceError) prog \<Rightarrow> ('s block \<times> 'q queues \<times> 'm, 'a, DeviceError) prog" where
  "on_backend f = (\<lambda>(b, qs, m). case f (bdisk b, m) of (r, s, m') \<Rightarrow> (r, b\<lparr>bdisk := s\<rparr>, qs, m'))"

definition block_serve ::
  "('q, 'm) crates \<Rightarrow> ('s, 'm) block_ops \<Rightarrow> ('s block \<times> 'q queues \<times> 'm, unit, DeviceError) prog" where
  "block_serve C B =
     bnd (zoom_snd (pop C 0)) (\<lambda>next.
     case next of
       None \<Rightarrow> throw DeviceError.MissingBlockChain
     | Some ch \<Rightarrow>
         bnd get_state (\<lambda>(b, qs, m).
         bnd (on_backend (block_request C B (bid b) (descriptors ch) (negotiated qs))) (\<lambda>used.
         zoom_snd (complete C 0 (head ch) used))))"

definition block_notify ::
  "('q, 'm) crates \<Rightarrow> ('s, 'm) block_ops \<Rightarrow> usize \<Rightarrow> ('s block \<times> 'q queues \<times> 'm, unit, DeviceError) prog" where
  "block_notify C B queue =
     bnd (zoom_snd (available C 0)) (\<lambda>count.
     loop_upto (unat count) (bnd (block_serve C B) (\<lambda>_. ret True)))"

definition block_flush :: "('s, 'm) block_ops \<Rightarrow> ('s block, unit, DeviceError) prog" where
  "block_flush B = (\<lambda>b. case lift_storage (bs_flush B) (bdisk b) of (r, s) \<Rightarrow> (r, b\<lparr>bdisk := s\<rparr>))"

definition block_ops_of ::
  "('q, 'm) crates \<Rightarrow> ('s, 'm) block_ops \<Rightarrow> ('s block, 'q, 'm) virtio_ops" where
  "block_ops_of C B = \<lparr>vd_required_features = (\<lambda>b. 0), vd_generation = (\<lambda>b. 0),
     vd_device_id = (\<lambda>b. block_device_id), vd_features = block_features B, vd_queue_count = (\<lambda>b. 1),
     vd_read_config = block_read_config B, vd_notify = block_notify C B, vd_poll = ret (),
     vd_reset = block_flush B, vd_flush = block_flush B\<rparr>"

section \<open>Parsing a request\<close>

lemma header_loop_not_Panic [simp]: "header_loop ds n acc \<noteq> Panic"
  by (induction ds arbitrary: n acc) (simp_all add: Let_def)

lemma used_length_not_Panic [simp]: "used_length read n \<noteq> Panic"
  by (simp add: used_length_def)

definition chain_length :: "descriptor list \<Rightarrow> nat" where
  "chain_length ds = sum_list (map (\<lambda>d. unat (d_len d)) ds)"

text \<open>What validation guarantees: the payload is the chain without its first 16 bytes.\<close>

definition parsed :: "('q, 'm) crates \<Rightarrow> 'm \<Rightarrow> descriptor list \<Rightarrow> request \<Rightarrow> bool" where
  "parsed C m ds r \<longleftrightarrow> 16 \<le> chain_length ds \<and> payload r = chain_length ds - 16 \<and> payload r < 2 ^ 64 \<and>
     (\<exists>ss. slices C m ds = Inr ss \<and> length (all_cells ss) = chain_length ds \<and>
       all_cells (buffers r) = drop 16 (all_cells ss)) \<and> (\<forall>t \<in> set (buffers r). 0 < vs_len t)"

lemma parse_request_spec:
  assumes "get_slices_law C" and "subslice_law C" and "copy_to_law C"
  shows "fst (parse_request C ds m) \<noteq> Panic \<and>
    (\<forall>r m'. parse_request C ds m = (Ok r, m') \<longrightarrow> parsed C m ds r)"
proof (cases "slices C m ds")
  case (Inl e)
  then show ?thesis by (simp add: parse_request_def prog_defs)
next
  case (Inr ss)
  have len: "sum_list (map vs_len ss) = chain_length ds"
    using slices_total_length [OF assms(1) Inr] by (simp add: chain_length_def)
  show ?thesis
  proof (cases "try_sum (map (\<lambda>d. unat (d_len d)) ds) 0")
    case None
    with Inr show ?thesis by (simp add: parse_request_def prog_defs)
  next
    case (Some k)
    have k: "k = chain_length ds" "k < 2 ^ 64"
      using try_sum_Some [OF Some] try_sum_bound [OF Some] by (simp_all add: chain_length_def)
    show ?thesis
    proof (cases "k < 16")
      case True
      with Inr Some show ?thesis by (simp add: parse_request_def prog_defs)
    next
      case False
      obtain h m1 where h: "copy_to C ss 16 m = (Ok h, m1)"
        using copy_to_total [OF assms(3), of 16 ss m] False k len by auto
      obtain ts where ts: "range_slices C ss 16 (k - 16) = Ok ts"
        "all_cells ts = take (k - 16) (drop 16 (all_cells ss))" "\<forall>t \<in> set ts. 0 < vs_len t"
        using range_from_spec [OF assms(2), of 16 "k - 16" ss "[]"] False k len
        by (auto simp: range_slices_def)
      have "all_cells ts = drop 16 (all_cells ss)" "length (all_cells ss) = k"
        using ts(2) len k by (simp_all add: length_all_cells)
      with Inr Some False h ts k show ?thesis
        by (auto simp: parse_request_def prog_defs Let_def parsed_def split: result.splits)
    qed
  qed
qed

section \<open>No request panics\<close>

lemma no_panic_lift_storage [no_panic_intros]: "no_panic f \<Longrightarrow> no_panic (lift_storage f)"
  by (simp add: no_panic_def lift_storage_def split: prod.splits) (metis fst_conv)

context block_storage
begin

lemma flush_backend_no_panic [no_panic_intros]: "no_panic (flush_backend B)"
  using flush_returns
  by (auto simp: no_panic_def flush_backend_def lift_storage_def split: prod.splits) (metis fst_conv)

lemma read_no_panic [no_panic_intros]: "no_panic (bs_read B off segs)"
  using read_returns by (auto simp: no_panic_def)

lemma write_no_panic [no_panic_intros]: "no_panic (bs_write B off segs)"
  using write_returns by (auto simp: no_panic_def)

lemma block_transfer_no_panic: "no_panic (block_transfer B neg r)"
  unfolding block_transfer_def Let_def by (intro no_panic_intros) auto

lemma dispatch_no_panic:
  assumes "length ident = 20" and "sum_list (map vs_len (buffers r)) = payload r"
  shows "no_panic (dispatch C B ident neg r)"
proof -
  have "no_panic (copy_from C (buffers r) ident)" if "20 \<le> payload r"
  proof -
    have "fst (copy_from C (buffers r) ident m) \<noteq> Panic" for m
      using copy_from_total [of ident "buffers r" C m] assms that by auto
    then show ?thesis by (simp add: no_panic_def)
  qed
  then show ?thesis
    unfolding dispatch_def by (intro no_panic_intros block_transfer_no_panic) auto
qed

lemma execute_no_panic:
  assumes "get_slices_law C" and "subslice_law C" and "copy_to_law C" and "length ident = 20"
  shows "no_panic (execute C B ident ds neg)"
proof -
  have "fst (bnd (zoom_snd (parse_request C ds)) (\<lambda>r. dispatch C B ident neg r) x) \<noteq> Panic" for x
  proof (rule no_panic_bnd_result)
    have "no_panic (parse_request C ds)"
      using parse_request_spec [OF assms(1-3)] by (simp add: no_panic_def)
    then show "fst (zoom_snd (parse_request C ds) x) \<noteq> Panic"
      by (rule no_panic_zoom_snd [unfolded no_panic_def [of "zoom_snd _"], THEN spec])
  next
    fix r x'
    assume "zoom_snd (parse_request C ds) x = (Ok r, x')"
    then have "parsed C (snd x) ds r"
      using parse_request_spec [OF assms(1-3)] by (auto simp: zoom_snd_def split: prod.splits)
    then have "sum_list (map vs_len (buffers r)) = payload r"
      by (auto simp: parsed_def length_all_cells [symmetric])
    from dispatch_no_panic [OF assms(4) this, of C neg]
    show "fst (dispatch C B ident neg r x') \<noteq> Panic" unfolding no_panic_def by blast
  qed
  then show ?thesis by (simp add: no_panic_def execute_def)
qed

lemma block_request_no_panic:
  assumes "get_slices_law C" and "subslice_law C" and "copy_to_law C" and "length ident = 20"
  shows "no_panic (block_request C B ident ds neg)"
proof -
  have "no_panic (\<lambda>x. case execute C B ident req neg x of
      (Ok v, x') \<Rightarrow> (Ok v, x') | (Err e, x') \<Rightarrow> (Ok (BLK_S_IOERR, 1), x') | (Panic, x') \<Rightarrow> (Panic, x'))" for req
    using no_panicD [OF execute_no_panic [OF assms]]
    by (auto simp: no_panic_def split: prod.splits result.splits)
  then show ?thesis
    unfolding block_request_def Let_def by (intro no_panic_intros) auto
qed

section \<open>What a request keeps\<close>

lemma lift_storage_geometry [keeps_intros]:
  "keeps R f \<Longrightarrow> keeps R (lift_storage f)"
  by (auto simp: keeps_def lift_storage_def split: prod.splits) (metis snd_conv)

lemma zoom_geometry [keeps_intros]: "keeps (same_geometry B) (zoom_snd f)"
  by (auto simp: keeps_def zoom_snd_def same_geometry_def split: prod.splits)

lemma flush_backend_geometry [keeps_intros]: "keeps (same_geometry B) (flush_backend B)"
proof -
  have "same_geometry B (s, m) (snd (flush_backend B (s, m)))" for s m
    using lift_storage_geometry [OF flush_geometry, THEN keepsD, of s]
    by (cases "lift_storage (bs_flush B) s") (simp add: flush_backend_def same_geometry_def same_disk_def)
  then show ?thesis by (auto simp: keeps_def)
qed

lemma execute_geometry: "keeps (same_geometry B) (execute C B ident ds neg)"
  unfolding execute_def dispatch_def block_transfer_def Let_def
  by (intro keeps_intros read_geometry write_geometry) simp_all

lemma block_request_geometry: "keeps (same_geometry B) (block_request C B ident ds neg)"
proof -
  have "keeps (same_geometry B) (\<lambda>x. case execute C B ident req neg x of
      (Ok v, x') \<Rightarrow> (Ok v, x') | (Err e, x') \<Rightarrow> (Ok (BLK_S_IOERR, 1), x') | (Panic, x') \<Rightarrow> (Panic, x'))" for req
    using execute_geometry [of C ident req neg]
    by (auto simp: keeps_def split: prod.splits result.splits) (metis snd_conv)+
  then show ?thesis
    unfolding block_request_def Let_def by (intro keeps_intros) simp_all
qed


lemma on_backend_frame:
  assumes "keeps (same_geometry B) f"
  shows "keeps (op_frame (block_ops_of C B)) (on_backend f)"
proof -
  have "op_frame (block_ops_of C B) (b, qs, m) (snd (on_backend f (b, qs, m)))" for b qs m
    using assms [THEN keepsD, of "(bdisk b, m)"]
    by (cases "f (bdisk b, m)")
      (auto simp: on_backend_def op_frame_def identity_def block_ops_of_def block_features_def same_geometry_def)
  then show ?thesis by (auto simp: keeps_def)
qed

end

context block_storage
begin

lemma block_notify_frame: "keeps (op_frame (block_ops_of C B)) (block_notify C B i)"
  unfolding block_notify_def block_serve_def
  by (intro keeps_bnd keeps_loop_upto keeps_ret keeps_throw keeps_get keeps_case_option keeps_case_prod
      zoom_op_frame queue_op_frames on_backend_frame block_request_geometry op_frame_reflp op_frame_transp)

lemma block_flush_identity:
  "keeps (\<lambda>b b'. identity (block_ops_of C B) b' = identity (block_ops_of C B) b) (block_flush B)"
proof -
  have "identity (block_ops_of C B) (snd (block_flush B b)) = identity (block_ops_of C B) b" for b
    using lift_storage_geometry [OF flush_geometry, THEN keepsD, of "bdisk b"]
    by (cases "lift_storage (bs_flush B) (bdisk b)")
      (simp add: block_flush_def identity_def block_ops_of_def block_features_def same_disk_def)
  then show ?thesis by (simp add: keeps_def)
qed

end

sublocale block_storage \<subseteq> blk: virtio_device "block_ops_of C B" for C
proof
  show "keeps (op_frame (block_ops_of C B)) (vd_notify (block_ops_of C B) i)" for i
    using block_notify_frame [of C i] by (simp add: block_ops_of_def)
  show "keeps (op_frame (block_ops_of C B)) (vd_poll (block_ops_of C B))"
    by (simp add: block_ops_of_def keeps_ret)
  show "keeps (\<lambda>d d'. identity (block_ops_of C B) d' = identity (block_ops_of C B) d) (vd_reset (block_ops_of C B))"
    "keeps (\<lambda>d d'. identity (block_ops_of C B) d' = identity (block_ops_of C B) d) (vd_flush (block_ops_of C B))"
    using block_flush_identity [of C] by (simp_all add: block_ops_of_def)
qed (simp add: block_ops_of_def)

section \<open>The backend accesses of a request\<close>

text \<open>A backend that records the calls it receives.\<close>

datatype disk_op = ReadOp u64 "vslice list" | WriteOp u64 "vslice list" | FlushOp

definition logged :: "('s, 'm) block_ops \<Rightarrow> ('s \<times> disk_op list, 'm) block_ops" where
  "logged B = \<lparr>bs_size = (\<lambda>(s, l). bs_size B s), bs_read_only = (\<lambda>(s, l). bs_read_only B s),
     bs_read = (\<lambda>off segs ((s, l), m). case bs_read B off segs (s, m) of
       (r, s', m') \<Rightarrow> (r, (s', l @ [ReadOp off segs]), m')),
     bs_write = (\<lambda>off segs ((s, l), m). case bs_write B off segs (s, m) of
       (r, s', m') \<Rightarrow> (r, (s', l @ [WriteOp off segs]), m')),
     bs_flush = (\<lambda>(s, l). case bs_flush B s of (r, s') \<Rightarrow> (r, (s', l @ [FlushOp])))\<rparr>"

text \<open>An access of a data request: whole sectors, inside the disk.\<close>

definition access_ok :: "u64 \<Rightarrow> u64 \<Rightarrow> nat \<Rightarrow> bool" where
  "access_ok capacity off len \<longleftrightarrow> 512 dvd unat off \<and> 512 dvd len \<and> unat off + len \<le> unat capacity"

definition transfer_log :: "('s, 'm) block_ops \<Rightarrow> 's \<Rightarrow> request \<Rightarrow> disk_op list \<Rightarrow> bool" where
  "transfer_log B s r log \<longleftrightarrow> log = [] \<or> (\<exists>off. access_ok (bs_size B s) off (payload r) \<and>
     (log = [ReadOp off (buffers r)] \<or>
      \<not> bs_read_only B s \<and> log \<in> {[WriteOp off (buffers r)], [WriteOp off (buffers r), FlushOp]}))"

lemma block_transfer_log:
  assumes "payload r < 2 ^ 64" and "block_transfer (logged B) neg r ((s, []), m) = (res, (s', log), m')"
  shows "transfer_log B s r log"
proof -
  let ?read = "kind r = BLK_T_IN"
  show ?thesis
  proof (cases "list_all (\<lambda>d. d_write_only d = ?read) (data r) \<and> payload r mod 512 = 0 \<and>
      (?read \<or> \<not> bs_read_only B s) \<and> is_ok (used_length ?read (payload r)) \<and>
      is_ok (ok_or (checked_mul (sector r) 512) (DeviceError.SectorOverflow (sector r))) \<and>
      is_ok (bounds (bs_size B s) (the (checked_mul (sector r) 512)) (payload r))")
    case False
    then have "log = []"
      using assms(2)
      by (auto simp: block_transfer_def Let_def prog_defs logged_def split: if_splits result.splits)
    then show ?thesis by (simp add: transfer_log_def)
  next
    case True
    then obtain off used where off: "checked_mul (sector r) 512 = Some off"
      and used: "used_length ?read (payload r) = Ok used" and b: "bounds (bs_size B s) off (payload r) = Ok ()"
      by (cases "checked_mul (sector r) 512"; cases "used_length ?read (payload r)") (auto elim: is_ok.elims)
    have acc: "access_ok (bs_size B s) off (payload r)"
      using checked_mul_Some [OF off] bounds_Ok_iff [OF assms(1)] b True
      by (auto simp: access_ok_def)
    have "log = [ReadOp off (buffers r)] \<or>
        \<not> bs_read_only B s \<and> log \<in> {[WriteOp off (buffers r)], [WriteOp off (buffers r), FlushOp]}"
      using assms(2) True off used b
      by (auto simp: block_transfer_def Let_def prog_defs logged_def lift_storage_def flush_backend_def
          split: if_splits result.splits prod.splits)
    with acc show ?thesis by (auto simp: transfer_log_def)
  qed
qed

lemma dispatch_log:
  assumes "payload r < 2 ^ 64" and "dispatch C (logged B) ident neg r ((s, []), m) = (res, (s', log), m')"
  shows "transfer_log B s r log \<or> log = [FlushOp]"
proof (cases "kind r = BLK_T_IN \<or> kind r = BLK_T_OUT")
  case True
  with assms block_transfer_log show ?thesis by (auto simp: dispatch_def)
next
  case False
  with assms(2) have "log = [] \<or> log = [FlushOp]"
    by (auto simp: dispatch_def prog_defs logged_def lift_storage_def flush_backend_def
        split: if_splits result.splits prod.splits)
  then show ?thesis by (auto simp: transfer_log_def)
qed

lemma execute_log:
  assumes "get_slices_law C" and "subslice_law C" and "copy_to_law C"
    and "execute C (logged B) ident ds neg ((s, []), m) = (res, (s', log), m')"
  shows "log = [] \<or> log = [FlushOp] \<or> (\<exists>r. parsed C m ds r \<and> transfer_log B s r log)"
proof -
  obtain pr m1 where p: "parse_request C ds m = (pr, m1)" by fastforce
  show ?thesis
  proof (cases pr)
    case (Ok r)
    with p parse_request_spec [OF assms(1-3), of ds m] have r: "parsed C m ds r" by auto
    have "dispatch C (logged B) ident neg r ((s, []), m1) = (res, (s', log), m')"
      using assms(4) p Ok by (simp add: execute_def bnd_def zoom_snd_def)
    then have "transfer_log B s r log \<or> log = [FlushOp]"
      using r by (intro dispatch_log [of r C B ident neg s m1 res s' log m']) (simp_all add: parsed_def)
    with r show ?thesis by blast
  qed (use assms(4) p in \<open>auto simp: execute_def bnd_def zoom_snd_def\<close>)
qed

lemma block_request_log:
  assumes "get_slices_law C" and "subslice_law C" and "copy_to_law C"
    and "block_request C (logged B) ident ds neg ((s, []), m) = (res, (s', log), m')"
  shows "log = [] \<or> log = [FlushOp] \<or> (\<exists>r. parsed C m (butlast ds) r \<and> transfer_log B s r log)"
proof -
  obtain er s1 log1 m1 where e: "execute C (logged B) ident (butlast ds) neg ((s, []), m) = (er, (s1, log1), m1)"
    by (metis surj_pair)
  have "log = [] \<or> log = log1"
    using assms(4) e
    by (cases er) (auto simp: block_request_def Let_def prog_defs split: if_splits prod.splits result.splits)
  with execute_log [OF assms(1-3) e] show ?thesis by auto
qed

section \<open>Errors of a request\<close>

lemma guest_block_request: "guest_errors (block_request C B ident ds neg)"
proof -
  have "guest_errors (\<lambda>x. case execute C B ident req neg x of
      (Ok v, x') \<Rightarrow> (Ok v, x') | (Err e, x') \<Rightarrow> (Ok (BLK_S_IOERR, 1), x') | (Panic, x') \<Rightarrow> (Panic, x'))" for req
    by (auto simp: guest_errors_def split: prod.splits result.splits)
  then show ?thesis
    unfolding block_request_def Let_def by (intro guest_intros) simp_all
qed

lemma guest_on_backend [guest_intros]: "guest_errors f \<Longrightarrow> guest_errors (on_backend f)"
  by (auto simp: guest_errors_def on_backend_def split: prod.splits) metis

lemma guest_block_notify: "guest_errors (block_notify C B i)"
  unfolding block_notify_def block_serve_def
  by (intro guest_intros guest_block_request) simp_all

section \<open>Notifications do not panic\<close>

definition block_ready :: "'s block \<times> 'q queues \<times> 'm \<Rightarrow> bool" where
  "block_ready = (\<lambda>(b, qs, m). 0 < length (rings qs) \<and> length (bid b) = 20)"

definition ready_frame :: "'s block \<times> 'q queues \<times> 'm \<Rightarrow> 's block \<times> 'q queues \<times> 'm \<Rightarrow> bool" where
  "ready_frame = (\<lambda>(b, qs, m) (b', qs', m'). bid b' = bid b \<and> queues_frame qs qs')"

lemma ready_frame_ready: "ready_frame x y \<Longrightarrow> block_ready x \<Longrightarrow> block_ready y"
  by (auto simp: ready_frame_def block_ready_def queues_frame_def)

lemma zoom_ready_frame:
  assumes "keeps queue_frame f"
  shows "keeps ready_frame (zoom_snd f)"
proof -
  have "ready_frame (d, qs, m) (snd (zoom_snd f (d, qs, m)))" for d qs m
    using assms [THEN keepsD, of "(qs, m)"]
    by (cases "f (qs, m)") (auto simp: zoom_snd_def ready_frame_def)
  then show ?thesis by (auto simp: keeps_def)
qed

lemma on_backend_ready_frame: "keeps ready_frame (on_backend f)"
  by (auto simp: keeps_def on_backend_def ready_frame_def split: prod.splits)

lemma hoare_frame:
  "(\<And>s. P s \<Longrightarrow> fst (f s) \<noteq> Panic) \<Longrightarrow> keeps R f \<Longrightarrow> (\<And>s s'. R s s' \<Longrightarrow> P s \<Longrightarrow> P s') \<Longrightarrow>
    hoare P f (\<lambda>_. P) (\<lambda>_ _. True)"
  by (rule hoareI) (auto dest: keepsD, metis fst_conv)

lemma hoare_zoom_ready:
  assumes "keeps queue_frame f" and "\<And>qs m. 0 < length (rings qs) \<Longrightarrow> fst (f (qs, m)) \<noteq> Panic"
  shows "hoare block_ready (zoom_snd f) (\<lambda>_. block_ready) (\<lambda>_ _. True)"
proof (rule hoare_frame [OF _ zoom_ready_frame [OF assms(1)] ready_frame_ready])
  show "fst (zoom_snd f x) \<noteq> Panic" if "block_ready x" for x
  proof (cases x)
    case (fields b qs m)
    with assms(2) [of qs m] that show ?thesis
      by (auto simp: block_ready_def zoom_snd_def split: prod.splits)
  qed
qed

context block_storage
begin

lemma block_serve_ready:
  assumes "get_slices_law C" and "subslice_law C" and "copy_to_law C"
  shows "hoare block_ready (block_serve C B) (\<lambda>_. block_ready) (\<lambda>_ _. True)"
proof -
  have req: "hoare (\<lambda>x. x = s \<and> block_ready x) (on_backend (block_request C B (bid (fst s)) ds neg))
      (\<lambda>_. block_ready) (\<lambda>_ _. True)" for s ds neg
  proof (rule hoareI)
    fix x assume "x = s \<and> block_ready x"
    then have "length (bid (fst s)) = 20" by (auto simp: block_ready_def)
    from no_panicD [OF block_request_no_panic [OF assms this]]
    show "on_backend (block_request C B (bid (fst s)) ds neg) x \<noteq> (Panic, x')" for x'
      by (cases x) (auto simp: on_backend_def split: prod.splits)
  qed (auto intro: ready_frame_ready dest: keepsD [OF on_backend_ready_frame])
  have get: "hoare block_ready get_state (\<lambda>y x. x = y \<and> block_ready x) (\<lambda>_ _. True)"
    by (auto simp: hoare_def get_state_def)
  show ?thesis
    unfolding block_serve_def
  proof (rule hoare_bnd [OF hoare_zoom_ready], goal_cases)
    case (3 x)
    show ?case
    proof (intro hoare_intros, goal_cases)
      case (2 ch)
      show ?case
      proof (rule hoare_bnd [OF get], goal_cases)
        case (1 y)
        obtain b qs m where y: "y = (b, qs, m)" by (cases y)
        show ?case
          unfolding y prod.case
          by (rule hoare_bnd [OF req [of "(b, qs, m)", unfolded fst_conv] hoare_zoom_ready])
            (simp_all only: complete_frame complete_no_panic simp_thms)
      qed
    qed simp
  qed (simp_all only: pop_frame pop_no_panic simp_thms)
qed

lemma block_notify_ready:
  assumes "get_slices_law C" and "subslice_law C" and "copy_to_law C"
  shows "hoare block_ready (block_notify C B i) (\<lambda>_. block_ready) (\<lambda>_ _. True)"
  unfolding block_notify_def
  by (intro hoare_bnd [OF hoare_zoom_ready] hoare_loop_upto hoare_bnd [OF block_serve_ready [OF assms]] hoare_ret)
    (simp_all only: available_frame available_no_panic simp_thms)

end

lemma block_new_ready: "block_new name d = Ok b \<Longrightarrow> length (bid b) = 20 \<and> bdisk b = d"
  by (auto simp: block_new_def split: if_splits)

lemma block_transfer_write_through:
  assumes "block_transfer (logged B) neg r ((s, []), m) = (Ok v, (s', log), m')"
    and "neg AND BLK_F_FLUSH = 0" and "WriteOp off segs \<in> set log"
  shows "last log = FlushOp"
  using assms
  by (auto simp: block_transfer_def Let_def prog_defs logged_def lift_storage_def flush_backend_def
      split: if_splits result.splits prod.splits)

lemma name_byte_nonzero: "name_byte c \<Longrightarrow> (of_char c :: nat) \<noteq> 0 \<and> (of_char c :: nat) < 256"
  by (auto simp: name_byte_def less_eq_char_def)

lemma byte_of_char: "(of_char c :: nat) < 256 \<Longrightarrow> unat (word_of_nat (of_char c) :: u8) = of_char c"
  by (simp add: unat_of_nat take_bit_eq_mod)

section \<open>Properties\<close>

text \<open>C20. Whatever chain a guest submits, a request reaches the backend only as one access of
  whole sectors inside the capacity, over exactly the chain's bytes after its 16-byte header; a
  write reaches only a writable disk. At most one data access is made per request, and everything
  else is rejected before the backend is touched (or is a plain flush).\<close>

theorem block_request_accesses:
  assumes "get_slices_law C" and "subslice_law C" and "copy_to_law C"
    and "block_request C (logged B) ident ds neg ((s, []), m) = (res, (s', log), m')"
  shows "log = [] \<or> log = [FlushOp] \<or>
    (\<exists>off segs ss. slices C m (butlast ds) = Inr ss \<and> all_cells segs = drop 16 (all_cells ss) \<and>
      access_ok (bs_size B s) off (length (all_cells segs)) \<and>
      (log = [ReadOp off segs] \<or>
       \<not> bs_read_only B s \<and> log \<in> {[WriteOp off segs], [WriteOp off segs, FlushOp]}))"
  using block_request_log [OF assms] by (auto simp: parsed_def transfer_log_def)

text \<open>A notification never brings the machine down: for a disk-backed block device with its
  queue, serving the queue does not panic on any chain, and every error it returns is one the
  guest caused. Failures of the disk itself are reported to the guest as \<open>IOERR\<close>.\<close>

theorem block_notify_contained:
  assumes "get_slices_law C" and "subslice_law C" and "copy_to_law C"
    and "block_new name d = Ok b" and "0 < length (rings qs)"
  shows "case block_notify C (disk_ops I) i (b\<lparr>bdisk := d'\<rparr>, qs, m) of
      (Ok u, b', qs', m') \<Rightarrow> length (rings qs') = length (rings qs)
    | (Err e, s') \<Rightarrow> is_guest e | (Panic, s') \<Rightarrow> False"
proof -
  let ?x = "(b\<lparr>bdisk := d'\<rparr>, qs, m)"
  have ready: "block_ready ?x" using block_new_ready [OF assms(4)] assms(5) by (simp add: block_ready_def)
  obtain r b' qs' m' where n: "block_notify C (disk_ops I) i ?x = (r, b', qs', m')" by (metis prod_cases4)
  have "op_frame (block_ops_of C (disk_ops I)) ?x (b', qs', m')"
    by (rule keepsD [OF disk.block_notify_frame n])
  moreover have "fst (block_notify C (disk_ops I) i ?x) \<noteq> Panic"
    by (rule hoare_no_panic [OF disk.block_notify_ready [OF assms(1-3)] ready])
  then have "r \<noteq> Panic" by (simp add: n)
  moreover have "is_guest e" if "r = Err e" for e
    using guest_block_notify [of C "disk_ops I" i] n that unfolding guest_errors_def by blast
  ultimately show ?thesis unfolding n by (cases r) (simp_all add: op_frame_def queues_frame_def)
qed

text \<open>C21. Write-through: when the driver did not negotiate flush, a write request is acknowledged
  with success only after the backend was flushed behind it.\<close>

theorem write_through_without_flush:
  assumes "execute C (logged B) ident ds neg ((s, []), m) = (Ok v, (s', log), m')"
    and "neg AND BLK_F_FLUSH = 0" and "WriteOp off segs \<in> set log"
  shows "last log = FlushOp"
proof -
  obtain pr m1 where p: "parse_request C ds m = (pr, m1)" by fastforce
  with assms(1) obtain r where r: "pr = Ok r" by (cases pr) (auto simp: execute_def bnd_def zoom_snd_def)
  with assms(1) p have d: "dispatch C (logged B) ident neg r ((s, []), m1) = (Ok v, (s', log), m')"
    by (simp add: execute_def bnd_def zoom_snd_def)
  show ?thesis
  proof (cases "kind r = BLK_T_IN \<or> kind r = BLK_T_OUT")
    case True
    with d have "block_transfer (logged B) neg r ((s, []), m1) = (Ok v, (s', log), m')" by (simp add: dispatch_def)
    from block_transfer_write_through [OF this assms(2,3)] show ?thesis .
  next
    case False
    with d assms(3) show ?thesis
      by (auto simp: dispatch_def prog_defs logged_def lift_storage_def flush_backend_def
          split: if_splits result.splits prod.splits)
  qed
qed

text \<open>The identifier a block device reports is its validated name: the name is recovered from
  the 20 identifier bytes up to the first zero.\<close>

theorem block_id_roundtrip:
  assumes "block_new name d = Ok b"
  shows "length (bid b) = 20 \<and> map (char_of \<circ> unat) (takeWhile (\<lambda>x. x \<noteq> 0) (bid b)) = name"
proof -
  from assms have nm: "list_all name_byte name" "length name \<le> 20"
    and id: "bid b = map (word_of_nat \<circ> of_char) name @ replicate (20 - length name) 0"
    by (auto simp: block_new_def put_bytes_def split: if_splits)
  have nz: "(word_of_nat (of_char c) :: u8) \<noteq> 0" if "c \<in> set name" for c
    using that nm(1) name_byte_nonzero [of c] byte_of_char [of c] by (auto simp: list_all_iff)
  have "takeWhile (\<lambda>x. x \<noteq> 0) (bid b) = map (word_of_nat \<circ> of_char) name"
    unfolding id using nz by (subst takeWhile_append2) (auto simp: takeWhile_eq_Nil_iff)
  moreover have "char_of (unat (word_of_nat (of_char c) :: u8)) = c" if "c \<in> set name" for c
    using that nm(1) name_byte_nonzero [of c] byte_of_char [of c] by (auto simp: list_all_iff)
  ultimately show ?thesis using id nm(2) by (simp add: map_idI)
qed

text \<open>The configuration space of a block device shows the capacity in sectors and the
  largest segment count, and zeros behind them.\<close>

theorem block_config_registers:
  "mmio_read C (block_ops_of C B) t 0x100 8 = Some (bs_size B (bdisk (device t)) div 512) \<and>
   mmio_read C (block_ops_of C B) t 0x10c 4 = Some 126 \<and>
   mmio_read C (block_ops_of C B) t 0x110 8 = Some 0"
proof -
  let ?n = "bs_size B (bdisk (device t)) div 512"
  let ?cfg = "put_bytes 12 (le_bytes 4 126) (put_bytes 0 (le_bytes 8 (unat ?n)) (replicate 16 0))"
  have len: "length ?cfg = 16" by simp
  have rc: "read_config ?cfg off n = sub_bytes off n ?cfg" if "off + n \<le> 16" for off n
    using that len by (auto simp: read_config_def sub_bytes_def list_eq_iff_nth_eq)
  have cap: "sub_bytes 0 8 ?cfg = le_bytes 8 (unat ?n)" by (simp add: sub_bytes_def put_bytes_def)
  have seg: "sub_bytes 12 4 ?cfg = le_bytes 4 126" by (simp add: sub_bytes_def put_bytes_def)
  have "read_config ?cfg 16 8 = replicate 8 0"
    using len by (simp add: read_config_def map_replicate_const)
  moreover have "unat ?n mod 256 ^ 8 = unat ?n" using unat_bound [of ?n] by simp
  moreover have "unat SEG_MAX = 126" by (simp add: SEG_MAX_def MAX_QUEUE_def)
  moreover have "le_nat (replicate 8 0) = 0" by (simp add: numeral_eq_Suc)
  ultimately show ?thesis
    by (simp add: mmio_read_def block_ops_of_def block_read_config_def rc cap seg le_nat_le_bytes
        del: le_bytes.simps)
qed

end
