(* ===== verification/Net.thy ===== *)
theory Net
  imports Buffers Mmio
begin

text \<open>
  The virtio network device, \<open>src/src/devices/net.rs\<close>, over any backend of the trait
  \<open>NetDevice\<close> (\<open>src/src/net.rs\<close>). A frame or receive buffer is either a list of guest slices or one
  of the device's own host buffers; a host buffer is passed by its bytes, and a receive returns
  its new bytes.
\<close>

section \<open>The backend\<close>

datatype frame = Guest "vslice list" | Host bytes

text \<open>The trait \<open>NetDevice\<close>. The second result of \<open>nd_recv\<close> is the content of a host buffer
  afterwards; for guest slices it is not used.\<close>

record ('n, 'm) net_ops =
  nd_mtu :: u16
  nd_mac_address :: "'n \<Rightarrow> bytes"
  nd_max_frame_len :: "'n \<Rightarrow> usize"
  nd_send :: "frame \<Rightarrow> ('n \<times> 'm, bool, NetError) prog"
  nd_recv :: "frame \<Rightarrow> ('n \<times> 'm, usize option \<times> bytes, NetError) prog"

definition net_box_ops :: "('n, 'm) net_ops \<Rightarrow> ('n, 'm) net_ops" where
  "net_box_ops N = \<lparr>nd_mtu = nd_mtu N, nd_mac_address = (\<lambda>n. nd_mac_address N n),
     nd_max_frame_len = (\<lambda>n. nd_max_frame_len N n), nd_send = (\<lambda>f. nd_send N f), nd_recv = (\<lambda>f. nd_recv N f)\<rparr>"

fun frame_len :: "frame \<Rightarrow> nat" where
  "frame_len (Guest ss) = sum_list (map vs_len ss)"
| "frame_len (Host bs) = length bs"

section \<open>The device\<close>

definition HEADER :: usize where
  "HEADER = 12"

definition BUDGET :: usize where
  "BUDGET = 64"

definition NET_F_MTU :: u64 where
  "NET_F_MTU = push_bit 3 1"

definition NET_F_MAC :: u64 where
  "NET_F_MAC = push_bit 5 1"

record 'n net =
  backend :: 'n
  nconfig :: bytes
  rx :: bytes
  pending_tx :: "u16 option"
  tx :: bytes

definition net_new :: "('n, 'm) net_ops \<Rightarrow> 'n \<Rightarrow> ('n net, DeviceError) result" where
  "net_new N n =
     (let max = nd_max_frame_len N n in
      if \<not> (nd_mtu N \<ge> 68 \<and> unat (nd_mtu N) + 14 \<le> max \<and> max \<le> 65535 + 18)
      then Err (DeviceError.InvalidNetworkMtuFrameCapacity (nd_mtu N) max)
      else
        let mac = nd_mac_address N n in
        if \<not> (mac ! 0 AND 1 = 0 \<and> mac \<noteq> replicate 6 0) then Err DeviceError.NetworkMacMustBeNonzeroUnicast
        else Ok \<lparr>backend = n,
               nconfig = put_bytes 10 (le_bytes 2 (unat (nd_mtu N))) (put_bytes 0 mac (replicate 12 0)),
               rx = replicate (HEADER + max) 0, pending_tx = None, tx = []\<rparr>)"

definition on_net ::
  "('n \<times> 'm, 'a, NetError) prog \<Rightarrow> ('n net \<times> 'q queues \<times> 'm, 'a, DeviceError) prog" where
  "on_net f = (\<lambda>(d, qs, m). case f (backend d, m) of
     (r, n, m') \<Rightarrow> (map_err DeviceError.Net r, d\<lparr>backend := n\<rparr>, qs, m'))"

definition on_memory :: "('m, 'a, DeviceError) prog \<Rightarrow> ('d \<times> 'q queues \<times> 'm, 'a, DeviceError) prog" where
  "on_memory f = zoom_snd (zoom_snd f)"

definition chain_total :: "DeviceError \<Rightarrow> chain \<Rightarrow> (usize, DeviceError) result" where
  "chain_total e ch = ok_or (try_sum (map (\<lambda>d. unat (d_len d)) (descriptors ch)) 0) e"

text \<open>The body of the loop of \<open>transmit\<close>: \<open>False\<close> is \<open>break\<close>.\<close>

definition transmit_pending ::
  "('q, 'm) crates \<Rightarrow> ('n, 'm) net_ops \<Rightarrow> u16 \<Rightarrow> bytes \<Rightarrow> ('n net \<times> 'q queues \<times> 'm, bool, DeviceError) prog" where
  "transmit_pending C N h frame =
     bnd (on_net (nd_send N (Host frame))) (\<lambda>sent.
     if \<not> sent then ret False
     else
     bnd (modify (\<lambda>(d, qs, m). (d\<lparr>pending_tx := None\<rparr>, qs, m))) (\<lambda>_.
     bnd (zoom_snd (complete C 1 h 0)) (\<lambda>_. ret True)))"

definition transmit_chain ::
  "('q, 'm) crates \<Rightarrow> ('n, 'm) net_ops \<Rightarrow> chain \<Rightarrow> ('n net \<times> 'q queues \<times> 'm, bool, DeviceError) prog" where
  "transmit_chain C N ch =
     (if \<not> list_all (\<lambda>d. \<not> d_write_only d) (descriptors ch) then throw DeviceError.TxDescriptorMustBeReadable
      else
      bnd (pure_res (chain_total DeviceError.TxLengthOverflow ch)) (\<lambda>len.
      bnd get_state (\<lambda>(d, qs, m).
      if \<not> (HEADER + 14 \<le> len \<and> len \<le> length (rx d))
      then throw (DeviceError.InvalidTxPacketSize len (length (rx d)))
      else
      bnd (pure_res (of_sum DeviceError.GuestAccess (slices C m (descriptors ch)))) (\<lambda>ss.
      bnd (on_memory (copy_to C ss HEADER)) (\<lambda>header.
      if header ! 0 \<noteq> 0 \<or> header ! 1 \<noteq> 0 then throw DeviceError.UnnegotiatedTxChecksumGsoOffload
      else
      bnd (pure_res (range_slices C ss HEADER (len - HEADER))) (\<lambda>payload.
      bnd (on_net (nd_send N (Guest payload))) (\<lambda>sent.
      if \<not> sent then
        bnd (on_memory (copy_to C payload (len - HEADER))) (\<lambda>bs.
        bnd (modify (\<lambda>(d, qs, m). (d\<lparr>tx := bs, pending_tx := Some (head ch)\<rparr>, qs, m))) (\<lambda>_.
        ret False))
      else
        bnd (zoom_snd (complete C 1 (head ch) 0)) (\<lambda>_. ret True)))))))) "

definition transmit_step ::
  "('q, 'm) crates \<Rightarrow> ('n, 'm) net_ops \<Rightarrow> ('n net \<times> 'q queues \<times> 'm, bool, DeviceError) prog" where
  "transmit_step C N =
     bnd get_state (\<lambda>(d, qs, m).
     case pending_tx d of
       Some h \<Rightarrow> transmit_pending C N h (tx d)
     | None \<Rightarrow>
         bnd (zoom_snd (pop C 1)) (\<lambda>next.
         case next of None \<Rightarrow> ret False | Some ch \<Rightarrow> transmit_chain C N ch))"

definition transmit ::
  "('q, 'm) crates \<Rightarrow> ('n, 'm) net_ops \<Rightarrow> ('n net \<times> 'q queues \<times> 'm, unit, DeviceError) prog" where
  "transmit C N =
     bnd get_state (\<lambda>(d, qs, m).
     if length (rings qs) \<le> 1 then panic
     else if \<not> cq_ready C (rings qs ! 1) then ret ()
     else loop_upto BUDGET (transmit_step C N))"

text \<open>Restore the position of the receive queue after a chain that was not used.\<close>

definition unpop :: "('q, 'm) crates \<Rightarrow> 'q queues \<Rightarrow> 'q queues" where
  "unpop C qs = qs\<lparr>rings := (rings qs)[0 :=
     cq_set_next_avail C (cq_next_avail C (rings qs ! 0) - 1) (rings qs ! 0)]\<rparr>"

definition receive_frame ::
  "('q, 'm) crates \<Rightarrow> ('n, 'm) net_ops \<Rightarrow> bool \<Rightarrow> vslice list \<Rightarrow> ('n net \<times> 'q queues \<times> 'm, usize option, DeviceError) prog" where
  "receive_frame C N direct ss =
     bnd get_state (\<lambda>(d, qs, m).
     if direct then
       bnd (pure_res (range_slices C ss HEADER (length (rx d) - HEADER))) (\<lambda>payload.
       bnd (on_net (nd_recv N (Guest payload))) (\<lambda>(result, _). ret result))
     else if length (rx d) < HEADER then panic
     else
       bnd (on_net (nd_recv N (Host (drop HEADER (rx d))))) (\<lambda>(result, bs).
       bnd (modify (\<lambda>(d, qs, m). (d\<lparr>rx := take HEADER (rx d) @ bs\<rparr>, qs, m))) (\<lambda>_.
       ret result)))"

definition rx_header :: bytes where
  "rx_header = put_bytes 10 (le_bytes 2 1) (replicate 12 0)"

definition deliver ::
  "('q, 'm) crates \<Rightarrow> bool \<Rightarrow> vslice list \<Rightarrow> u16 \<Rightarrow> usize \<Rightarrow> ('n net \<times> 'q queues \<times> 'm, bool, DeviceError) prog" where
  "deliver C direct ss h len =
     bnd (if direct then on_memory (copy_from C ss rx_header)
          else
          bnd (modify (\<lambda>(d, qs, m). (d\<lparr>rx := put_bytes 0 rx_header (rx d)\<rparr>, qs, m))) (\<lambda>_.
          bnd get_state (\<lambda>(d, qs, m). on_memory (copy_from C ss (take len (rx d)))))) (\<lambda>_.
     bnd (zoom_snd (complete C 0 h (word_of_nat len))) (\<lambda>_. ret True))"

definition receive_chain ::
  "('q, 'm) crates \<Rightarrow> ('n, 'm) net_ops \<Rightarrow> chain \<Rightarrow> ('n net \<times> 'q queues \<times> 'm, bool, DeviceError) prog" where
  "receive_chain C N ch =
     (if \<not> list_all d_write_only (descriptors ch) then throw DeviceError.RxDescriptorMustBeWritable
      else
      bnd (pure_res (chain_total DeviceError.RxLengthOverflow ch)) (\<lambda>capacity.
      bnd get_state (\<lambda>(d, qs, m).
      bnd (pure_res (of_sum DeviceError.GuestAccess (slices C m (descriptors ch)))) (\<lambda>ss.
      let direct = (length (rx d) \<le> capacity \<and> \<not> overlaps ss) in
      bnd (receive_frame C N direct ss) (\<lambda>result.
      case result of
        None \<Rightarrow> bnd (modify (\<lambda>(d, qs, m). (d, unpop C qs, m))) (\<lambda>_. ret False)
      | Some len \<Rightarrow>
          bnd get_state (\<lambda>(d, qs, m).
          if \<not> (14 \<le> len \<and> len \<le> length (rx d) - HEADER)
          then throw (DeviceError.InvalidBackendRxPacketSize len (length (rx d) - HEADER))
          else if capacity < HEADER + len then
            bnd (zoom_snd (complete C 0 (head ch) 0)) (\<lambda>_. ret True)
          else deliver C direct ss (head ch) (HEADER + len)))))))"

definition receive_step ::
  "('q, 'm) crates \<Rightarrow> ('n, 'm) net_ops \<Rightarrow> ('n net \<times> 'q queues \<times> 'm, bool, DeviceError) prog" where
  "receive_step C N =
     bnd (zoom_snd (pop C 0)) (\<lambda>next.
     case next of None \<Rightarrow> ret False | Some ch \<Rightarrow> receive_chain C N ch)"

definition receive ::
  "('q, 'm) crates \<Rightarrow> ('n, 'm) net_ops \<Rightarrow> ('n net \<times> 'q queues \<times> 'm, unit, DeviceError) prog" where
  "receive C N = loop_upto BUDGET (receive_step C N)"

definition net_device_id :: u32 where
  "net_device_id = 1"

definition net_features :: u64 where
  "net_features = NET_F_MAC OR NET_F_MTU"

definition net_notify ::
  "('q, 'm) crates \<Rightarrow> ('n, 'm) net_ops \<Rightarrow> usize \<Rightarrow> ('n net \<times> 'q queues \<times> 'm, unit, DeviceError) prog" where
  "net_notify C N queue =
     (if queue = 0 then receive C N else if queue = 1 then transmit C N else panic)"

definition net_poll ::
  "('q, 'm) crates \<Rightarrow> ('n, 'm) net_ops \<Rightarrow> ('n net \<times> 'q queues \<times> 'm, unit, DeviceError) prog" where
  "net_poll C N = bnd (transmit C N) (\<lambda>_. receive C N)"

definition net_reset :: "('n net, unit, DeviceError) prog" where
  "net_reset = modify (\<lambda>d. d\<lparr>pending_tx := None, tx := []\<rparr>)"

definition net_ops_of ::
  "('q, 'm) crates \<Rightarrow> ('n, 'm) net_ops \<Rightarrow> ('n net, 'q, 'm) virtio_ops" where
  "net_ops_of C N = \<lparr>vd_required_features = (\<lambda>d. 0), vd_generation = (\<lambda>d. 0),
     vd_device_id = (\<lambda>d. net_device_id), vd_features = (\<lambda>d. net_features), vd_queue_count = (\<lambda>d. 2),
     vd_read_config = (\<lambda>d. read_config (nconfig d)), vd_notify = net_notify C N, vd_poll = net_poll C N,
     vd_reset = net_reset, vd_flush = ret ()\<rparr>"

section \<open>The contract between device and backend\<close>

text \<open>Rules for triples whose precondition is kept along the way.\<close>

lemma hoare_get_bnd: "(\<And>y. P y \<Longrightarrow> hoare P (g y) R E) \<Longrightarrow> hoare P (bnd get_state g) R E"
  unfolding hoare_def bnd_def get_state_def by (auto split: prod.splits)

lemma hoare_pure_bnd:
  "r \<noteq> Panic \<Longrightarrow> (\<And>x. r = Ok x \<Longrightarrow> hoare P (g x) R E) \<Longrightarrow> (\<And>e s. r = Err e \<Longrightarrow> P s \<Longrightarrow> E e s) \<Longrightarrow>
    hoare P (bnd (pure_res r) g) R E"
  by (cases r) (auto simp: hoare_def bnd_def pure_res_def split: prod.splits)

lemma hoare_pure_pre: "(F \<Longrightarrow> hoare P f Q E) \<Longrightarrow> hoare (\<lambda>s. P s \<and> F) f Q E"
  by (auto simp: hoare_def)

lemma hoare_case_prod: "(\<And>a b. x = (a, b) \<Longrightarrow> hoare P (f a b) Q E) \<Longrightarrow> hoare P (case x of (a, b) \<Rightarrow> f a b) Q E"
  by (cases x) simp

text \<open>The errors a network device returns: the guest's, and those of its backend.\<close>

definition net_error :: "DeviceError \<Rightarrow> bool" where
  "net_error e \<longleftrightarrow> is_guest e \<or> (\<exists>x. e = DeviceError.Net x) \<or> (\<exists>a b. e = DeviceError.InvalidBackendRxPacketSize a b)"

text \<open>The device offers only frames of 14 to \<open>K\<close> bytes and receive buffers of exactly \<open>K\<close>; in
  return the backend does not panic, keeps its own invariant \<open>I\<close> and does not resize a buffer.\<close>

locale net_backend =
  fixes N :: "('n, 'm) net_ops" and I :: "'n \<Rightarrow> bool" and K :: nat
  assumes send: "14 \<le> frame_len f \<Longrightarrow> frame_len f \<le> K \<Longrightarrow>
      hoare (\<lambda>(n, m). I n) (nd_send N f) (\<lambda>_ (n, m). I n) (\<lambda>_ (n, m). I n)"
    and recv: "frame_len f = K \<Longrightarrow>
      hoare (\<lambda>(n, m). I n) (nd_recv N f)
        (\<lambda>r (n, m). I n \<and> (\<forall>b. f = Host b \<longrightarrow> length (snd r) = length b)) (\<lambda>_ (n, m). I n)"
begin

definition net_safe :: "'n net \<times> 'q queues \<times> 'm \<Rightarrow> bool" where
  "net_safe = (\<lambda>(d, qs, m). 2 \<le> length (rings qs) \<and> length (rx d) = HEADER + K \<and> 14 \<le> K \<and> I (backend d) \<and>
     (pending_tx d \<noteq> None \<longrightarrow> 14 \<le> length (tx d) \<and> length (tx d) \<le> K))"

definition net_fail :: "DeviceError \<Rightarrow> 'n net \<times> 'q queues \<times> 'm \<Rightarrow> bool" where
  "net_fail e s \<longleftrightarrow> net_safe s \<and> net_error e"

lemma hoare_on_net:
  assumes "hoare (\<lambda>(n, m). I n) f (\<lambda>r (n, m). I n \<and> F r) (\<lambda>_ (n, m). I n)"
  shows "hoare net_safe (on_net f) (\<lambda>r s. net_safe s \<and> F r) net_fail"
proof -
  have "case on_net f (d, qs, m) of (Ok r, s) \<Rightarrow> net_safe s \<and> F r | (Err e, s) \<Rightarrow> net_fail e s | (Panic, s) \<Rightarrow> False"
    if safe: "net_safe (d, qs, m)" for d qs m
  proof -
    obtain r n m' where f: "f (backend d, m) = (r, n, m')" by (metis prod_cases3)
    have pre: "(\<lambda>(n, m). I n) (backend d, m)" using safe by (simp add: net_safe_def)
    have post: "net_safe (d\<lparr>backend := n\<rparr>, qs, m')" if "I n" using safe that by (simp add: net_safe_def)
    show ?thesis
    proof (cases r)
      case (Ok x)
      with hoare_Ok [OF assms pre] f post show ?thesis by (simp add: on_net_def)
    next
      case (Err e)
      with hoare_Err [OF assms pre] f post show ?thesis by (simp add: on_net_def net_fail_def net_error_def)
    next
      case Panic
      with hoare_no_panic [OF assms pre] f show ?thesis by simp
    qed
  qed
  then show ?thesis unfolding hoare_def split_paired_All by blast
qed

lemma on_net_send:
  assumes "14 \<le> frame_len f" and "frame_len f \<le> K"
  shows "hoare net_safe (on_net (nd_send N f)) (\<lambda>_. net_safe) net_fail"
  using hoare_on_net [of "nd_send N f" "\<lambda>_. True"] send [OF assms] by simp

lemma on_net_recv:
  assumes "frame_len f = K"
  shows "hoare net_safe (on_net (nd_recv N f))
    (\<lambda>r s. net_safe s \<and> (\<forall>b. f = Host b \<longrightarrow> length (snd r) = length b)) net_fail"
  by (rule hoare_on_net [OF recv [OF assms]])

lemma safe_zoom:
  assumes "keeps queue_frame f" and "net_safe x" and "zoom_snd f x = (r, x')"
  shows "net_safe x'"
proof -
  obtain d qs m where x: "x = (d, qs, m)" by (metis prod_cases3)
  obtain qs' m' where f: "f (qs, m) = (r, qs', m')" and x': "x' = (d, qs', m')"
    using assms(3) x by (cases "f (qs, m)") (auto simp: zoom_snd_def)
  from keepsD [OF assms(1) f] assms(2) show ?thesis
    unfolding x x' net_safe_def queues_frame_def by simp
qed

lemma on_queue:
  fixes f :: "('q queues \<times> 'm, 'a, DeviceError) prog"
  assumes "keeps queue_frame f" and "guest_errors f" and "\<And>qs m. 2 \<le> length (rings qs) \<Longrightarrow> fst (f (qs, m)) \<noteq> Panic"
  shows "hoare net_safe (zoom_snd f) (\<lambda>_. net_safe) net_fail"
proof (rule hoareI)
  fix x x' :: "'n net \<times> 'q queues \<times> 'm" and y e
  assume x: "net_safe x"
  show "net_safe x'" if "zoom_snd f x = (Ok y, x')" by (rule safe_zoom [OF assms(1) x that])
  show "net_fail e x'" if "zoom_snd f x = (Err e, x')"
    using safe_zoom [OF assms(1) x that] guest_zoom_snd [OF assms(2)] that
    unfolding net_fail_def net_error_def guest_errors_def by blast
  show "zoom_snd f x \<noteq> (Panic, x')"
    using assms(3) [of "fst (snd x)" "snd (snd x)"] x
    by (cases x) (auto simp: zoom_snd_def net_safe_def split: prod.splits)
qed

lemma on_mem:
  assumes "\<And>m. \<exists>y m'. f m = (Ok y, m') \<and> F y"
  shows "hoare net_safe (on_memory f) (\<lambda>y s. net_safe s \<and> F y) net_fail"
proof -
  have "case on_memory f (d, qs, m) of (Ok r, s) \<Rightarrow> net_safe s \<and> F r | (Err e, s) \<Rightarrow> net_fail e s | (Panic, s) \<Rightarrow> False"
    if "net_safe (d, qs, m)" for d qs m
    using assms [of m] that by (auto simp: on_memory_def zoom_snd_def net_safe_def)
  then show ?thesis unfolding hoare_def split_paired_All by blast
qed

lemma on_pop: "i < 2 \<Longrightarrow> hoare net_safe (zoom_snd (pop C i)) (\<lambda>_. net_safe) net_fail"
  by (rule on_queue [OF pop_frame guest_pop]) (rule pop_no_panic, simp)

lemma on_complete: "i < 2 \<Longrightarrow> hoare net_safe (zoom_snd (complete C i h n)) (\<lambda>_. net_safe) net_fail"
  by (rule on_queue [OF complete_frame guest_complete]) (rule complete_no_panic, simp)

lemma on_device:
  assumes "\<And>d qs m. net_safe (d, qs, m) \<Longrightarrow> net_safe (f d, g qs, m)"
  shows "hoare net_safe (modify (\<lambda>(d, qs, m). (f d, g qs, m))) (\<lambda>_. net_safe) net_fail"
  using assms by (auto simp: hoare_def modify_def)

lemma safe_throw: "net_error e \<Longrightarrow> hoare net_safe (throw e) Q net_fail"
  by (auto simp: hoare_def throw_def net_fail_def)

lemma safe_ret: "hoare net_safe (ret x) (\<lambda>_. net_safe) net_fail"
  by (simp add: hoare_def ret_def)

text \<open>The length of a chain's slices is the length the chain announces.\<close>

lemma chain_slices:
  assumes "get_slices_law C" and "chain_total e ch = Ok len" and "of_sum E (slices C m (descriptors ch)) = Ok ss"
  shows "sum_list (map vs_len ss) = len"
proof -
  have "slices C m (descriptors ch) = Inr ss" using assms(3) by (cases "slices C m (descriptors ch)") auto
  from slices_total_length [OF assms(1) this] assms(2) show ?thesis
    by (auto simp: chain_total_def dest: try_sum_Some)
qed

lemma chain_total_not_Panic [simp]: "chain_total e ch \<noteq> Panic"
  by (simp add: chain_total_def)

lemma range_len:
  assumes "subslice_law C" and "skip + len \<le> sum_list (map vs_len ss)" and "range_slices C ss skip len = Ok ts"
  shows "sum_list (map vs_len ts) = len"
proof -
  from range_from_spec [OF assms(1,2), of "[]"] assms(3)
  have "all_cells ts = take len (drop skip (all_cells ss))" by (auto simp: range_slices_def)
  then have "length (all_cells ts) = len" using assms(2) by (simp add: length_all_cells)
  then show ?thesis by (simp add: length_all_cells)
qed

lemma range_ok:
  assumes "subslice_law C" and "skip + len \<le> sum_list (map vs_len ss)"
  shows "\<exists>ts. range_slices C ss skip len = Ok ts"
  using range_from_spec [OF assms, of "[]"] by (auto simp: range_slices_def)

lemma of_sum_guest: "of_sum DeviceError.GuestAccess x = Err e \<Longrightarrow> is_guest e"
  by (cases x) auto

lemma chain_total_guest: "chain_total e ch = Err e' \<Longrightarrow> e' = e"
  by (auto simp: chain_total_def elim: ok_or.elims)


text \<open>Programs that keep the device safe; the rules follow the program's structure.\<close>

definition safe :: "('n net \<times> 'q queues \<times> 'm, 'a, DeviceError) prog \<Rightarrow> bool" where
  "safe f \<longleftrightarrow> hoare net_safe f (\<lambda>_. net_safe) net_fail"

named_theorems safe_intros

lemma safe_ret' [safe_intros]: "safe (ret x)"
  by (simp add: safe_def safe_ret)

lemma safe_throw' [safe_intros]: "net_error e \<Longrightarrow> safe (throw e)"
  by (simp add: safe_def safe_throw)

lemma safe_bnd: "safe f \<Longrightarrow> (\<And>x. safe (g x)) \<Longrightarrow> safe (bnd f g)"
  by (auto simp: safe_def intro: hoare_bnd)

lemmas safe_steps [safe_intros] =
  safe_bnd [of "zoom_snd f" for f] safe_bnd [of "modify f" for f] safe_bnd [of "on_net f" for f]
  safe_bnd [of "receive_frame C B b ss" for C B b ss] safe_bnd [of "if b then f else f'" for b f f']
  safe_bnd [of "transmit C B" for C B] safe_bnd [of "bnd f g" for f g]

lemma safe_if [safe_intros]: "(b \<Longrightarrow> safe f) \<Longrightarrow> (\<not> b \<Longrightarrow> safe g) \<Longrightarrow> safe (if b then f else g)"
  by simp

lemma safe_case_option [safe_intros]:
  "(x = None \<Longrightarrow> safe f) \<Longrightarrow> (\<And>y. x = Some y \<Longrightarrow> safe (g y)) \<Longrightarrow> safe (case x of None \<Rightarrow> f | Some y \<Rightarrow> g y)"
  by (cases x) auto

lemma safe_get: "(\<And>d qs m. net_safe (d, qs, m) \<Longrightarrow> safe (g d qs m)) \<Longrightarrow> safe (bnd get_state (\<lambda>(d, qs, m). g d qs m))"
  unfolding safe_def by (rule hoare_get_bnd) auto

lemma safe_pure:
  "r \<noteq> Panic \<Longrightarrow> (\<And>x. r = Ok x \<Longrightarrow> safe (g x)) \<Longrightarrow> (\<And>e. r = Err e \<Longrightarrow> net_error e) \<Longrightarrow> safe (bnd (pure_res r) g)"
  unfolding safe_def by (rule hoare_pure_bnd) (auto simp: net_fail_def)

lemma safe_bnd_fact:
  "hoare net_safe f (\<lambda>y s. net_safe s \<and> F y) net_fail \<Longrightarrow> (\<And>y. F y \<Longrightarrow> safe (g y)) \<Longrightarrow> safe (bnd f g)"
  unfolding safe_def by (rule hoare_bnd) (auto intro: hoare_pure_pre)

lemma safe_pop [safe_intros]: "i < 2 \<Longrightarrow> safe (zoom_snd (pop C i))"
  by (simp add: safe_def on_pop)

lemma safe_complete [safe_intros]: "i < 2 \<Longrightarrow> safe (zoom_snd (complete C i h n))"
  by (simp add: safe_def on_complete)

lemma safe_send: "14 \<le> frame_len f \<Longrightarrow> frame_len f \<le> K \<Longrightarrow> safe (on_net (nd_send N f))"
  by (simp add: safe_def on_net_send)

lemma safe_modify:
  "(\<And>d qs m. net_safe (d, qs, m) \<Longrightarrow> net_safe (f d, g qs, m)) \<Longrightarrow> safe (modify (\<lambda>(d, qs, m). (f d, g qs, m)))"
  by (simp add: safe_def on_device)

lemma safe_loop [safe_intros]: "safe body \<Longrightarrow> safe (loop_upto n body)"
  unfolding safe_def by (rule hoare_loop_upto)

lemma guest_net_error [simp]: "is_guest e \<Longrightarrow> net_error e"
  by (simp add: net_error_def)

lemma safe_tx_None: "safe (modify (\<lambda>(d, qs, m). (d\<lparr>pending_tx := None\<rparr>, qs, m)))"
  by (rule safe_modify [of "\<lambda>d. d\<lparr>pending_tx := None\<rparr>" "\<lambda>qs. qs"]) (auto simp: net_safe_def)

lemma safe_defer:
  "14 \<le> length bs \<Longrightarrow> length bs \<le> K \<Longrightarrow>
    safe (modify (\<lambda>(d, qs, m). (d\<lparr>tx := bs, pending_tx := Some h\<rparr>, qs, m)))"
  by (rule safe_modify [of "\<lambda>d. d\<lparr>tx := bs, pending_tx := Some h\<rparr>" "\<lambda>qs. qs"]) (auto simp: net_safe_def)

lemma transmit_pending_safe:
  "14 \<le> length bs \<Longrightarrow> length bs \<le> K \<Longrightarrow> safe (transmit_pending C N h bs)"
  unfolding transmit_pending_def by (intro safe_intros safe_send safe_tx_None) simp_all

lemma transmit_chain_safe:
  assumes "get_slices_law C" and "subslice_law C" and "copy_to_law C"
  shows "safe (transmit_chain C N ch)"
proof -
  have postpone: "safe (bnd (on_memory (copy_to C ps n)) (\<lambda>bs.
      bnd (modify (\<lambda>(d, qs, m). (d\<lparr>tx := bs, pending_tx := Some (head ch)\<rparr>, qs, m))) (\<lambda>_. ret False)))"
    if "sum_list (map vs_len ps) = n" and "14 \<le> n" and "n \<le> K" for ps n
  proof -
    have "hoare net_safe (on_memory (copy_to C ps n)) (\<lambda>bs s. net_safe s \<and> length bs = n) net_fail"
      using copy_to_total [OF assms(3), of n ps] that by (intro on_mem) auto
    then show ?thesis
      by (rule safe_bnd_fact) (use that in \<open>intro safe_intros safe_defer; simp\<close>)
  qed
  have rest: "safe (bnd (on_memory (copy_to C ss HEADER)) (\<lambda>header.
      if header ! 0 \<noteq> 0 \<or> header ! 1 \<noteq> 0 then throw DeviceError.UnnegotiatedTxChecksumGsoOffload
      else bnd (pure_res (range_slices C ss HEADER (len - HEADER))) g))"
    if "sum_list (map vs_len ss) = len" and "HEADER + 14 \<le> len" and "len \<le> HEADER + K"
      and g: "\<And>ps. sum_list (map vs_len ps) = len - HEADER \<Longrightarrow> safe (g ps)" for ss len g
  proof -
    have "HEADER \<le> sum_list (map vs_len ss)" using that by simp
    from copy_to_total [OF assms(3) this]
    have hdr: "hoare net_safe (on_memory (copy_to C ss HEADER)) (\<lambda>bs s. net_safe s \<and> True) net_fail"
      by (intro on_mem) blast
    have "HEADER + (len - HEADER) \<le> sum_list (map vs_len ss)" using that by simp
    from range_ok [OF assms(2) this] range_len [OF assms(2) this] show ?thesis
      by (intro safe_bnd_fact [OF hdr] safe_intros safe_pure g) auto
  qed
  show ?thesis
    unfolding transmit_chain_def
    by (intro safe_intros safe_pure safe_get rest postpone safe_send)
      (auto simp: net_safe_def dest: chain_total_guest of_sum_guest chain_slices [OF assms(1)])
qed


lemma transmit_safe:
  assumes "get_slices_law C" and "subslice_law C" and "copy_to_law C"
  shows "safe (transmit C N)"
proof -
  have "safe (transmit_step C N)"
    unfolding transmit_step_def
    by (intro safe_get safe_intros transmit_chain_safe [OF assms] transmit_pending_safe) (auto simp: net_safe_def)
  then show ?thesis
    unfolding transmit_def by (intro safe_get safe_intros) (auto simp: net_safe_def)
qed

lemma receive_frame_safe:
  assumes "subslice_law C" and "direct \<Longrightarrow> HEADER + K \<le> sum_list (map vs_len ss)"
  shows "safe (receive_frame C N direct ss)"
proof -
  have guest: "safe (bnd (on_net (nd_recv N (Guest ps))) (\<lambda>(result, _). ret result))"
    if "sum_list (map vs_len ps) = K" for ps
    by (rule safe_bnd_fact [OF on_net_recv]) (simp_all add: that safe_ret' split: prod.splits)
  have host: "safe (bnd (on_net (nd_recv N (Host bs))) (\<lambda>(result, bs).
      bnd (modify (\<lambda>(d, qs, m). (d\<lparr>rx := take HEADER (rx d) @ bs\<rparr>, qs, m))) (\<lambda>_. ret result)))"
    if "length bs = K" for bs
  proof (rule safe_bnd_fact [OF on_net_recv])
    show "frame_len (Host bs) = K" using that by simp
    fix y :: "usize option \<times> bytes" assume y: "\<forall>b. Host bs = Host b \<longrightarrow> length (snd y) = length b"
    obtain result bs' where p: "y = (result, bs')" by force
    have "safe (modify (\<lambda>(d, qs, m). (d\<lparr>rx := take HEADER (rx d) @ bs'\<rparr>, qs, m)))"
      using y p that
      by (intro safe_modify [of "\<lambda>d. d\<lparr>rx := take HEADER (rx d) @ bs'\<rparr>" "\<lambda>qs. qs"]) (auto simp: net_safe_def)
    then show "safe (case y of (result, bs) \<Rightarrow>
        bnd (modify (\<lambda>(d, qs, m). (d\<lparr>rx := take HEADER (rx d) @ bs\<rparr>, qs, m))) (\<lambda>_. ret result))"
      unfolding p prod.case by (intro safe_intros)
  qed
  show ?thesis
    unfolding receive_frame_def
  proof (rule safe_get)
    fix d :: "'n net" and qs :: "'c queues" and m
    assume "net_safe (d, qs, m)"
    then have rx: "length (rx d) = HEADER + K" by (simp add: net_safe_def)
    show "safe (if direct
        then bnd (pure_res (range_slices C ss HEADER (length (rx d) - HEADER)))
               (\<lambda>payload. bnd (on_net (nd_recv N (Guest payload))) (\<lambda>(result, _). ret result))
        else if length (rx d) < HEADER then panic
        else bnd (on_net (nd_recv N (Host (drop HEADER (rx d)))))
               (\<lambda>(result, bs). bnd (modify (\<lambda>(d, qs, m). (d\<lparr>rx := take HEADER (rx d) @ bs\<rparr>, qs, m))) (\<lambda>_. ret result)))"
      using rx range_ok [OF assms(1), of HEADER K ss] range_len [OF assms(1), of HEADER K ss] assms(2)
      by (intro safe_if safe_pure guest host) auto
  qed
qed

lemma deliver_safe:
  assumes "len \<le> sum_list (map vs_len ss)" and "HEADER \<le> len" and "len \<le> HEADER + K"
  shows "safe (deliver C direct ss h len)"
proof -
  have hdr: "safe (on_memory (copy_from C ss rx_header))"
  proof -
    have "length rx_header \<le> sum_list (map vs_len ss)" using assms by (simp add: rx_header_def HEADER_def)
    then show ?thesis
      unfolding safe_def using on_mem [of "copy_from C ss rx_header" "\<lambda>_. True"] copy_from_total by fastforce
  qed
  have body: "safe (on_memory (copy_from C ss (take len bs)))" for bs
  proof -
    have "length (take len bs) \<le> sum_list (map vs_len ss)" using assms by simp
    then show ?thesis
      unfolding safe_def using on_mem [of "copy_from C ss (take len bs)" "\<lambda>_. True"] copy_from_total by fastforce
  qed
  have "safe (modify (\<lambda>(d, qs, m). (d\<lparr>rx := put_bytes 0 rx_header (rx d)\<rparr>, qs, m)))"
    by (rule safe_modify [of "\<lambda>d. d\<lparr>rx := put_bytes 0 rx_header (rx d)\<rparr>" "\<lambda>qs. qs"])
      (auto simp: net_safe_def rx_header_def HEADER_def)
  then show ?thesis
    unfolding deliver_def by (intro safe_intros safe_get hdr body) simp_all
qed

lemma receive_chain_safe:
  assumes "get_slices_law C" and "subslice_law C"
  shows "safe (receive_chain C N ch)"
proof -
  have unpop: "safe (modify (\<lambda>(d, qs, m). (d, unpop C qs, m)))"
    by (rule safe_modify [of "\<lambda>d. d" "unpop C"]) (auto simp: net_safe_def unpop_def)
  show ?thesis
    unfolding receive_chain_def Let_def
    by (intro safe_intros safe_pure safe_get receive_frame_safe [OF assms(2)] deliver_safe unpop)
      (auto simp: net_safe_def net_error_def dest: chain_total_guest of_sum_guest chain_slices [OF assms(1)])
qed

lemma receive_safe:
  assumes "get_slices_law C" and "subslice_law C"
  shows "safe (receive C N)"
  unfolding receive_def receive_step_def
  by (intro safe_intros receive_chain_safe [OF assms]) simp

lemma net_poll_safe:
  assumes "get_slices_law C" and "subslice_law C" and "copy_to_law C"
  shows "safe (net_poll C N)"
  unfolding net_poll_def by (intro safe_intros transmit_safe [OF assms] receive_safe [OF assms(1,2)])

lemma net_notify_safe:
  assumes "get_slices_law C" and "subslice_law C" and "copy_to_law C" and "i < 2"
  shows "safe (net_notify C N i)"
  unfolding net_notify_def using assms(4)
  by (intro safe_if transmit_safe [OF assms(1-3)] receive_safe [OF assms(1,2)]) auto

end

section \<open>The device behind the transport\<close>

lemma on_net_frame: "keeps (op_frame (net_ops_of C N)) (on_net f)"
  by (auto simp: keeps_def on_net_def op_frame_def net_ops_of_def identity_def split: prod.splits)

lemma on_memory_frame: "keeps (op_frame V) (on_memory f)"
  by (auto simp: keeps_def on_memory_def zoom_snd_def op_frame_def split: prod.splits)

lemma net_modify_frame:
  "(\<And>qs. queues_frame qs (g qs)) \<Longrightarrow> keeps (op_frame (net_ops_of C N)) (modify (\<lambda>(d, qs, m). (f d, g qs, m)))"
  by (auto simp: keeps_def modify_def op_frame_def net_ops_of_def identity_def)

lemma unpop_frame: "queues_frame qs (unpop C qs)"
  by (simp add: queues_frame_def unpop_def)

lemmas net_frames = on_net_frame on_memory_frame zoom_op_frame queue_op_frames
  net_modify_frame [where g = "\<lambda>qs. qs" and f = "\<lambda>d. d\<lparr>pending_tx := None\<rparr>"]
  net_modify_frame [where g = "\<lambda>qs. qs" and f = "\<lambda>d. d\<lparr>tx := bs, pending_tx := Some h\<rparr>" for bs h]
  net_modify_frame [where g = "\<lambda>qs. qs" and f = "\<lambda>d. d\<lparr>rx := F (rx d)\<rparr>" for F]
  net_modify_frame [where g = "unpop K" and f = "\<lambda>d. d" for K]
  unpop_frame queues_frame_refl op_frame_reflp op_frame_transp

lemma keeps_case_prod3:
  "(\<And>a b c. keeps R (f a b c)) \<Longrightarrow> keeps R (case p of (a, b, c) \<Rightarrow> f a b c)"
  by (cases p) simp

lemmas net_keeps = keeps_bnd keeps_loop_upto keeps_ret keeps_throw keeps_panic keeps_get keeps_pure_res
  keeps_if keeps_case_option keeps_case_prod net_frames

lemma transmit_op_frame: "keeps (op_frame (net_ops_of C N)) (transmit C N)"
  unfolding transmit_def transmit_step_def transmit_pending_def transmit_chain_def
  by (intro net_keeps)

lemma receive_op_frame: "keeps (op_frame (net_ops_of C N)) (receive C N)"
  unfolding receive_def receive_step_def receive_chain_def receive_frame_def deliver_def Let_def
  by (intro net_keeps)

interpretation netdev: virtio_device "net_ops_of C N" for C N
proof
  show "keeps (op_frame (net_ops_of C N)) (vd_notify (net_ops_of C N) i)" for i
    using transmit_op_frame [of C N] receive_op_frame [of C N]
    by (simp add: net_ops_of_def net_notify_def keeps_panic)
  show "keeps (op_frame (net_ops_of C N)) (vd_poll (net_ops_of C N))"
    using keeps_bnd [OF op_frame_transp transmit_op_frame [of C N] receive_op_frame [of C N]]
    by (simp add: net_ops_of_def net_poll_def)
qed (auto simp: net_ops_of_def net_reset_def keeps_def modify_def ret_def identity_def)

section \<open>What the backend sees\<close>

datatype net_op = Sent frame | Received frame

definition net_logged :: "('n, 'm) net_ops \<Rightarrow> ('n \<times> net_op list, 'm) net_ops" where
  "net_logged N = \<lparr>nd_mtu = nd_mtu N, nd_mac_address = (\<lambda>(n, l). nd_mac_address N n),
     nd_max_frame_len = (\<lambda>(n, l). nd_max_frame_len N n),
     nd_send = (\<lambda>f ((n, l), m). case nd_send N f (n, m) of (r, n', m') \<Rightarrow> (r, (n', l @ [Sent f]), m')),
     nd_recv = (\<lambda>f ((n, l), m). case nd_recv N f (n, m) of (r, n', m') \<Rightarrow> (r, (n', l @ [Received f]), m'))\<rparr>"

fun op_ok :: "nat \<Rightarrow> net_op \<Rightarrow> bool" where
  "op_ok K (Sent f) = (14 \<le> frame_len f \<and> frame_len f \<le> K)"
| "op_ok K (Received f) = (frame_len f = K)"

lemma hoare_logged:
  assumes "hoare (\<lambda>(n, m). I n) f (\<lambda>r (n, m). I n \<and> F r) (\<lambda>_ (n, m). I n)" and "op_ok K op"
  shows "hoare (\<lambda>((n, l), m). I n \<and> list_all (op_ok K) l)
    (\<lambda>((n, l), m). case f (n, m) of (r, n', m') \<Rightarrow> (r, (n', l @ [op]), m'))
    (\<lambda>r ((n, l), m). (I n \<and> list_all (op_ok K) l) \<and> F r) (\<lambda>_ ((n, l), m). I n \<and> list_all (op_ok K) l)"
proof -
  have "case f (n, m) of (Ok x, n', m') \<Rightarrow> I n' \<and> F x | (Err e, n', m') \<Rightarrow> I n' | (Panic, n', m') \<Rightarrow> False"
    if "I n" for n m
    using assms(1) that unfolding hoare_def split_paired_All by (fastforce split: prod.splits result.splits)
  with assms(2) show ?thesis
    unfolding hoare_def split_paired_All by (fastforce split: prod.splits result.splits)
qed

lemma net_logged_backend:
  assumes "net_backend N I K"
  shows "net_backend (net_logged N) (\<lambda>(n, l). I n \<and> list_all (op_ok K) l) K"
proof
  fix f
  show "hoare (\<lambda>(n, m). case n of (n, l) \<Rightarrow> I n \<and> list_all (op_ok K) l) (nd_send (net_logged N) f)
      (\<lambda>_ (n, m). case n of (n, l) \<Rightarrow> I n \<and> list_all (op_ok K) l) (\<lambda>_ (n, m). case n of (n, l) \<Rightarrow> I n \<and> list_all (op_ok K) l)"
    if "14 \<le> frame_len f" "frame_len f \<le> K"
    using hoare_logged [of I "nd_send N f" "\<lambda>_. True" K "Sent f"] net_backend.send [OF assms that] that
    by (simp add: net_logged_def case_prod_unfold)
  show "hoare (\<lambda>(n, m). case n of (n, l) \<Rightarrow> I n \<and> list_all (op_ok K) l) (nd_recv (net_logged N) f)
      (\<lambda>r (n, m). (case n of (n, l) \<Rightarrow> I n \<and> list_all (op_ok K) l) \<and> (\<forall>b. f = Host b \<longrightarrow> length (snd r) = length b))
      (\<lambda>_ (n, m). case n of (n, l) \<Rightarrow> I n \<and> list_all (op_ok K) l)"
    if "frame_len f = K"
    using hoare_logged [OF net_backend.recv [OF assms that], of K "Received f"] that
    by (simp add: net_logged_def case_prod_unfold)
qed

lemma net_new_safe:
  fixes N :: "('n, 'm) net_ops" and m :: 'm
  assumes "net_backend N I K" and "net_new N n = Ok d" and "nd_max_frame_len N n = K" and "I n" and "2 \<le> length (rings qs)"
  shows "net_backend.net_safe I K (d, qs, m)"
proof -
  have "unat (nd_mtu N) + 14 \<le> K" and d: "d = \<lparr>backend = n,
      nconfig = put_bytes 10 (le_bytes 2 (unat (nd_mtu N))) (put_bytes 0 (nd_mac_address N n) (replicate 12 0)),
      rx = replicate (HEADER + K) 0, pending_tx = None, tx = []\<rparr>"
    using assms(2,3) by (auto simp: net_new_def Let_def split: if_splits)
  with assms show ?thesis by (simp add: net_backend.net_safe_def [OF assms(1)])
qed

section \<open>Idle polling\<close>

text \<open>Taking a chain off a queue moves only its position, by one.\<close>

definition position_law :: "('q, 'm) crates \<Rightarrow> bool" where
  "position_law C \<longleftrightarrow> (\<forall>q m h q' m'. cq_iter_next C (q, m) = (Inr (Some h), q', m') \<longrightarrow>
     m' = m \<and> cq_set_next_avail C (cq_next_avail C q' - 1) q' = q)"

lemma pop_walk_quiet: "quiet_law C \<Longrightarrow> pop_walk C q n f i ds m = (r, m') \<Longrightarrow> m' = m"
proof (induction n arbitrary: i ds)
  case (Suc n)
  obtain rd m1 where rd: "cm_read_descriptor C (cq_desc_table C q + ucast i * 16) m = (rd, m1)" by fastforce
  with Suc.prems(1) have "m1 = m" by (rule quiet_law_D)
  with Suc rd show ?case
    by (cases rd) (auto simp: read_descriptor_def prog_defs split: if_splits)
qed (simp add: throw_def)

lemma pop_unpop:
  assumes "quiet_law C" and "position_law C" and "pop C 0 (qs, m) = (Ok (Some ch), qs', m')"
  shows "unpop C qs' = qs \<and> m' = m"
proof -
  obtain a qs1 m1 where a: "available C 0 (qs, m) = (a, qs1, m1)" by (metis prod_cases3)
  from assms(3) a obtain n where n: "a = Ok n" "n \<noteq> 0" by (cases a) (auto simp: pop_def bnd_def ret_def split: if_splits)
  with available_Ok [of C 0 qs m n] a have qs1: "qs1 = qs" "0 < length (rings qs)" by auto
  have m1: "m1 = m"
    using a n quiet_law_D(3) [OF assms(1)]
    by (auto simp: available_def Let_def prog_defs split: if_splits prod.splits result.splits)
  obtain h q' m2 where it: "cq_iter_next C (rings qs ! 0, m) = (Inr (Some h), q', m2)"
    and w: "pop_walk C q' (unat (cq_size C q')) h h [] m2 = (Ok (Some ch), m')"
    and qs': "qs' = qs\<lparr>rings := (rings qs)[0 := q']\<rparr>"
    using assms(3) a n qs1 m1
    by (auto simp: pop_def on_ring_def Let_def prog_defs split: if_splits prod.splits result.splits option.splits elim!: of_sum.elims)
  from it assms(2) have "m2 = m" and q: "cq_set_next_avail C (cq_next_avail C q' - 1) q' = rings qs ! 0"
    unfolding position_law_def by blast+
  moreover from pop_walk_quiet [OF assms(1) w] have "m' = m2" .
  ultimately show ?thesis
    using qs' qs1(2) by (simp add: unpop_def)
qed

lemma pop_walk_not_None: "pop_walk C q n f i ds m \<noteq> (Ok None, m')"
proof (induction n arbitrary: i ds m)
  case (Suc n)
  then show ?case
    by (auto simp: read_descriptor_def prog_defs split: prod.splits result.splits)
qed (simp add: throw_def)

text \<open>A backend with nothing to receive.\<close>

definition idle :: "('n, 'm) net_ops \<Rightarrow> bool" where
  "idle N \<longleftrightarrow> (\<forall>ss s. \<exists>bs. nd_recv N (Guest ss) s = (Ok (None, bs), s)) \<and>
     (\<forall>b s. nd_recv N (Host b) s = (Ok (None, b), s))"

lemma receive_frame_idle:
  assumes "idle N" and "receive_frame C N direct ss (d, qs, m) = (Ok r, s')"
  shows "r = None \<and> s' = (d, qs, m)"
proof (cases direct)
  case True
  with assms(2) obtain ps where ps: "range_slices C ss HEADER (length (rx d) - HEADER) = Ok ps"
    by (cases "range_slices C ss HEADER (length (rx d) - HEADER)") (auto simp: receive_frame_def prog_defs)
  obtain bs where "nd_recv N (Guest ps) (backend d, m) = (Ok (None, bs), backend d, m)"
    using assms(1) unfolding idle_def by blast
  with True ps assms(2) show ?thesis by (simp add: receive_frame_def prog_defs on_net_def)
next
  case False
  have "nd_recv N (Host (drop HEADER (rx d))) (backend d, m) = (Ok (None, drop HEADER (rx d)), backend d, m)"
    using assms(1) by (simp add: idle_def)
  with False assms(2) show ?thesis
    by (auto simp: receive_frame_def prog_defs on_net_def split: if_splits)
qed

lemma receive_step_idle:
  assumes "quiet_law C" and "position_law C" and "idle N" and "receive_step C N (d, qs, m) = (Ok go, s')"
    and "available C 0 (qs, m) = (Ok k, qs, m)"
  shows "\<not> go \<and> s' = (d, qs, m)"
proof -
  obtain p qs1 m1 where p: "pop C 0 (qs, m) = (p, qs1, m1)" by (metis prod_cases3)
  from assms(4) p obtain c where c: "p = Ok c" by (cases p) (auto simp: receive_step_def prog_defs)
  show ?thesis
  proof (cases c)
    case None
    then have "qs1 = qs \<and> m1 = m"
      using p c assms(5)
      by (auto simp: pop_def Let_def prog_defs pop_walk_not_None split: if_splits prod.splits result.splits option.splits)
    with assms(4) p c None show ?thesis by (simp add: receive_step_def prog_defs)
  next
    case (Some ch)
    from pop_unpop [OF assms(1,2)] p c Some have u: "unpop C qs1 = qs" "m1 = m" by auto
    from assms(4) p c Some have rc: "receive_chain C N ch (d, qs1, m1) = (Ok go, s')"
      by (simp add: receive_step_def prog_defs)
    then obtain cap ss where cap: "chain_total DeviceError.RxLengthOverflow ch = Ok cap"
      and ss: "of_sum DeviceError.GuestAccess (slices C m1 (descriptors ch)) = Ok ss"
      by (auto simp: receive_chain_def Let_def prog_defs split: if_splits prod.splits result.splits)
    obtain fr s1 where fr: "receive_frame C N (length (rx d) \<le> cap \<and> \<not> overlaps ss) ss (d, qs1, m1) = (fr, s1)"
      by (metis surj_pair)
    with rc cap ss obtain r where r: "fr = Ok r"
      by (cases fr) (auto simp: receive_chain_def Let_def prog_defs split: if_splits)
    with receive_frame_idle [OF assms(3)] fr have "r = None" "s1 = (d, qs1, m1)" by blast+
    with rc cap ss fr r u show ?thesis
      by (auto simp: receive_chain_def Let_def prog_defs split: if_splits)
  qed
qed

lemma available_quiet: "quiet_law C \<Longrightarrow> available C i (qs, m) = (r, s') \<Longrightarrow> s' = (qs, m)"
  by (auto simp: available_def Let_def prog_defs dest: quiet_law_D(3)
      split: if_splits prod.splits result.splits)

lemma loop_BUDGET:
  "loop_upto BUDGET body = bnd body (\<lambda>go. if go then loop_upto 63 body else ret ())"
proof -
  have b: "BUDGET = Suc 63" by (simp add: BUDGET_def)
  show ?thesis unfolding b by (rule loop_upto.simps)
qed

section \<open>Properties\<close>



text \<open>Polling for a packet when there is none costs the guest nothing: the chain taken from the
  receive queue is put back, and device, queues and guest memory are exactly as before.\<close>

lemma idle_receive_changes_nothing:
  assumes "quiet_law C" and "position_law C" and "idle N" and "receive C N (d, qs, m) = (Ok (), s')"
  shows "s' = (d, qs, m)"
proof -
  from assms(4) obtain go s1 where step: "receive_step C N (d, qs, m) = (Ok go, s1)"
    and rest: "(if go then loop_upto 63 (receive_step C N) else ret ()) s1 = (Ok (), s')"
    by (auto simp: receive_def loop_BUDGET bnd_def split: prod.splits result.splits)
  obtain r a where av: "available C 0 (qs, m) = (r, a)" by (metis surj_pair)
  moreover have "a = (qs, m)" by (rule available_quiet [OF assms(1) av])
  moreover obtain k where "r = Ok k"
    using step av by (cases r) (auto simp: receive_step_def pop_def prog_defs split: prod.splits)
  ultimately have "\<not> go \<and> s1 = (d, qs, m)" using receive_step_idle [OF assms(1-3) step] by simp
  with rest show ?thesis by (simp add: ret_def)
qed

end
