(* ===== verification/Sample.thy ===== *)
theory Sample
  imports Crates
begin

text \<open>
  One concrete instance of the crates' record: a queue by its registers, and a guest memory of
  \<open>2 ^ 12\<close> bytes beside a descriptor table and an available ring, which nothing else writes. It
  satisfies the laws of the crates and is what the examples of the development evaluate.
\<close>

record sample_queue =
  sq_ready :: bool
  sq_size :: u16
  sq_next :: u16
  sq_desc :: u64
  sq_avail :: u64
  sq_used :: u64

record sample_mem =
  sm_table :: "descriptor list"
  sm_ring :: "u16 list"
  sm_bytes :: "nat \<Rightarrow> u8"
  sm_used :: "(u16 \<times> u32) list"

definition sample_limit :: nat where
  "sample_limit = 4096"

definition sample_read :: "u64 \<Rightarrow> usize \<Rightarrow> sample_mem \<Rightarrow> (ext_error + bytes) \<times> sample_mem" where
  "sample_read a n m =
     (if unat a + n \<le> sample_limit then Inr (map (sm_bytes m) [unat a ..< unat a + n]) else Inl ''range'', m)"

fun write_cells :: "nat \<Rightarrow> bytes \<Rightarrow> (nat \<Rightarrow> u8) \<Rightarrow> nat \<Rightarrow> u8" where
  "write_cells a [] f = f"
| "write_cells a (b # bs) f = write_cells (Suc a) bs (f(a := b))"

definition sample_write :: "u64 \<Rightarrow> bytes \<Rightarrow> sample_mem \<Rightarrow> (ext_error + unit) \<times> sample_mem" where
  "sample_write a bs m =
     (if unat a + length bs \<le> sample_limit
      then (Inr (), m\<lparr>sm_bytes := write_cells (unat a) bs (sm_bytes m)\<rparr>) else (Inl ''range'', m))"

definition lo_hi :: "u32 option \<Rightarrow> u32 option \<Rightarrow> u64 \<Rightarrow> u64" where
  "lo_hi lo hi a =
     (let a = (case lo of None \<Rightarrow> a | Some v \<Rightarrow> (a AND push_bit 32 0xffffffff) OR ucast v)
      in case hi of None \<Rightarrow> a | Some v \<Rightarrow> (a AND 0xffffffff) OR push_bit 32 (ucast v))"

definition sample :: "(sample_queue, sample_mem) crates" where
  "sample = \<lparr>
     cm_check_range = (\<lambda>m a n. unat a + n \<le> sample_limit),
     cm_read_slice = sample_read,
     cm_write_slice = sample_write,
     cm_read_descriptor = (\<lambda>a m.
       (if unat a div 16 < length (sm_table m) then Inr (sm_table m ! (unat a div 16)) else Inl ''range'', m)),
     cm_get_slices = (\<lambda>m a n.
       [if unat a + n \<le> sample_limit then Inr \<lparr>vs_ptr = unat a, vs_len = n\<rparr> else Inl ''range'']),
     cm_subslice = (\<lambda>s off n.
       if off + n \<le> vs_len s then Some \<lparr>vs_ptr = vs_ptr s + off, vs_len = n\<rparr> else None),
     cm_copy_to = (\<lambda>s n m. (map (sm_bytes m) [vs_ptr s ..< vs_ptr s + n], m)),
     cm_copy_from = (\<lambda>s bs m. m\<lparr>sm_bytes := write_cells (vs_ptr s) bs (sm_bytes m)\<rparr>),
     cm_insert_region = (\<lambda>m r. Inr m),
     cm_remove_region = (\<lambda>m a n. Inr m),
     cq_new = (\<lambda>n. Some \<lparr>sq_ready = False, sq_size = n, sq_next = 0, sq_desc = 0, sq_avail = 0, sq_used = 0\<rparr>),
     cq_ready = sq_ready,
     cq_set_ready = (\<lambda>b q. q\<lparr>sq_ready := b\<rparr>),
     cq_is_valid = (\<lambda>q m. sq_ready q \<and> unat (sq_desc q) < sample_limit),
     cq_reset = (\<lambda>q. \<lparr>sq_ready = False, sq_size = sq_size q, sq_next = 0, sq_desc = 0, sq_avail = 0, sq_used = 0\<rparr>),
     cq_size = sq_size,
     cq_try_set_size = (\<lambda>n q. if n = 0 then (Inl ''size'', q) else (Inr (), q\<lparr>sq_size := n\<rparr>)),
     cq_desc_table = sq_desc,
     cq_avail_ring = sq_avail,
     cq_used_ring = sq_used,
     cq_set_desc_table = (\<lambda>lo hi q. q\<lparr>sq_desc := lo_hi lo hi (sq_desc q)\<rparr>),
     cq_set_avail_ring = (\<lambda>lo hi q. q\<lparr>sq_avail := lo_hi lo hi (sq_avail q)\<rparr>),
     cq_set_used_ring = (\<lambda>lo hi q. q\<lparr>sq_used := lo_hi lo hi (sq_used q)\<rparr>),
     cq_next_avail = sq_next,
     cq_set_next_avail = (\<lambda>n q. q\<lparr>sq_next := n\<rparr>),
     cq_avail_idx = (\<lambda>q m. (Inr (word_of_nat (length (sm_ring m))), m)),
     cq_iter_next = (\<lambda>(q, m).
       if unat (sq_next q) < length (sm_ring m)
       then (Inr (Some (sm_ring m ! unat (sq_next q))), q\<lparr>sq_next := sq_next q + 1\<rparr>, m)
       else (Inr None, q, m)),
     cq_add_used = (\<lambda>i n (q, m). (Inr (), q, m\<lparr>sm_used := sm_used m @ [(i, n)]\<rparr>))\<rparr>"

lemma sample_laws [simp]: "subslice_law sample" "get_slices_law sample" "copy_to_law sample"
  "queue_config_law sample"
  by (auto simp: sample_def subslice_law_def get_slices_law_def copy_to_law_def queue_config_law_def
      split: if_splits)

end
