(* ===== verification/Btree.thy ===== *)
theory Btree
  imports Prelude
begin

text \<open>
  The ordered map \<open>BTreeMap\<close> of the standard library, as far as the program uses it: an
  association list sorted by key. Lookup, insertion, removal, ordered iteration and the greatest
  entry below a key.
\<close>

type_synonym ('k, 'v) btree = "('k \<times> 'v) list"

definition bt_get :: "('k, 'v) btree \<Rightarrow> 'k \<Rightarrow> 'v option" where
  "bt_get t k = map_of t k"

fun bt_insert :: "'k::linorder \<Rightarrow> 'v \<Rightarrow> ('k, 'v) btree \<Rightarrow> ('k, 'v) btree" where
  "bt_insert k v [] = [(k, v)]"
| "bt_insert k v ((k', v') # t) =
     (if k < k' then (k, v) # (k', v') # t
      else if k = k' then (k, v) # t
      else (k', v') # bt_insert k v t)"

definition bt_remove :: "'k \<Rightarrow> ('k, 'v) btree \<Rightarrow> ('k, 'v) btree" where
  "bt_remove k t = filter (\<lambda>p. fst p \<noteq> k) t"

definition bt_keys :: "('k, 'v) btree \<Rightarrow> 'k list" where
  "bt_keys t = map fst t"

definition bt_values :: "('k, 'v) btree \<Rightarrow> 'v list" where
  "bt_values t = map snd t"

text \<open>\<open>range(..k).next_back()\<close>.\<close>

definition bt_last_below :: "'k::linorder \<Rightarrow> ('k, 'v) btree \<Rightarrow> ('k \<times> 'v) option" where
  "bt_last_below k t = (case filter (\<lambda>p. fst p < k) t of [] \<Rightarrow> None | ps \<Rightarrow> Some (last ps))"

definition bt_inv :: "('k::linorder, 'v) btree \<Rightarrow> bool" where
  "bt_inv t = sorted_wrt (<) (map fst t)"

lemma bt_inv_Nil [simp]: "bt_inv []"
  by (simp add: bt_inv_def)

lemma bt_inv_Cons: "bt_inv ((k, v) # t) \<longleftrightarrow> (\<forall>p \<in> set t. k < fst p) \<and> bt_inv t"
  by (auto simp: bt_inv_def)

lemma fst_set_bt_insert: "fst ` set (bt_insert k v t) = insert k (fst ` set t)"
proof (induction t)
  case (Cons p t)
  then show ?case by (cases p) (simp add: insert_commute)
qed simp

lemma bt_inv_insert [simp]: "bt_inv t \<Longrightarrow> bt_inv (bt_insert k v t)"
proof (induction t)
  case (Cons p t)
  obtain k' v' where p: "p = (k', v')" by force
  have lt: "k' < fst q" if "q \<in> set (bt_insert k v t)" "k' < k" for q
    using that Cons.prems p fst_set_bt_insert [of k v t] by (force simp: bt_inv_Cons)
  show ?case
    using Cons p lt by (auto simp: bt_inv_Cons)
qed (simp add: bt_inv_Cons)

lemma bt_inv_remove [simp]: "bt_inv t \<Longrightarrow> bt_inv (bt_remove k t)"
  by (induction t) (auto simp: bt_inv_Cons bt_remove_def)

lemma bt_inv_distinct: "bt_inv t \<Longrightarrow> distinct (map fst t)"
  by (simp add: bt_inv_def strict_sorted_iff)

lemma set_bt_insert: "bt_inv t \<Longrightarrow> set (bt_insert k v t) = insert (k, v) {p \<in> set t. fst p \<noteq> k}"
proof (induction t)
  case (Cons p t)
  then show ?case by (cases p) (auto simp: bt_inv_Cons)
qed simp

lemma set_bt_remove: "set (bt_remove k t) = {p \<in> set t. fst p \<noteq> k}"
  by (auto simp: bt_remove_def)

lemma bt_get_insert: "bt_get (bt_insert k v t) = (bt_get t)(k \<mapsto> v)"
  by (induction t) (auto simp: bt_get_def fun_eq_iff)

lemma bt_get_remove: "bt_get (bt_remove k t) = (bt_get t)(k := None)"
  by (induction t) (auto simp: bt_get_def bt_remove_def fun_eq_iff)

lemma bt_get_Some_iff: "bt_inv t \<Longrightarrow> bt_get t k = Some v \<longleftrightarrow> (k, v) \<in> set t"
  by (simp add: bt_get_def bt_inv_distinct)

lemma bt_get_None_iff: "bt_get t k = None \<longleftrightarrow> k \<notin> set (bt_keys t)"
  by (simp add: bt_get_def bt_keys_def map_of_eq_None_iff)

lemma set_bt_keys_insert [simp]: "set (bt_keys (bt_insert k v t)) = insert k (set (bt_keys t))"
  using fst_set_bt_insert [of k v t] by (simp add: bt_keys_def)

lemma set_bt_keys_remove [simp]: "set (bt_keys (bt_remove k t)) = set (bt_keys t) - {k}"
  by (auto simp: bt_keys_def bt_remove_def)

lemma length_bt_insert: "bt_get t k = None \<Longrightarrow> length (bt_insert k v t) = Suc (length t)"
  by (induction t) (auto simp: bt_get_def split: if_splits)

lemma length_bt_remove: "bt_inv t \<Longrightarrow> bt_get t k \<noteq> None \<Longrightarrow> Suc (length (bt_remove k t)) = length t"
proof (induction t)
  case (Cons p t)
  obtain k' v' where p: "p = (k', v')" by force
  show ?case
  proof (cases "k' = k")
    case True
    with Cons.prems p have "bt_remove k t = t" by (auto simp: bt_inv_Cons bt_remove_def filter_id_conv)
    with True p show ?thesis by (simp add: bt_remove_def)
  next
    case False
    with Cons p have "Suc (length (bt_remove k t)) = length t" by (auto simp: bt_inv_Cons bt_get_def)
    with False p show ?thesis by (simp add: bt_remove_def)
  qed
qed (simp add: bt_get_def)

text \<open>The entry below a key is the greatest such entry.\<close>

lemma bt_last_below_None: "bt_last_below k t = None \<longleftrightarrow> (\<forall>p \<in> set t. k \<le> fst p)"
  by (auto simp: bt_last_below_def filter_empty_conv split: list.splits) (metis (lifting) filter_empty_conv list.distinct(1) not_le)

lemma sorted_le_last:
  fixes xs :: "('k::linorder \<times> 'v) list"
  shows "sorted_wrt (\<lambda>a b. fst a < fst b) xs \<Longrightarrow> q \<in> set xs \<Longrightarrow> fst q \<le> fst (last xs)"
  by (induction xs rule: rev_induct) (auto simp: sorted_wrt_append less_imp_le)

lemma bt_last_below_Some:
  assumes "bt_inv t" and "bt_last_below k t = Some p"
  shows "p \<in> set t \<and> fst p < k \<and> (\<forall>q \<in> set t. fst q < k \<longrightarrow> fst q \<le> fst p)"
proof -
  let ?f = "filter (\<lambda>p. fst p < k) t"
  have ne: "?f \<noteq> []" and p: "p = last ?f" using assms(2) by (auto simp: bt_last_below_def split: list.splits)
  have "p \<in> set ?f" using last_in_set [OF ne] p by (simp only:)
  moreover have "sorted_wrt (\<lambda>a b. fst a < fst b) ?f"
    using assms(1) by (simp add: bt_inv_def sorted_wrt_map sorted_wrt_filter)
  then have "\<forall>q \<in> set ?f. fst q \<le> fst p"
    using sorted_le_last p by blast
  ultimately show ?thesis by auto
qed

end
