(* ===== verification/VirtioMem.thy ===== *)
theory VirtioMem
  imports Mmio Btree
begin

text \<open>
  Hot-pluggable guest memory: the target a host controls (\<open>MemoryControl\<close>, \<open>src/src/memory.rs\<close>)
  and the virtio-mem device with its transactional mappings (\<open>src/src/devices/memory.rs\<close>).
  The trait \<open>Mapper\<close> is the record \<open>mapper_ops\<close>; its documented contract is the locale \<open>mapper\<close>, in
  which a change of the plugged blocks is shown to be a transaction.
  The status behind the shared mutex is a field of the device: every operation that takes the
  lock is one step on it.
\<close>

section \<open>The host's target\<close>

definition MIB :: u64 where
  "MIB = push_bit 20 1"

definition HOTPLUG_BLOCK_SIZE :: u64 where
  "HOTPLUG_BLOCK_SIZE = push_bit 20 128"

definition mib_bytes :: "u64 \<Rightarrow> (u64, MemoryError) result" where
  "mib_bytes mib = ok_or (checked_mul mib MIB) (MemoryError.CapacityOverflow mib)"

definition validate_target :: "u64 \<Rightarrow> u64 \<Rightarrow> u64 \<Rightarrow> (unit, MemoryError) result" where
  "validate_target target cap block_mib =
     (if \<not> (is_multiple_of target block_mib \<and> target \<le> cap)
      then Err (MemoryError.InvalidTarget target cap block_mib) else Ok ())"

datatype MemoryLifecycle = Created | Running | Stopped

record MemoryStatus =
  region_size_mib :: u64
  block_size_mib :: u64
  requested_size_mib :: u64
  plugged_size_mib :: u64
  driver_ready :: bool
  lifecycle :: MemoryLifecycle

definition memory_control_new :: "u64 \<Rightarrow> u64 \<Rightarrow> MemoryStatus" where
  "memory_control_new region block =
     \<lparr>region_size_mib = region, block_size_mib = block, requested_size_mib = 0, plugged_size_mib = 0,
      driver_ready = False, lifecycle = Created\<rparr>"

definition set_requested_mib :: "u64 \<Rightarrow> (MemoryStatus, unit, MemoryError) prog" where
  "set_requested_mib target =
     bnd get_state (\<lambda>state.
     if lifecycle state = Stopped then throw MemoryError.Stopped
     else
     bnd (pure_res (validate_target target (region_size_mib state) (block_size_mib state))) (\<lambda>_.
     modify (\<lambda>s. s\<lparr>requested_size_mib := target\<rparr>)))"

section \<open>The device\<close>

record virtio_mem =
  control :: MemoryStatus
  vstart :: u64
  capacity :: u64
  block_size :: u64
  block_len :: usize
  requested :: u64
  plugged :: u64
  generation :: u32
  blocks :: "(u64, region) btree"

definition is_plugged :: "virtio_mem \<Rightarrow> u64 \<Rightarrow> bool" where
  "is_plugged v addr = (bt_get (blocks v) addr \<noteq> None)"

definition count :: "virtio_mem \<Rightarrow> u64" where
  "count v = word_of_nat (length (blocks v))"

definition addresses :: "virtio_mem \<Rightarrow> u64 list" where
  "addresses v = bt_keys (blocks v)"

text \<open>The trait \<open>Mapper\<close>, over the state of the host's virtual machine.\<close>

record 'p mapper_ops =
  mp_map :: "region \<Rightarrow> ('p, unit, MemoryError) prog"
  mp_unmap :: "region \<Rightarrow> ('p, unit, MemoryError) prog"

text \<open>The allocation of host memory for a block (\<open>GuestRegionMmap::from_range\<close>): what the host answers
  during one operation, by address and length.\<close>

type_synonym alloc = "u64 \<Rightarrow> usize \<Rightarrow> ext_error + region"

text \<open>The first loop of \<open>change\<close>: the regions, and the view with them inserted or removed. Indexing the
  blocks at an address that is not plugged would panic.\<close>

fun prepare ::
  "('q, 'm) crates \<Rightarrow> alloc \<Rightarrow> virtio_mem \<Rightarrow> bool \<Rightarrow> u64 list \<Rightarrow> region list \<Rightarrow> 'm \<Rightarrow>
    (region list \<times> 'm, MemoryError) result" where
  "prepare C A v plug [] regions next = Ok (regions, next)"
| "prepare C A v plug (addr # addrs) regions next =
     and_then (if plug then of_sum MemoryError.GuestMemory (A addr (block_len v))
               else (case bt_get (blocks v) addr of None \<Rightarrow> Panic | Some r \<Rightarrow> Ok r)) (\<lambda>region.
     and_then (of_sum MemoryError.Regions
                 (if plug then cm_insert_region C next region
                  else cm_remove_region C next addr (block_size v))) (\<lambda>next.
     prepare C A v plug addrs (regions @ [region]) next))"

text \<open>Undo the regions already changed, in reverse; the first error is remembered.\<close>

fun rollback :: "'p mapper_ops \<Rightarrow> bool \<Rightarrow> region list \<Rightarrow> MemoryError option \<Rightarrow> ('p, MemoryError option, MemoryError) prog" where
  "rollback P plug [] first p = (Ok first, p)"
| "rollback P plug (r # rs) first p =
     (case (if plug then mp_unmap P r else mp_map P r) p of
        (Ok _, p') \<Rightarrow> rollback P plug rs first p'
      | (Err e, p') \<Rightarrow> rollback P plug rs (if first = None then Some e else first) p'
      | (Panic, p') \<Rightarrow> (Panic, p'))"

text \<open>The second loop of \<open>change\<close>.\<close>

fun apply_regions :: "'p mapper_ops \<Rightarrow> bool \<Rightarrow> region list \<Rightarrow> region list \<Rightarrow> ('p, bool, MemoryError) prog" where
  "apply_regions P plug before [] p = (Ok True, p)"
| "apply_regions P plug before (r # rs) p =
     (case (if plug then mp_map P r else mp_unmap P r) p of
        (Ok _, p') \<Rightarrow> apply_regions P plug (before @ [r]) rs p'
      | (Err source, p') \<Rightarrow>
          bnd (rollback P plug (rev before) None) (\<lambda>rb.
          case rb of Some e \<Rightarrow> throw (MemoryError.RollbackFailed source e) | None \<Rightarrow> ret False) p'
      | (Panic, p') \<Rightarrow> (Panic, p'))"

definition commit_blocks :: "bool \<Rightarrow> (u64 \<times> region) list \<Rightarrow> (u64, region) btree \<Rightarrow> (u64, region) btree" where
  "commit_blocks plug changes t =
     foldl (\<lambda>t (addr, r). if plug then bt_insert addr r t else bt_remove addr t) t changes"

definition change ::
  "('q, 'm) crates \<Rightarrow> 'p mapper_ops \<Rightarrow> alloc \<Rightarrow> u64 list \<Rightarrow> bool \<Rightarrow> (virtio_mem \<times> 'p \<times> 'm, bool, MemoryError) prog" where
  "change C P A addrs plug = (\<lambda>(v, p, view).
     case prepare C A v plug addrs [] view of
       Err e \<Rightarrow> (Err e, v, p, view)
     | Panic \<Rightarrow> (Panic, v, p, view)
     | Ok (regions, next) \<Rightarrow>
         (case apply_regions P plug [] regions p of
            (Err e, p') \<Rightarrow> (Err e, v, p', view)
          | (Panic, p') \<Rightarrow> (Panic, v, p', view)
          | (Ok done, p') \<Rightarrow>
              if \<not> done then (Ok False, v, p', view)
              else (Ok True, v\<lparr>blocks := commit_blocks plug (zip addrs regions) (blocks v)\<rparr>, p', next)))"

definition alignment :: "virtio_mem \<Rightarrow> u64" where
  "alignment v = max HOTPLUG_BLOCK_SIZE (block_size v)"

definition virtio_mem_new :: "u64 \<Rightarrow> u64 \<Rightarrow> (virtio_mem, MemoryError) result" where
  "virtio_mem_new region_mib block_mib =
     (if \<not> is_power_of_two block_mib then Err (MemoryError.InvalidBlockSize block_mib)
      else and_then (mib_bytes block_mib) (\<lambda>block_size.
      let alignment = max HOTPLUG_BLOCK_SIZE block_size in
      and_then (mib_bytes region_mib) (\<lambda>capacity.
      if capacity = 0 \<or> \<not> is_multiple_of capacity alignment
      then Err (MemoryError.InvalidRegionSize region_mib (alignment div MIB))
      else Ok \<lparr>control = memory_control_new region_mib block_mib, vstart = 0, capacity = capacity,
             block_size = block_size, block_len = unat block_size, requested = 0, plugged = 0,
             generation = 0, blocks = []\<rparr>)))"

definition attach_at :: "u64 \<Rightarrow> (virtio_mem, unit, MemoryError) prog" where
  "attach_at start =
     bnd get_state (\<lambda>v.
     if \<not> is_multiple_of start (alignment v)
     then throw (MemoryError.HotplugAlignment start (alignment v))
     else
     bnd (pure_res (ok_or (checked_add start (capacity v)) MemoryError.HotplugOverflow)) (\<lambda>_.
     bnd (modify (\<lambda>v. v\<lparr>vstart := start\<rparr>)) (\<lambda>_.
     bnd (pure_res (mib_bytes (requested_size_mib (control v)))) (\<lambda>req.
     modify (\<lambda>v. v\<lparr>requested := req\<rparr>)))))"

definition memory_start :: "virtio_mem \<Rightarrow> virtio_mem" where
  "memory_start v = v\<lparr>control := (control v)\<lparr>lifecycle := Running\<rparr>\<rparr>"

fun unmap_all :: "'p mapper_ops \<Rightarrow> region list \<Rightarrow> (unit, MemoryError) result \<Rightarrow> ('p, unit, MemoryError) prog" where
  "unmap_all P [] res p = (res, p)"
| "unmap_all P (r # rs) res p =
     (case mp_unmap P r p of
        (Ok _, p') \<Rightarrow> unmap_all P rs res p'
      | (Err e, p') \<Rightarrow> unmap_all P rs (if is_ok res then Err e else res) p'
      | (Panic, p') \<Rightarrow> (Panic, p'))"

definition memory_stop :: "'p mapper_ops \<Rightarrow> (virtio_mem \<times> 'p, unit, MemoryError) prog" where
  "memory_stop P = (\<lambda>(v, p).
     case unmap_all P (bt_values (blocks v)) (Ok ()) p of
       (r, p') \<Rightarrow> (r, v\<lparr>control := (control v)\<lparr>lifecycle := Stopped, driver_ready := False\<rparr>\<rparr>, p'))"

definition sync_target :: "bool \<Rightarrow> virtio_mem \<Rightarrow> bool \<times> virtio_mem" where
  "sync_target ready v =
     (let v = v\<lparr>control := (control v)\<lparr>driver_ready := ready\<rparr>\<rparr>;
          req = requested_size_mib (control v) * MIB
      in if req = requested v then (False, v)
         else (True, v\<lparr>requested := req, generation := generation v + 1\<rparr>))"

text \<open>The block addresses a request names; \<open>None\<close> is a malformed range.\<close>

definition request_addresses :: "virtio_mem \<Rightarrow> u16 \<Rightarrow> u64 \<Rightarrow> u64 \<Rightarrow> u64 list option" where
  "request_addresses v kind addr n =
     (if kind = 2 then Some (addresses v)
      else case Option.bind (checked_mul n (block_size v)) (checked_add addr) of
        None \<Rightarrow> None
      | Some end \<Rightarrow>
          if n = 0 \<or> \<not> is_multiple_of addr (block_size v) \<or> addr < vstart v \<or> end > vstart v + capacity v
          then None
          else Some (map (\<lambda>i. addr + word_of_nat i * block_size v) [0 ..< unat n]))"

definition touches_pin :: "virtio_mem \<Rightarrow> (u64 \<times> u64) list \<Rightarrow> u64 \<Rightarrow> bool" where
  "touches_pin v pins a =
     list_ex (\<lambda>(p, len). p < a + block_size v \<and> saturating_add p len > a) pins"

text \<open>The guards of \<open>request\<close>: either the answer, or the blocks to change.\<close>

definition decide :: "virtio_mem \<Rightarrow> u16 \<Rightarrow> u64 \<Rightarrow> u64 \<Rightarrow> (u64 \<times> u64) list \<Rightarrow> (u16 \<times> u16) + u64 list" where
  "decide v kind addr n pins =
     (if kind > 3 then Inl (3, 0)
      else case request_addresses v kind addr n of
        None \<Rightarrow> Inl (3, 0)
      | Some addrs \<Rightarrow>
          let k = length (filter (is_plugged v) addrs) in
          if kind = 3 then Inl (0, if k = 0 then 1 else if k = length addrs then 0 else 2)
          else if (kind = 0 \<and> k \<noteq> 0) \<or> (kind = 1 \<and> k \<noteq> length addrs) then Inl (3, 0)
          else if kind = 0 \<and>
            n > saturating_sub (requested_size_mib (control v) div (block_size v div MIB)) (count v)
          then Inl (1, 0)
          else if kind \<noteq> 0 \<and> list_ex (touches_pin v pins) addrs then Inl (2, 0)
          else Inr addrs)"

definition account :: "virtio_mem \<Rightarrow> virtio_mem" where
  "account v =
     (let bytes = count v * block_size v
      in v\<lparr>plugged := bytes, generation := generation v + 1,
           control := (control v)\<lparr>plugged_size_mib := drop_bit 20 bytes\<rparr>\<rparr>)"

definition memory_request ::
  "('q, 'm) crates \<Rightarrow> 'p mapper_ops \<Rightarrow> alloc \<Rightarrow> bytes \<Rightarrow> (u64 \<times> u64) list \<Rightarrow>
    (virtio_mem \<times> 'p \<times> 'm, u16 \<times> u16, MemoryError) prog" where
  "memory_request C P A req pins =
     bnd get_state (\<lambda>(v, p, view).
     let kind = word_of_nat (le_nat (sub_bytes 0 2 req));
         addr = word_of_nat (le_nat (sub_bytes 8 8 req));
         n = word_of_nat (le_nat (sub_bytes 16 2 req))
     in case decide v kind addr n pins of
          Inl answer \<Rightarrow> ret answer
        | Inr addrs \<Rightarrow>
            bnd (change C P A addrs (kind = 0)) (\<lambda>changed.
            if \<not> changed then ret (2, 0)
            else bnd (modify (\<lambda>(v, p, view). (account v, p, view))) (\<lambda>_. ret (0, 0))))"

text \<open>The descriptor loop of \<open>process\<close>: the request bytes and the pins it adds.\<close>

fun gather ::
  "('q, 'm) crates \<Rightarrow> descriptor list \<Rightarrow> bytes \<Rightarrow> usize \<Rightarrow> bool \<Rightarrow> (u64 \<times> u64) list \<Rightarrow>
    ('m, bytes \<times> (u64 \<times> u64) list, DeviceError) prog" where
  "gather C [] req offset writable pins = ret (req, pins)"
| "gather C (d # ds) req offset writable pins =
     (let pins = pins @ [(d_addr d, ucast (d_len d))] in
      if d_write_only d then gather C ds req offset True pins
      else if writable
      then throw (DeviceError.Memory MemoryError.ReadableDescriptorAfterWritableDescriptor)
      else if length req < offset + unat (d_len d) then panic
      else
      bnd (call_ext DeviceError.GuestAccess (cm_read_slice C (d_addr d) (unat (d_len d)))) (\<lambda>bs.
      gather C ds (put_bytes offset bs req) (offset + unat (d_len d)) writable pins))"

text \<open>The response loop over the writable descriptors.\<close>

fun respond :: "('q, 'm) crates \<Rightarrow> descriptor list \<Rightarrow> bytes \<Rightarrow> usize \<Rightarrow> ('m, unit, DeviceError) prog" where
  "respond C [] response offset = ret ()"
| "respond C (d # ds) response offset =
     (let len = min (unat (d_len d)) (10 - offset) in
      bnd (call_ext DeviceError.GuestAccess (cm_write_slice C (d_addr d) (sub_bytes offset len response))) (\<lambda>_.
      if offset + len = 10 then ret () else respond C ds response (offset + len)))"

definition total_len :: "descriptor list \<Rightarrow> usize" where
  "total_len ds = sum_list (map (\<lambda>d. unat (d_len d)) ds)"

definition memory_response :: "u16 \<Rightarrow> u16 \<Rightarrow> bytes" where
  "memory_response code state =
     put_bytes 8 (le_bytes 2 (unat state)) (put_bytes 0 (le_bytes 2 (unat code)) (replicate 10 0))"

text \<open>The state of \<open>process\<close>: the device, its queues, the host's mapper and the guest memory view.\<close>

type_synonym ('q, 'p, 'm) memory_state = "virtio_mem \<times> 'q queues \<times> 'p \<times> 'm"

definition on_queues :: "('q queues \<times> 'm, 'a, DeviceError) prog \<Rightarrow> (('q, 'p, 'm) memory_state, 'a, DeviceError) prog" where
  "on_queues f = (\<lambda>(v, qs, p, m). case f (qs, m) of (r, qs', m') \<Rightarrow> (r, v, qs', p, m'))"

definition on_view :: "('m, 'a, DeviceError) prog \<Rightarrow> (('q, 'p, 'm) memory_state, 'a, DeviceError) prog" where
  "on_view f = (\<lambda>(v, qs, p, m). case f m of (r, m') \<Rightarrow> (r, v, qs, p, m'))"

definition on_blocks :: "(virtio_mem \<times> 'p \<times> 'm, 'a, MemoryError) prog \<Rightarrow> (('q, 'p, 'm) memory_state, 'a, DeviceError) prog" where
  "on_blocks f = (\<lambda>(v, qs, p, m). case f (v, p, m) of (r, v', p', m') \<Rightarrow> (map_err DeviceError.Memory r, v', qs, p', m'))"

definition process_chain ::
  "('q, 'm) crates \<Rightarrow> 'p mapper_ops \<Rightarrow> alloc \<Rightarrow> (u64 \<times> u64) list \<Rightarrow> chain \<Rightarrow> (('q, 'p, 'm) memory_state, bool, DeviceError) prog" where
  "process_chain C P A pins ch =
     (let rd = total_len (filter (\<lambda>d. \<not> d_write_only d) (descriptors ch));
          wr = total_len (filter d_write_only (descriptors ch))
      in if \<not> (rd = 24 \<and> 10 \<le> wr)
         then throw (DeviceError.Memory (MemoryError.InvalidVirtioMemRequestBuffers rd wr))
         else
         bnd (on_view (gather C (descriptors ch) (replicate 24 0) 0 False pins)) (\<lambda>(req, pins).
         bnd (on_blocks (memory_request C P A req pins)) (\<lambda>(code, state).
         bnd (on_view (respond C (filter d_write_only (descriptors ch)) (memory_response code state) 0)) (\<lambda>_.
         bnd (on_queues (complete C 0 (head ch) 10)) (\<lambda>_.
         ret True)))))"

definition process_step ::
  "('q, 'm) crates \<Rightarrow> 'p mapper_ops \<Rightarrow> alloc \<Rightarrow> (u64 \<times> u64) list \<Rightarrow> (('q, 'p, 'm) memory_state, bool, DeviceError) prog" where
  "process_step C P A pins =
     bnd (on_queues (pop C 0)) (\<lambda>next.
     case next of None \<Rightarrow> ret False | Some ch \<Rightarrow> process_chain C P A pins ch)"

definition memory_process ::
  "('q, 'm) crates \<Rightarrow> 'p mapper_ops \<Rightarrow> alloc \<Rightarrow> (u64 \<times> u64) list \<Rightarrow> (('q, 'p, 'm) memory_state, unit, DeviceError) prog" where
  "memory_process C P A pins = loop_upto 128 (process_step C P A pins)"

definition memory_features :: u64 where
  "memory_features = 2"

definition memory_device_id :: u32 where
  "memory_device_id = 24"

definition memory_read_config :: "virtio_mem \<Rightarrow> usize \<Rightarrow> usize \<Rightarrow> bytes" where
  "memory_read_config v =
     read_config (foldl (\<lambda>config (offset, value). put_bytes offset (le_bytes 8 (unat value)) config) (replicate 56 0)
       [(0, block_size v), (16, vstart v), (24, capacity v), (32, capacity v), (40, plugged v), (48, requested v)])"

definition memory_reset :: "(virtio_mem, unit, DeviceError) prog" where
  "memory_reset = modify (\<lambda>v. v\<lparr>control := (control v)\<lparr>driver_ready := False\<rparr>\<rparr>)"

definition memory_drop :: "virtio_mem \<Rightarrow> virtio_mem" where
  "memory_drop v = v\<lparr>control := (control v)\<lparr>lifecycle := Stopped, driver_ready := False\<rparr>\<rparr>"

definition memory_ops :: "(virtio_mem, 'q, 'm) virtio_ops" where
  "memory_ops = \<lparr>vd_required_features = (\<lambda>v. memory_features), vd_generation = generation,
     vd_device_id = (\<lambda>v. memory_device_id), vd_features = (\<lambda>v. memory_features), vd_queue_count = (\<lambda>v. 1),
     vd_read_config = memory_read_config, vd_notify = (\<lambda>i. ret ()), vd_poll = ret (), vd_reset = memory_reset,
     vd_flush = ret ()\<rparr>"

interpretation memdev: virtio_device memory_ops
  by unfold_locales
    (auto simp: memory_ops_def memory_reset_def keeps_def ret_def modify_def identity_def reflpD)

section \<open>The contract of a mapper\<close>

lemma prepare_regions:
  "prepare C A v plug addrs acc m = Ok (regions, m') \<Longrightarrow> \<exists>rs. regions = acc @ rs \<and> length rs = length addrs \<and>
    (\<forall>(a, r) \<in> set (zip addrs rs). if plug then A a (block_len v) = Inr r else bt_get (blocks v) a = Some r)"
proof (induction addrs arbitrary: acc m)
  case (Cons a addrs)
  then obtain r m1 where r: "if plug then A a (block_len v) = Inr r else bt_get (blocks v) a = Some r"
    and "prepare C A v plug addrs (acc @ [r]) m1 = Ok (regions, m')"
    by (auto simp: and_then_Ok_iff split: if_splits option.splits elim!: of_sum.elims)
  from Cons.IH [OF this(2)] obtain rs where "regions = acc @ r # rs" "length rs = length addrs"
    "\<forall>(a, r) \<in> set (zip addrs rs). if plug then A a (block_len v) = Inr r else bt_get (blocks v) a = Some r"
    by auto
  with r show ?case by (intro exI [of _ "r # rs"]) auto
qed simp

text \<open>The documented contract of \<open>Mapper\<close> over the set of mapped regions: each operation is atomic on
  error, a region is mapped at most once, and only a mapped region can be unmapped. \<open>ok\<close> is the
  implementation's invariant, \<open>valid\<close> what a region must satisfy to be passed at all.\<close>

locale mapper =
  fixes P :: "'p mapper_ops" and mapped :: "'p \<Rightarrow> region set" and ok :: "'p \<Rightarrow> bool" and valid :: "region \<Rightarrow> bool"
  assumes map_Ok: "ok p \<Longrightarrow> valid r \<Longrightarrow> mp_map P r p = (Ok (), p') \<Longrightarrow>
      ok p' \<and> r \<notin> mapped p \<and> mapped p' = insert r (mapped p)"
    and map_Err: "ok p \<Longrightarrow> valid r \<Longrightarrow> mp_map P r p = (Err e, p') \<Longrightarrow> ok p' \<and> mapped p' = mapped p"
    and unmap_Ok: "ok p \<Longrightarrow> valid r \<Longrightarrow> mp_unmap P r p = (Ok (), p') \<Longrightarrow>
      ok p' \<and> r \<in> mapped p \<and> mapped p' = mapped p - {r}"
    and unmap_Err: "ok p \<Longrightarrow> valid r \<Longrightarrow> mp_unmap P r p = (Err e, p') \<Longrightarrow> ok p' \<and> mapped p' = mapped p"
    and map_returns: "ok p \<Longrightarrow> valid r \<Longrightarrow> fst (mp_map P r p) \<noteq> Panic"
    and unmap_returns: "ok p \<Longrightarrow> valid r \<Longrightarrow> fst (mp_unmap P r p) \<noteq> Panic"
    and mapped_valid: "ok p \<Longrightarrow> r \<in> mapped p \<Longrightarrow> valid r"
begin

text \<open>The mapped set after the regions \<open>rs\<close> were plugged (or unplugged).\<close>

definition changed :: "bool \<Rightarrow> region set \<Rightarrow> region list \<Rightarrow> region set" where
  "changed plug M rs = (if plug then M \<union> set rs else M - set rs)"

definition changeable :: "bool \<Rightarrow> region set \<Rightarrow> region list \<Rightarrow> bool" where
  "changeable plug M rs \<longleftrightarrow> distinct rs \<and> (if plug then set rs \<inter> M = {} else set rs \<subseteq> M)"

lemma step_Ok:
  "ok p \<Longrightarrow> valid r \<Longrightarrow> (if plug then mp_map P r else mp_unmap P r) p = (Ok u, p') \<Longrightarrow>
    ok p' \<and> changeable plug (mapped p) [r] \<and> mapped p' = changed plug (mapped p) [r]"
  using map_Ok [of p r p'] unmap_Ok [of p r p'] by (auto simp: changeable_def changed_def split: if_splits)

lemma step_Err:
  "ok p \<Longrightarrow> valid r \<Longrightarrow> (if plug then mp_map P r else mp_unmap P r) p = (Err e, p') \<Longrightarrow> ok p' \<and> mapped p' = mapped p"
  using map_Err [of p r e p'] unmap_Err [of p r e p'] by (auto split: if_splits)

lemma step_no_Panic: "ok p \<Longrightarrow> valid r \<Longrightarrow> (if plug then mp_map P r else mp_unmap P r) p \<noteq> (Panic, p')"
  using map_returns [of p r] unmap_returns [of p r] by (auto split: if_splits)

lemma rollback_first: "rollback P plug rs (Some e) p = (Ok first, p') \<Longrightarrow> first = Some e"
  by (induction rs arbitrary: p) (auto split: prod.splits result.splits)

lemma rollback_ok:
  assumes "ok p" and "\<forall>r \<in> set rs. valid r" and "rollback P plug rs first p = (res, p')"
  shows "ok p' \<and> (\<exists>e. res = Ok e)"
  using assms
proof (induction rs arbitrary: first p)
  case (Cons r rs)
  obtain u p1 where s: "(if plug then mp_unmap P r else mp_map P r) p = (u, p1)" by fastforce
  then have s': "(if \<not> plug then mp_map P r else mp_unmap P r) p = (u, p1)" by (simp split: if_splits)
  have v: "valid r" using Cons.prems(2) by simp
  have "u \<noteq> Panic" using step_no_Panic [OF Cons.prems(1) v] s' by blast
  moreover have "ok p1" if "u = Ok x" for x using step_Ok [OF Cons.prems(1) v] s' that by blast
  moreover have "ok p1" if "u = Err e" for e using step_Err [OF Cons.prems(1) v] s' that by blast
  ultimately show ?case using Cons.IH Cons.prems(2,3) s by (cases u) (auto split: if_splits)
qed auto

lemma rollback_None:
  assumes "ok p" and "\<forall>r \<in> set rs. valid r" and "rollback P plug rs None p = (Ok None, p')"
  shows "mapped p' = changed (\<not> plug) (mapped p) rs"
  using assms
proof (induction rs arbitrary: p)
  case Nil
  then show ?case by (simp add: changed_def)
next
  case (Cons r rs)
  obtain res p1 where s: "(if plug then mp_unmap P r else mp_map P r) p = (res, p1)" by fastforce
  have v: "valid r" using Cons.prems(2) by simp
  show ?case
  proof (cases res)
    case (Ok u)
    then have "ok p1" "mapped p1 = changed (\<not> plug) (mapped p) [r]"
      using step_Ok [OF Cons.prems(1) v, of "\<not> plug" u p1] s by (auto split: if_splits)
    moreover have "mapped p' = changed (\<not> plug) (mapped p1) rs"
      using Cons s Ok \<open>ok p1\<close> by (simp split: if_splits)
    ultimately show ?thesis by (auto simp: changed_def)
  next
    case (Err e)
    with Cons.prems s rollback_first [of plug rs e p1] show ?thesis by (simp split: if_splits)
  next
    case Panic
    with Cons.prems s show ?thesis by (simp split: if_splits)
  qed
qed

lemma apply_regions_spec:
  assumes "ok p" and "\<forall>r \<in> set (before @ rs). valid r" and "apply_regions P plug before rs p = (r, p')"
    and "changeable plug M before" and "mapped p = changed plug M before"
  shows "ok p' \<and> (case r of
      Ok True \<Rightarrow> changeable plug M (before @ rs) \<and> mapped p' = changed plug M (before @ rs)
    | Ok False \<Rightarrow> mapped p' = M
    | Err e \<Rightarrow> \<exists>a b. e = MemoryError.RollbackFailed a b
    | Panic \<Rightarrow> False)"
  using assms
proof (induction rs arbitrary: before p)
  case Nil
  then show ?case by auto
next
  case (Cons x rs)
  obtain res p1 where s: "(if plug then mp_map P x else mp_unmap P x) p = (res, p1)" by fastforce
  have v: "valid x" using Cons.prems(2) by simp
  show ?case
  proof (cases res)
    case (Ok u)
    with step_Ok [OF Cons.prems(1) v] s
    have st: "ok p1" "changeable plug (mapped p) [x]" "mapped p1 = changed plug (mapped p) [x]" by blast+
    have "changeable plug M (before @ [x])" and "mapped p1 = changed plug M (before @ [x])"
      using st Cons.prems(4,5) by (auto simp: changeable_def changed_def split: if_splits)
    moreover have "apply_regions P plug (before @ [x]) rs p1 = (r, p')"
      using Cons.prems(3) s Ok by (simp split: if_splits)
    moreover have "\<forall>r \<in> set ((before @ [x]) @ rs). valid r" using Cons.prems(2) by simp
    ultimately have "ok p' \<and> (case r of
        Ok True \<Rightarrow> changeable plug M ((before @ [x]) @ rs) \<and> mapped p' = changed plug M ((before @ [x]) @ rs)
      | Ok False \<Rightarrow> mapped p' = M | Err e \<Rightarrow> \<exists>a b. e = MemoryError.RollbackFailed a b | Panic \<Rightarrow> False)"
      using Cons.IH [OF st(1)] by blast
    then show ?thesis by (simp only: append_assoc append_Cons append_Nil)
  next
    case (Err source)
    obtain rb p2 where rb: "rollback P plug (rev before) None p1 = (rb, p2)" by fastforce
    have m1: "ok p1" "mapped p1 = mapped p" using step_Err [OF Cons.prems(1) v] s Err by blast+
    have vb: "\<forall>r \<in> set (rev before). valid r" using Cons.prems(2) by simp
    from rollback_ok [OF m1(1) vb rb] obtain first where first: "rb = Ok first" and "ok p2" by blast
    show ?thesis
    proof (cases first)
      case None
      with rb first rollback_None [OF m1(1) vb] have "mapped p2 = changed (\<not> plug) (mapped p1) (rev before)" by blast
      then have "mapped p2 = M" using m1 Cons.prems(4,5) by (auto simp: changeable_def changed_def split: if_splits)
      with Cons.prems(3) s Err rb first None \<open>ok p2\<close> show ?thesis by (auto simp: bnd_def ret_def split: if_splits)
    next
      case (Some e)
      with Cons.prems(3) s Err rb first \<open>ok p2\<close> show ?thesis by (auto simp: bnd_def throw_def split: if_splits)
    qed
  next
    case Panic
    with s step_no_Panic [OF Cons.prems(1) v] show ?thesis by blast
  qed
qed

lemma prepare_valid:
  assumes "prepare C A v plug addrs [] m = Ok (regions, m')" and "ok p" and "set (bt_values (blocks v)) \<subseteq> mapped p"
    and "\<forall>a r. A a (block_len v) = Inr r \<longrightarrow> valid r"
  shows "\<forall>r \<in> set regions. valid r"
proof
  fix r assume "r \<in> set regions"
  obtain len: "length regions = length addrs"
    and g: "\<forall>(a, r) \<in> set (zip addrs regions). if plug then A a (block_len v) = Inr r else bt_get (blocks v) a = Some r"
    using prepare_regions [OF assms(1)] by auto
  have "snd ` set (zip addrs regions) = set regions" using len map_snd_zip [of addrs regions] by (metis list.set_map)
  with \<open>r \<in> set regions\<close> obtain a where "(a, r) \<in> set (zip addrs regions)" by force
  with g have "if plug then A a (block_len v) = Inr r else bt_get (blocks v) a = Some r" by blast
  moreover have "valid r" if "bt_get (blocks v) a = Some r"
  proof -
    from that have "(a, r) \<in> set (blocks v)" unfolding bt_get_def by (rule map_of_SomeD)
    then have "r \<in> set (bt_values (blocks v))" by (force simp: bt_values_def)
    with assms(2,3) mapped_valid show ?thesis by blast
  qed
  ultimately show "valid r" using assms(4) by (auto split: if_splits)
qed

lemma change_spec:
  assumes "change C P A addrs plug (v, p, view) = (r, v', p', view')"
    and "\<forall>a \<in> set addrs. plug \<or> bt_get (blocks v) a \<noteq> None"
    and "ok p" and "set (bt_values (blocks v)) \<subseteq> mapped p" and "\<forall>a r. A a (block_len v) = Inr r \<longrightarrow> valid r"
  shows "ok p' \<and> (case r of
      Ok True \<Rightarrow> (\<exists>regions. prepare C A v plug addrs [] view = Ok (regions, view') \<and>
        v' = v\<lparr>blocks := commit_blocks plug (zip addrs regions) (blocks v)\<rparr> \<and>
        changeable plug (mapped p) regions \<and> mapped p' = changed plug (mapped p) regions)
    | Ok False \<Rightarrow> v' = v \<and> view' = view \<and> mapped p' = mapped p
    | Err e \<Rightarrow> v' = v \<and> view' = view \<and> (mapped p' = mapped p \<or> (\<exists>a b. e = MemoryError.RollbackFailed a b))
    | Panic \<Rightarrow> False)"
proof -
  have np: "prepare C A v plug as rs m \<noteq> Panic" if "\<forall>a \<in> set as. plug \<or> bt_get (blocks v) a \<noteq> None" for as rs m
    using that
  proof (induction as arbitrary: rs m)
    case (Cons a as)
    then show ?case
      by (auto simp: and_then_Panic_iff split: option.splits)
  qed simp
  show ?thesis
  proof (cases "prepare C A v plug addrs [] view")
    case (Ok x)
    obtain regions nx where x: "x = (regions, nx)" by force
    obtain ar p1 where ap: "apply_regions P plug [] regions p = (ar, p1)" by fastforce
    have "\<forall>r \<in> set ([] @ regions). valid r"
      using prepare_valid [OF Ok [unfolded x] assms(3-5)] by simp
    moreover have "changeable plug (mapped p) []" "mapped p = changed plug (mapped p) []"
      by (simp_all add: changeable_def changed_def)
    ultimately have "ok p1 \<and> (case ar of
        Ok True \<Rightarrow> changeable plug (mapped p) ([] @ regions) \<and> mapped p1 = changed plug (mapped p) ([] @ regions)
      | Ok False \<Rightarrow> mapped p1 = mapped p | Err e \<Rightarrow> \<exists>a b. e = MemoryError.RollbackFailed a b | Panic \<Rightarrow> False)"
      using apply_regions_spec [OF assms(3) _ ap] by blast
    with assms(1) Ok x ap show ?thesis
      by (cases ar) (auto simp: change_def split: bool.splits if_splits)
  next
    case (Err e)
    with assms(1,3) show ?thesis by (auto simp: change_def)
  next
    case Panic
    with np [OF assms(2)] show ?thesis by simp
  qed
qed

end

section \<open>The blocks of the device\<close>

definition block_in :: "virtio_mem \<Rightarrow> u64 \<Rightarrow> bool" where
  "block_in v a \<longleftrightarrow> unat (block_size v) dvd unat a \<and> unat (vstart v) \<le> unat a \<and>
     unat a + unat (block_size v) \<le> unat (vstart v) + unat (capacity v)"

definition vm_inv :: "virtio_mem \<Rightarrow> bool" where
  "vm_inv v \<longleftrightarrow> bt_inv (blocks v) \<and> 0 < unat (block_size v) \<and> block_len v = unat (block_size v) \<and>
     unat (vstart v) + unat (capacity v) < 2 ^ 64 \<and>
     (\<forall>(a, r) \<in> set (blocks v). block_in v a \<and> r_start r = a \<and> r_len r = block_size v) \<and>
     unat (plugged v) = length (blocks v) * unat (block_size v) \<and>
     plugged_size_mib (control v) = drop_bit 20 (plugged v) \<and>
     unat (block_size v) = unat (block_size_mib (control v)) * 2 ^ 20 \<and>
     unat (capacity v) = unat (region_size_mib (control v)) * 2 ^ 20 \<and>
     requested_size_mib (control v) \<le> region_size_mib (control v)"

lemma aligned_blocks_fit:
  fixes S :: "nat set"
  assumes "finite S" and "0 < b" and "\<forall>a \<in> S. b dvd a \<and> lo \<le> a \<and> a + b \<le> hi"
  shows "card S * b \<le> hi - lo"
proof -
  have "card (\<Union>a \<in> S. {a ..< a + b}) = (\<Sum>a \<in> S. card {a ..< a + b})"
  proof (rule card_UN_disjoint)
    show "\<forall>i \<in> S. \<forall>j \<in> S. i \<noteq> j \<longrightarrow> {i ..< i + b} \<inter> {j ..< j + b} = {}"
    proof (intro ballI impI)
      fix i j assume "i \<in> S" "j \<in> S" "i \<noteq> j"
      moreover from \<open>i \<in> S\<close> assms(3) obtain k where "i = b * k" by (metis dvdE)
      moreover from \<open>j \<in> S\<close> assms(3) obtain l where "j = b * l" by (metis dvdE)
      ultimately have "i = b * k" "j = b * l" "k \<noteq> l" by auto
      then have "i + b \<le> j \<or> j + b \<le> i"
        by (metis Suc_leI add.commute linorder_neqE_nat mult_Suc_right mult_le_mono2)
      then show "{i ..< i + b} \<inter> {j ..< j + b} = {}" by auto
    qed
  qed (use assms in auto)
  also have "\<dots> = card S * b" by simp
  finally have "card S * b = card (\<Union>a \<in> S. {a ..< a + b})" ..
  also have "\<dots> \<le> card {lo ..< hi}" using assms(3) by (intro card_mono) auto
  finally show ?thesis by simp
qed

lemma blocks_fit:
  assumes "bt_inv t" and "0 < unat b" and "\<forall>(a, r) \<in> set t. unat b dvd unat a \<and> lo \<le> unat a \<and> unat a + unat b \<le> hi"
  shows "length t * unat b \<le> hi - lo"
proof -
  have "inj_on unat (set (map fst t))" by (auto simp: inj_on_def word_unat_eq_iff)
  then have "card (unat ` set (map fst t)) = length t"
    using bt_inv_distinct [OF assms(1)] by (simp only: card_image distinct_card length_map)
  moreover have "card (unat ` set (map fst t)) * unat b \<le> hi - lo"
    using assms(2,3) by (intro aligned_blocks_fit) auto
  ultimately show ?thesis by simp
qed

lemma commit_plug:
  assumes "bt_inv t" and "distinct addrs" and "\<forall>a \<in> set addrs. bt_get t a = None" and "length regions = length addrs"
  shows "bt_inv (commit_blocks True (zip addrs regions) t) \<and>
    set (commit_blocks True (zip addrs regions) t) = set t \<union> set (zip addrs regions) \<and>
    length (commit_blocks True (zip addrs regions) t) = length t + length addrs"
  using assms
proof (induction addrs arbitrary: t regions)
  case Nil
  then show ?case by (simp add: commit_blocks_def)
next
  case (Cons a addrs)
  then obtain r rs where r: "regions = r # rs" by (cases regions) auto
  let ?t = "bt_insert a r t"
  have "set ?t = insert (a, r) (set t)"
    using set_bt_insert [OF Cons.prems(1), of a r] Cons.prems(3) bt_get_Some_iff [OF Cons.prems(1)] by fastforce
  moreover have "commit_blocks True (zip (a # addrs) regions) t = commit_blocks True (zip addrs rs) ?t"
    using r by (simp add: commit_blocks_def)
  moreover have "bt_get ?t x = None" if "x \<in> set addrs" for x
    using that Cons.prems by (auto simp: bt_get_insert)
  moreover have "length ?t = Suc (length t)" using Cons.prems(3) by (simp add: length_bt_insert)
  ultimately show ?case using Cons.IH [of ?t rs] Cons.prems r by simp
qed

lemma commit_unplug:
  assumes "bt_inv t" and "distinct addrs" and "\<forall>a \<in> set addrs. bt_get t a \<noteq> None" and "length regions = length addrs"
  shows "bt_inv (commit_blocks False (zip addrs regions) t) \<and>
    set (commit_blocks False (zip addrs regions) t) = {p \<in> set t. fst p \<notin> set addrs} \<and>
    length (commit_blocks False (zip addrs regions) t) + length addrs = length t"
  using assms
proof (induction addrs arbitrary: t regions)
  case Nil
  then show ?case by (simp add: commit_blocks_def)
next
  case (Cons a addrs)
  then obtain r rs where r: "regions = r # rs" by (cases regions) auto
  let ?t = "bt_remove a t"
  have "commit_blocks False (zip (a # addrs) regions) t = commit_blocks False (zip addrs rs) ?t"
    using r by (simp add: commit_blocks_def)
  moreover have "bt_get ?t x \<noteq> None" if "x \<in> set addrs" for x
    using that Cons.prems by (auto simp: bt_get_remove)
  moreover have "Suc (length ?t) = length t" using Cons.prems(1,3) by (intro length_bt_remove) simp_all
  ultimately show ?case using Cons.IH [of ?t rs] Cons.prems r by (auto simp: set_bt_remove)
qed

text \<open>\<open>GuestRegionMmap::from_range\<close> allocates the range it was asked for.\<close>

definition alloc_law :: "alloc \<Rightarrow> bool" where
  "alloc_law A \<longleftrightarrow> (\<forall>a n r. A a n = Inr r \<longrightarrow> r_start r = a \<and> unat (r_len r) = n)"

lemma request_addresses_spec:
  assumes "vm_inv v" and "request_addresses v k addr n = Some addrs" and "k \<noteq> 2"
  shows "n \<noteq> 0 \<and> distinct addrs \<and> length addrs = unat n \<and> (\<forall>a \<in> set addrs. block_in v a)"
proof -
  let ?b = "unat (block_size v)"
  from assms(2,3) obtain len e where len: "checked_mul n (block_size v) = Some len" and e: "checked_add addr len = Some e"
    and n: "n \<noteq> 0" and g: "is_multiple_of addr (block_size v)" "vstart v \<le> addr" "e \<le> vstart v + capacity v"
    and addrs: "addrs = map (\<lambda>i. addr + word_of_nat i * block_size v) [0 ..< unat n]"
    by (auto simp: request_addresses_def not_less split: option.splits if_splits bind_splits)
  have e': "unat e = unat addr + unat n * ?b"
    using checked_mul_Some [OF len] checked_add_Some [OF e] by simp
  have cap: "unat (vstart v + capacity v) = unat (vstart v) + unat (capacity v)"
    using assms(1) by (simp add: vm_inv_def unat_word_ariths)
  have elem: "unat (addr + word_of_nat i * block_size v) = unat addr + i * ?b" if "i < unat n" for i
  proof -
    have "i * ?b \<le> unat n * ?b" using that by (intro mult_le_mono1) simp
    moreover have "unat e < 2 ^ 64" using unat_bound [of e] by simp
    ultimately have "unat addr + i * ?b < 2 ^ 64" using e' by linarith
    moreover have "i < 2 ^ 64" using that unat_bound [of n] by simp
    ultimately show ?thesis
      by (simp add: unat_word_ariths unat_of_nat take_bit_eq_mod)
  qed
  have b0: "0 < ?b" using assms(1) by (simp add: vm_inv_def)
  have "inj_on (\<lambda>i. addr + word_of_nat i * block_size v) {0 ..< unat n}"
  proof (rule inj_onI)
    fix i j assume i: "i \<in> {0 ..< unat n}" and j: "j \<in> {0 ..< unat n}"
      and eq: "addr + word_of_nat i * block_size v = addr + word_of_nat j * block_size v"
    have "unat addr + i * ?b = unat (addr + word_of_nat i * block_size v)" using elem i by simp
    also have "\<dots> = unat addr + j * ?b" unfolding eq using elem j by simp
    finally show "i = j" using b0 by simp
  qed
  moreover have "block_in v (addr + word_of_nat i * block_size v)" if "i < unat n" for i
  proof -
    have "(i + 1) * ?b \<le> unat n * ?b" using that by (intro mult_le_mono1) simp
    then have "unat addr + i * ?b + ?b \<le> unat e" using e' by simp
    with g cap that elem [OF that] show ?thesis
      by (simp add: block_in_def is_multiple_of_unat word_le_nat_alt)
  qed
  ultimately show ?thesis using n addrs by (simp add: distinct_map)
qed

lemma keys_block_in: "vm_inv v \<Longrightarrow> a \<in> set (addresses v) \<Longrightarrow> block_in v a \<and> is_plugged v a"
  by (force simp: vm_inv_def addresses_def bt_keys_def is_plugged_def bt_get_None_iff)

lemma addresses_distinct: "vm_inv v \<Longrightarrow> distinct (addresses v)"
  by (simp add: vm_inv_def addresses_def bt_keys_def bt_inv_distinct)

lemma decide_change:
  assumes "vm_inv v" and "decide v k addr n pins = Inr addrs"
  shows "distinct addrs \<and> (\<forall>a \<in> set addrs. block_in v a) \<and>
    (if k = 0 then n \<noteq> 0 \<and> length addrs = unat n \<and> (\<forall>a \<in> set addrs. \<not> is_plugged v a) \<and>
       n \<le> saturating_sub (requested_size_mib (control v) div (block_size v div MIB)) (count v)
     else \<forall>a \<in> set addrs. is_plugged v a \<and> \<not> touches_pin v pins a)"
proof -
  from assms(2) have ra: "request_addresses v k addr n = Some addrs" and k: "k \<le> 3" "k \<noteq> 3"
    and kp: "k = 0 \<Longrightarrow> filter (is_plugged v) addrs = []" "k = 1 \<Longrightarrow> length (filter (is_plugged v) addrs) = length addrs"
    and tgt: "k = 0 \<Longrightarrow> n \<le> saturating_sub (requested_size_mib (control v) div (block_size v div MIB)) (count v)"
    and pin: "k \<noteq> 0 \<Longrightarrow> \<not> list_ex (touches_pin v pins) addrs"
    by (auto simp: decide_def Let_def not_less split: if_splits option.splits)
  have "unat k \<le> 3" using k(1) by (simp add: word_le_nat_alt)
  moreover have "unat k \<noteq> 3" using k(2) by (simp add: word_unat_eq_iff)
  ultimately have "unat k = 0 \<or> unat k = 1 \<or> unat k = 2" by linarith
  then have cases: "k = 0 \<or> k = 1 \<or> k = 2" by (simp add: word_unat_eq_iff)
  have all: "\<forall>a \<in> set addrs. is_plugged v a" if "length (filter (is_plugged v) addrs) = length addrs"
    using that length_filter_less [of _ addrs "is_plugged v"] by (metis less_irrefl)
  show ?thesis
  proof (cases "k = 2")
    case True
    with ra have "addrs = addresses v" by (simp add: request_addresses_def)
    with True assms(1) keys_block_in addresses_distinct pin show ?thesis by (auto simp: list_ex_iff)
  next
    case False
    note spec = request_addresses_spec [OF assms(1) ra False]
    show ?thesis
    proof (cases "k = 0")
      case True
      with spec kp tgt show ?thesis by (auto simp: filter_empty_conv)
    next
      case False
      with cases \<open>k \<noteq> 2\<close> have "k = 1" by blast
      with False spec all kp(2) pin show ?thesis by (auto simp: list_ex_iff)
    qed
  qed
qed

lemma memory_request_cases:
  assumes "memory_request C P A req pins (v, p, m) = (r, v', p', m')"
  shows "(\<exists>answer. r = Ok answer \<and> v' = v \<and> p' = p \<and> m' = m) \<or>
    (\<exists>k addr n addrs r1 v1. decide v k addr n pins = Inr addrs \<and> change C P A addrs (k = 0) (v, p, m) = (r1, v1, p', m') \<and>
      (case r1 of Ok True \<Rightarrow> r = Ok (0, 0) \<and> v' = account v1 | Ok False \<Rightarrow> r = Ok (2, 0) \<and> v' = v1
       | Err e \<Rightarrow> r = Err e \<and> v' = v1 | Panic \<Rightarrow> r = Panic \<and> v' = v1) \<and>
      k = word_of_nat (le_nat (sub_bytes 0 2 req)))"
proof -
  define k :: u16 where "k = word_of_nat (le_nat (sub_bytes 0 2 req))"
  define addr :: u64 where "addr = word_of_nat (le_nat (sub_bytes 8 8 req))"
  define n :: u64 where "n = word_of_nat (le_nat (sub_bytes 16 2 req))"
  note run = assms [unfolded memory_request_def Let_def, folded k_def addr_def n_def]
  show ?thesis
  proof (cases "decide v k addr n pins")
    case (Inl a)
    with run show ?thesis by (auto simp: prog_defs)
  next
    case (Inr addrs)
    obtain r1 v1 p1 m1 where c: "change C P A addrs (k = 0) (v, p, m) = (r1, v1, p1, m1)" by (metis prod_cases4)
    have "p1 = p' \<and> m1 = m' \<and> (case r1 of Ok True \<Rightarrow> r = Ok (0, 0) \<and> v' = account v1 | Ok False \<Rightarrow> r = Ok (2, 0) \<and> v' = v1
       | Err e \<Rightarrow> r = Err e \<and> v' = v1 | Panic \<Rightarrow> r = Panic \<and> v' = v1)"
      using run Inr c by (cases r1) (auto simp: prog_defs split: if_splits bool.splits)
    with Inr c k_def show ?thesis by blast
  qed
qed

lemma block_mib: "vm_inv v \<Longrightarrow> block_size v div MIB = block_size_mib (control v) \<and> 0 < unat (block_size_mib (control v))"
  by (auto simp: vm_inv_def MIB_def word_unat_eq_iff unat_div_distrib)

text \<open>Construction, placement and the host's side keep the invariant.\<close>

lemma mib_bytes_Ok: "mib_bytes m = Ok b \<Longrightarrow> unat b = unat m * 2 ^ 20"
  by (auto simp: mib_bytes_def MIB_def dest!: checked_mul_Some)

lemma virtio_mem_new_inv:
  assumes "virtio_mem_new region_mib block_mib = Ok v"
  shows "vm_inv v \<and> blocks v = []"
proof -
  from assms obtain bs cap where p2: "is_power_of_two block_mib" and bs: "mib_bytes block_mib = Ok bs"
    and cap: "mib_bytes region_mib = Ok cap"
    and v: "v = \<lparr>control = memory_control_new region_mib block_mib, vstart = 0, capacity = cap,
             block_size = bs, block_len = unat bs, requested = 0, plugged = 0, generation = 0, blocks = []\<rparr>"
    by (auto simp: virtio_mem_new_def and_then_Ok_iff Let_def split: if_splits)
  have "0 < unat block_mib" using p2 by (simp add: is_power_of_two_def unat_gt_0)
  moreover have "unat cap < 2 ^ 64" using unat_bound [of cap] by simp
  ultimately show ?thesis
    using v mib_bytes_Ok [OF bs] mib_bytes_Ok [OF cap]
    by (simp add: vm_inv_def memory_control_new_def block_in_def)
qed

lemma attach_at_inv:
  assumes "vm_inv v" and "blocks v = []" and "attach_at start v = (Ok (), v')"
  shows "vm_inv v' \<and> blocks v' = []"
proof -
  from assms(3) obtain e req where "checked_add start (capacity v) = Some e"
    and "v' = v\<lparr>vstart := start, requested := req\<rparr>"
    by (auto simp: attach_at_def prog_defs split: if_splits result.splits)
  with assms(1,2) show ?thesis by (auto simp: vm_inv_def checked_add_def split: if_splits)
qed

lemma set_requested_inv:
  assumes "vm_inv v" and "set_requested_mib target (control v) = (r, s')"
  shows "vm_inv (v\<lparr>control := s'\<rparr>)"
  using assms by (auto simp: set_requested_mib_def validate_target_def prog_defs vm_inv_def block_in_def
      split: if_splits)

lemma sync_target_inv: "vm_inv v \<Longrightarrow> vm_inv (snd (sync_target ready v))"
  by (auto simp: sync_target_def Let_def vm_inv_def block_in_def)

lemma lifecycle_inv:
  "vm_inv v \<Longrightarrow> vm_inv (v\<lparr>control := (control v)\<lparr>lifecycle := l, driver_ready := d\<rparr>\<rparr>)"
  by (auto simp: vm_inv_def block_in_def)

text \<open>A granted plug ends within the host's target.\<close>

lemma plug_within_target:
  assumes "vm_inv v" and "n \<noteq> 0"
    and "n \<le> saturating_sub (requested_size_mib (control v) div (block_size v div MIB)) (count v)"
  shows "(length (blocks v) + unat n) * unat (block_size v) \<le> unat (requested_size_mib (control v)) * 2 ^ 20"
proof -
  let ?T = "unat (requested_size_mib (control v))" and ?b = "unat (block_size_mib (control v))"
  have b: "block_size v div MIB = block_size_mib (control v)" "0 < ?b" "unat (block_size v) = ?b * 2 ^ 20"
    using block_mib [OF assms(1)] assms(1) by (simp_all add: vm_inv_def)
  have "length (blocks v) \<le> length (blocks v) * unat (block_size v)" using b by simp
  also have "\<dots> = unat (plugged v)" using assms(1) by (simp add: vm_inv_def)
  also have "\<dots> < 2 ^ 64" using unat_bound [of "plugged v"] by simp
  finally have "unat (count v) = length (blocks v)" by (simp add: count_def unat_of_nat take_bit_eq_mod)
  with assms(3) b(1) have "unat n \<le> ?T div ?b - length (blocks v)"
    by (simp add: word_le_nat_alt unat_saturating_sub unat_div_distrib)
  moreover have "0 < unat n" using assms(2) by (simp add: unat_gt_0)
  ultimately have "length (blocks v) + unat n \<le> ?T div ?b" by linarith
  then have "(length (blocks v) + unat n) * ?b \<le> ?T"
    by (meson div_times_less_eq_dividend le_trans mult_le_mono1)
  then show ?thesis using b(3) by (simp add: algebra_simps)
qed

text \<open>What a request may do to the plugged blocks: add some up to the target, or remove some that
  no pending descriptor touches.\<close>

definition fair :: "(u64 \<times> u64) list \<Rightarrow> virtio_mem \<Rightarrow> virtio_mem \<Rightarrow> bool" where
  "fair pins v v' \<longleftrightarrow> blocks v' = blocks v \<or>
     set (blocks v) \<subseteq> set (blocks v') \<and> unat (plugged v') \<le> unat (requested_size_mib (control v)) * 2 ^ 20 \<or>
     set (blocks v') \<subseteq> set (blocks v) \<and> (\<forall>(a, r) \<in> set (blocks v) - set (blocks v'). \<not> touches_pin v pins a)"

text \<open>Plugging and unplugging keep the invariant.\<close>

lemma account_inv:
  assumes "vm_inv v" and "bt_inv t" and "\<forall>(a, r) \<in> set t. block_in v a \<and> r_start r = a \<and> r_len r = block_size v"
  shows "vm_inv (account (v\<lparr>blocks := t\<rparr>)) \<and> unat (plugged (account (v\<lparr>blocks := t\<rparr>))) = length t * unat (block_size v)"
proof -
  have inv: "0 < unat (block_size v)" "unat (vstart v) + unat (capacity v) < 2 ^ 64"
    using assms(1) by (simp_all add: vm_inv_def)
  have "length t * unat (block_size v) \<le> unat (capacity v)"
    using blocks_fit [OF assms(2) inv(1), of "unat (vstart v)" "unat (vstart v) + unat (capacity v)"] assms(3)
    by (auto simp: block_in_def)
  moreover have "unat (capacity v) < 2 ^ 64" using unat_bound [of "capacity v"] by simp
  moreover have "length t \<le> length t * unat (block_size v)" using inv(1) by simp
  ultimately have "length t * unat (block_size v) < 2 ^ 64" "length t < 2 ^ 64" by linarith+
  then have "unat (word_of_nat (length t) * block_size v) = length t * unat (block_size v)"
    by (simp add: unat_word_ariths unat_of_nat take_bit_eq_mod)
  then show ?thesis
    using assms by (auto simp: vm_inv_def account_def Let_def count_def block_in_def)
qed

context mapper
begin

text \<open>What a request may do to device and mapper together: the invariant holds, the plugged blocks
  are mapped, and nothing else the mapper holds is touched; only a failed rollback is exempt.\<close>

definition in_step :: "virtio_mem \<Rightarrow> 'p \<Rightarrow> virtio_mem \<Rightarrow> 'p \<Rightarrow> bool" where
  "in_step v p v' p' \<longleftrightarrow> ok p' \<and> set (bt_values (blocks v')) \<subseteq> mapped p' \<and>
     mapped p' - set (bt_values (blocks v')) = mapped p - set (bt_values (blocks v))"

lemma commit_plug_in_step:
  assumes "vm_inv v" and "alloc_law A" and "set (bt_values (blocks v)) \<subseteq> mapped p" and "ok p'"
    and "distinct addrs" and "\<forall>a \<in> set addrs. block_in v a" and "\<forall>a \<in> set addrs. \<not> is_plugged v a"
    and "prepare C A v True addrs [] m = Ok (regions, m')"
    and "changeable True (mapped p) regions" and "mapped p' = changed True (mapped p) regions"
  shows "vm_inv (account (v\<lparr>blocks := commit_blocks True (zip addrs regions) (blocks v)\<rparr>)) \<and>
    in_step v p (account (v\<lparr>blocks := commit_blocks True (zip addrs regions) (blocks v)\<rparr>)) p' \<and>
    set (blocks v) \<subseteq> set (commit_blocks True (zip addrs regions) (blocks v)) \<and>
    unat (plugged (account (v\<lparr>blocks := commit_blocks True (zip addrs regions) (blocks v)\<rparr>)))
      = (length (blocks v) + length addrs) * unat (block_size v)"
proof -
  let ?t = "commit_blocks True (zip addrs regions) (blocks v)"
  obtain "length regions = length addrs" and al: "\<forall>(a, r) \<in> set (zip addrs regions). A a (block_len v) = Inr r"
    using prepare_regions [OF assms(8)] by auto
  moreover have "\<forall>a \<in> set addrs. bt_get (blocks v) a = None" using assms(7) by (simp add: is_plugged_def)
  moreover have inv: "bt_inv (blocks v)" using assms(1) by (simp add: vm_inv_def)
  ultimately have t: "bt_inv ?t" "set ?t = set (blocks v) \<union> set (zip addrs regions)"
      "length ?t = length (blocks v) + length addrs" and len: "length regions = length addrs"
    using commit_plug [of "blocks v" addrs regions] assms(5) by simp_all
  have new: "block_in v a \<and> r_start r = a \<and> r_len r = block_size v" if "(a, r) \<in> set (zip addrs regions)" for a r
  proof -
    have "r_start r = a \<and> unat (r_len r) = block_len v" using al that assms(2) by (auto simp: alloc_law_def)
    moreover have "block_in v a" using assms(6) that by (auto dest: set_zip_leftD)
    ultimately show ?thesis using assms(1) by (simp add: vm_inv_def word_unat_eq_iff)
  qed
  have "\<forall>(a, r) \<in> set ?t. block_in v a \<and> r_start r = a \<and> r_len r = block_size v"
    using t(2) new assms(1) by (auto simp: vm_inv_def)
  from account_inv [OF assms(1) t(1) this] t(3)
  have "vm_inv (account (v\<lparr>blocks := ?t\<rparr>))"
    "unat (plugged (account (v\<lparr>blocks := ?t\<rparr>))) = (length (blocks v) + length addrs) * unat (block_size v)" by simp_all
  moreover have vals: "set (bt_values ?t) = set (bt_values (blocks v)) \<union> set regions"
  proof -
    have "snd ` set (zip addrs regions) = set regions" using len map_snd_zip [of addrs regions] by (metis list.set_map)
    with t(2) show ?thesis by (simp add: bt_values_def image_Un)
  qed
  have "in_step v p (account (v\<lparr>blocks := ?t\<rparr>)) p'"
    using vals assms(3,4,9,10) by (auto simp: in_step_def account_def Let_def changed_def changeable_def)
  ultimately show ?thesis using t(2) by blast
qed

lemma looked_up_regions:
  assumes inv: "bt_inv t" and len: "length regions = length addrs"
    and al: "\<forall>(a, r) \<in> set (zip addrs regions). bt_get t a = Some r"
  shows "r \<in> set regions \<longleftrightarrow> (\<exists>a \<in> set addrs. (a, r) \<in> set t)"
proof
  assume "r \<in> set regions"
  then obtain i where i: "i < length regions" "r = regions ! i" by (auto simp: in_set_conv_nth)
  then have "(addrs ! i, r) \<in> set (zip addrs regions)" using len by (auto simp: set_zip)
  with al have "bt_get t (addrs ! i) = Some r" by auto
  with i len show "\<exists>a \<in> set addrs. (a, r) \<in> set t" by (auto simp: bt_get_Some_iff [OF inv])
next
  assume "\<exists>a \<in> set addrs. (a, r) \<in> set t"
  then obtain a where a: "a \<in> set addrs" "(a, r) \<in> set t" by blast
  then obtain i where "i < length addrs" "addrs ! i = a" by (auto simp: in_set_conv_nth)
  with a have i: "i < length addrs" "(addrs ! i, r) \<in> set t" by simp_all
  then have "(addrs ! i, regions ! i) \<in> set (zip addrs regions)" using len by (auto simp: set_zip)
  with al have "bt_get t (addrs ! i) = Some (regions ! i)" by auto
  moreover have "bt_get t (addrs ! i) = Some r" using i(2) by (simp add: bt_get_Some_iff [OF inv])
  ultimately have "regions ! i = r" by simp
  with i(1) len show "r \<in> set regions" by (metis nth_mem)
qed

lemma commit_unplug_in_step:
  assumes "vm_inv v" and "set (bt_values (blocks v)) \<subseteq> mapped p" and "ok p'"
    and "distinct addrs" and "\<forall>a \<in> set addrs. is_plugged v a"
    and "prepare C A v False addrs [] m = Ok (regions, m')"
    and "mapped p' = changed False (mapped p) regions"
  shows "vm_inv (account (v\<lparr>blocks := commit_blocks False (zip addrs regions) (blocks v)\<rparr>)) \<and>
    in_step v p (account (v\<lparr>blocks := commit_blocks False (zip addrs regions) (blocks v)\<rparr>)) p' \<and>
    set (commit_blocks False (zip addrs regions) (blocks v)) = {x \<in> set (blocks v). fst x \<notin> set addrs}"
proof -
  let ?t = "commit_blocks False (zip addrs regions) (blocks v)"
  obtain "length regions = length addrs" and al: "\<forall>(a, r) \<in> set (zip addrs regions). bt_get (blocks v) a = Some r"
    using prepare_regions [OF assms(6)] by auto
  moreover have "\<forall>a \<in> set addrs. bt_get (blocks v) a \<noteq> None" using assms(5) by (simp add: is_plugged_def)
  moreover have inv: "bt_inv (blocks v)" using assms(1) by (simp add: vm_inv_def)
  ultimately have t: "bt_inv ?t" "set ?t = {x \<in> set (blocks v). fst x \<notin> set addrs}" and len: "length regions = length addrs"
    using commit_unplug [of "blocks v" addrs regions] assms(4) by simp_all
  have "\<forall>(a, r) \<in> set ?t. block_in v a \<and> r_start r = a \<and> r_len r = block_size v"
    using t(2) assms(1) by (auto simp: vm_inv_def)
  from account_inv [OF assms(1) t(1) this] have "vm_inv (account (v\<lparr>blocks := ?t\<rparr>))" by blast
  moreover note rem = looked_up_regions [OF inv len al]
  have vals: "set (bt_values ?t) = set (bt_values (blocks v)) - set regions"
  proof (intro set_eqI iffI)
    fix r assume "r \<in> set (bt_values ?t)"
    then obtain a where a: "(a, r) \<in> set (blocks v)" "a \<notin> set addrs" using t(2) by (auto simp: bt_values_def)
    then have "r_start r = a" using assms(1) by (auto simp: vm_inv_def)
    moreover have "r_start r = b" if "(b, r) \<in> set (blocks v)" for b using that assms(1) by (auto simp: vm_inv_def)
    ultimately have "r \<notin> set regions" using a(2) rem [of r] by auto
    with a(1) show "r \<in> set (bt_values (blocks v)) - set regions" by (force simp: bt_values_def)
  next
    fix r assume "r \<in> set (bt_values (blocks v)) - set regions"
    then show "r \<in> set (bt_values ?t)" using t(2) rem [of r] by (force simp: bt_values_def)
  qed
  have "set regions \<subseteq> set (bt_values (blocks v))" using rem by (force simp: bt_values_def)
  then have "in_step v p (account (v\<lparr>blocks := ?t\<rparr>)) p'"
    using vals assms(2,3,7) by (auto simp: in_step_def account_def Let_def changed_def)
  ultimately show ?thesis using t(2) by blast
qed

lemma request_in_step:
  assumes "vm_inv v" and "alloc_law A" and "set (bt_values (blocks v)) \<subseteq> mapped p" and "ok p"
    and "\<forall>a r. A a (block_len v) = Inr r \<longrightarrow> valid r"
    and "memory_request C P A req pins (v, p, m) = (r, v', p', m')"
  shows "r \<noteq> Panic \<and> vm_inv v' \<and> fair pins v v' \<and>
    ok p' \<and> (in_step v p v' p' \<or> (\<exists>a b. r = Err (MemoryError.RollbackFailed a b)) \<and> v' = v \<and> m' = m)"
  using memory_request_cases [OF assms(6)]
proof (elim disjE exE conjE)
  fix answer assume "r = Ok answer" "v' = v" "p' = p" "m' = m"
  with assms(1,3,4) show ?thesis by (simp add: in_step_def fair_def)
next
  fix k addr n addrs r1 v1
  assume d: "decide v k addr n pins = Inr addrs" and c: "change C P A addrs (k = 0) (v, p, m) = (r1, v1, p', m')"
    and r: "case r1 of Ok True \<Rightarrow> r = Ok (0, 0) \<and> v' = account v1 | Ok False \<Rightarrow> r = Ok (2, 0) \<and> v' = v1
       | Err e \<Rightarrow> r = Err e \<and> v' = v1 | Panic \<Rightarrow> r = Panic \<and> v' = v1"
  note dc = decide_change [OF assms(1) d]
  have "\<forall>a \<in> set addrs. k = 0 \<or> bt_get (blocks v) a \<noteq> None" using dc by (auto simp: is_plugged_def split: if_splits)
  note spec = change_spec [OF c this assms(4,3,5)]
  show ?thesis
  proof (cases "r1 = Ok True")
    case True
    with spec obtain regions where g: "ok p'" "prepare C A v (k = 0) addrs [] m = Ok (regions, m')"
        "v1 = v\<lparr>blocks := commit_blocks (k = 0) (zip addrs regions) (blocks v)\<rparr>"
        "changeable (k = 0) (mapped p) regions" "mapped p' = changed (k = 0) (mapped p) regions"
      by auto
    show ?thesis
    proof (cases "k = 0")
      case k: True
      have "vm_inv v' \<and> in_step v p v' p' \<and> set (blocks v) \<subseteq> set (blocks v') \<and>
          unat (plugged v') = (length (blocks v) + length addrs) * unat (block_size v)"
        using commit_plug_in_step [OF assms(1-3) g(1), of addrs C m regions m'] dc g k True r
        by (simp add: account_def Let_def)
      with dc k plug_within_target [OF assms(1), of n] True r g(1) show ?thesis by (simp add: fair_def)
    next
      case k: False
      have "vm_inv v' \<and> in_step v p v' p' \<and> set (blocks v') = {x \<in> set (blocks v). fst x \<notin> set addrs}"
        using commit_unplug_in_step [OF assms(1,3) g(1), of addrs C A m regions m'] dc g k True r
        by (simp add: account_def Let_def)
      with dc k True r g(1) show ?thesis by (auto simp: fair_def)
    qed
  next
    case False
    with spec r assms(1,3,4) show ?thesis
      by (cases r1) (auto simp: in_step_def fair_def split: bool.splits)
  qed
qed

lemma unmap_all_spec:
  assumes "unmap_all P rs res p = (res', p')" and "ok p" and "\<forall>r \<in> set rs. valid r"
  shows "ok p' \<and> mapped p' \<subseteq> mapped p \<and> mapped p - set rs \<subseteq> mapped p' \<and> (res \<noteq> Panic \<longrightarrow> res' \<noteq> Panic) \<and>
    (res' = Ok () \<longrightarrow> res = Ok () \<and> mapped p' = mapped p - set rs)"
  using assms
proof (induction rs arbitrary: res p)
  case (Cons r rs)
  obtain u p1 where s: "mp_unmap P r p = (u, p1)" by fastforce
  have v: "valid r" using Cons.prems(3) by simp
  show ?case
  proof (cases u)
    case (Ok x)
    with unmap_Ok [OF Cons.prems(2) v, of p1] s
    have m: "ok p1" "mapped p1 = mapped p - {r}" by simp_all
    have "unmap_all P rs res p1 = (res', p')" using Cons.prems(1) s Ok by simp
    from Cons.IH [OF this m(1)] Cons.prems(3) m(2) show ?thesis by auto
  next
    case (Err e)
    with unmap_Err [OF Cons.prems(2) v] s have m: "ok p1" "mapped p1 = mapped p" by auto
    have "unmap_all P rs (if is_ok res then Err e else res) p1 = (res', p')" using Cons.prems(1) s Err by simp
    from Cons.IH [OF this m(1)] Cons.prems(3) m(2) show ?thesis by (auto split: if_splits)
  next
    case Panic
    with unmap_returns [OF Cons.prems(2) v] s show ?thesis by simp
  qed
qed auto

end

end

