(* ===== verification/Boot.thy ===== *)
theory Boot
  imports Crates
begin

text \<open>
  The boot protocol of \<open>src/src/boot.rs\<close>: the address map of the machine, the placement of kernel,
  initramfs and device tree in base RAM, the virtio windows, the device tree itself and the loading
  of the guest. The bundled kernel and initramfs are parameters (byte lists). The device tree is the
  sequence of calls the code makes on \<open>vm_fdt::FdtWriter\<close>; the writer, the PE loader and guest memory
  belong to other crates and are parameters.
  Lemmas: an accepted layout places the three parts disjointly inside RAM; the emitted tree is
  properly nested and describes each device once.
\<close>

section \<open>The address map\<close>

definition RAM :: u64 where "RAM = 0x40000000"

definition UART :: u64 where "UART = 0x09000000"

definition UART_SIZE :: u64 where "UART_SIZE = 8"

definition VIRTIO_BASE :: u64 where "VIRTIO_BASE = 0x0a000000"

definition VIRTIO_STRIDE :: u64 where "VIRTIO_STRIDE = 0x1000"

definition GIC_DIST :: u64 where "GIC_DIST = 0x08000000"

definition GIC_REDIST :: u64 where "GIC_REDIST = 0x10000000"

definition UART_IRQ :: u32 where "UART_IRQ = 33"

definition VIRTIO_IRQ_BASE :: u32 where "VIRTIO_IRQ_BASE = 34"

lemmas address_map_defs = RAM_def UART_def UART_SIZE_def VIRTIO_BASE_def VIRTIO_STRIDE_def GIC_DIST_def
  GIC_REDIST_def UART_IRQ_def VIRTIO_IRQ_BASE_def

definition BOOT_MIB :: u64 where "BOOT_MIB = push_bit 20 1"

definition boot_mib_bytes :: "u64 \<Rightarrow> (u64, BootError) result" where
  "boot_mib_bytes mib = ok_or (checked_mul mib BOOT_MIB) (BootError.MemoryCapacityConversionOverflow mib)"

definition validate_ipa_range :: "u64 \<Rightarrow> u64 \<Rightarrow> u32 \<Rightarrow> (unit, BootError) result" where
  "validate_ipa_range start len bits =
     (if \<not> (1 \<le> bits \<and> bits \<le> 64) then Err (BootError.InvalidIpaWidth bits)
      else and_then (ok_or (checked_add start len) (BootError.MemoryAddressOverflow start len)) (\<lambda>e.
        if \<not> (bits = 64 \<or> e \<le> push_bit (unat bits) 1) then Err (BootError.IpaRange start e bits)
        else Ok ()))"

lemma validate_ipa_range_Ok:
  assumes "validate_ipa_range start len bits = Ok ()"
  shows "unat start + unat len < 2 ^ 64 \<and> unat start + unat len \<le> 2 ^ unat bits"
proof -
  from assms obtain e where e: "checked_add start len = Some e" and b: "bits \<le> 64"
    and le: "bits = 64 \<or> e \<le> push_bit (unat bits) 1"
    by (auto simp: validate_ipa_range_def and_then_Ok_iff split: if_splits)
  have sum: "unat start + unat len = unat e" using checked_add_Some [OF e] by simp
  have bound: "unat e < 2 ^ 64" using unat_bound [of e] by simp
  show ?thesis
  proof (cases "bits = 64")
    case True
    then have "unat bits = 64" by simp
    with sum bound show ?thesis by simp
  next
    case False
    have "unat bits \<le> 64" "unat bits \<noteq> 64"
      using b False by (simp_all add: word_le_nat_alt word_unat_eq_iff)
    then have "unat bits < 64" by simp
    then have "(2 :: nat) ^ unat bits < 2 ^ 64" by (intro power_strict_increasing) simp_all
    then have "unat (push_bit (unat bits) (1 :: u64)) = 2 ^ unat bits"
      by (simp only: unsigned_push_bit_eq unsigned_1) (simp add: take_bit_eq_mod)
    with False le sum bound show ?thesis by (simp add: word_le_nat_alt)
  qed
qed

section \<open>Placing the guest in RAM\<close>

record boot_layout =
  bl_size :: usize
  bl_entry :: u64
  bl_initrd :: u64
  bl_dtb :: u64

definition kernel_word :: "bytes \<Rightarrow> nat \<Rightarrow> u64" where
  "kernel_word kern p = word_of_nat (le_nat (sub_bytes p 8 kern))"

definition layout_new :: "u64 \<Rightarrow> bytes \<Rightarrow> usize \<Rightarrow> (boot_layout, BootError) result" where
  "layout_new mib kern initrd_len =
     (if mib < 128 then Err (BootError.MemoryMustBeAtLeast128Mib mib)
      else if \<not> (64 \<le> length kern \<and> sub_bytes 56 4 kern = [0x41, 0x52, 0x4d, 0x64])
      then Err BootError.InvalidArm64Image
      else let image_size = kernel_word kern 16 in
      if image_size = 0 then Err BootError.LegacyImageWithoutImageSizeIsUnsupported
      else if kernel_word kern 24 AND 1 \<noteq> 0 then Err BootError.BigEndianKernelUnsupported
      else let offset = kernel_word kern 8 in
      if \<not> is_multiple_of offset 4096 then Err (BootError.UnalignedKernelTextOffset offset)
      else
      and_then (ok_or (checked_add RAM offset) (BootError.KernelOffsetOverflow offset)) (\<lambda>entry.
      and_then (boot_mib_bytes mib) (\<lambda>bytes.
      if 2 ^ 63 \<le> unat bytes then Err (BootError.RamExceedsHostAllocationSize (unat bytes))
      else
      and_then (ok_or (checked_add RAM bytes) BootError.RamAddressOverflow) (\<lambda>ram_end.
      let dtb = ram_end - 0x200000 in
      and_then (ok_or (checked_sub dtb (word_of_nat initrd_len)) (BootError.InitrdTooLarge initrd_len)) (\<lambda>below.
      let initrd = below AND NOT 0xffff in
      and_then (ok_or (checked_add entry (max image_size (word_of_nat (length kern)))) BootError.ImageSizeOverflow) (\<lambda>kernel_end.
      if \<not> (RAM \<le> initrd \<and> kernel_end \<le> initrd) then Err BootError.KernelInitramfsFdtOverlapOrExceedRam
      else Ok \<lparr>bl_size = unat bytes, bl_entry = entry, bl_initrd = initrd, bl_dtb = dtb\<rparr>))))))"


lemma unat_align_down: "unat (x AND NOT 0xffff) = unat x div 65536 * 65536"
  for x :: u64
proof -
  have m: "(0xffff :: u64) = mask 16" by (simp add: mask_eq_exp_minus_1)
  have "x AND NOT (mask 16) = push_bit 16 (drop_bit 16 x)"
    by (rule bit_eqI) (auto simp: bit_simps)
  then have "x AND NOT 0xffff = push_bit 16 (drop_bit 16 x)" unfolding m .
  moreover have "unat x div 65536 * 65536 < 2 ^ 64"
    using unat_bound [of x] div_times_less_eq_dividend [of "unat x" 65536] by simp
  ultimately show ?thesis
    by (simp add: unat_word_ariths unat_div_distrib push_bit_eq_mult drop_bit_eq_div)
qed

lemma layout_bounds:
  assumes "layout_new mib kern initrd_len = Ok l" and "initrd_len < 2 ^ 64"
  shows "bl_size l = unat mib * 2 ^ 20 \<and> unat RAM \<le> unat (bl_entry l) \<and> 4096 dvd unat (bl_entry l) \<and>
    unat (bl_entry l) + max (unat (kernel_word kern 16)) (length kern mod 2 ^ 64) \<le> unat (bl_initrd l) \<and>
    65536 dvd unat (bl_initrd l) \<and> unat (bl_initrd l) + initrd_len \<le> unat (bl_dtb l) \<and>
    unat (bl_dtb l) + 0x200000 = unat RAM + bl_size l \<and> unat RAM + bl_size l < 2 ^ 64"
proof -
  define size :: u64 where "size = max (kernel_word kern 16) (word_of_nat (length kern))"
  from assms(1) obtain entry bytes ram_end below kernel_end
    where entry: "checked_add RAM (kernel_word kern 8) = Some entry"
      and al: "is_multiple_of (kernel_word kern 8) 4096"
      and bytes: "checked_mul mib BOOT_MIB = Some bytes"
      and ram_end: "checked_add RAM bytes = Some ram_end"
      and below: "checked_sub (ram_end - 0x200000) (word_of_nat initrd_len) = Some below"
      and ke: "checked_add entry size = Some kernel_end" "kernel_end \<le> below AND NOT 0xffff"
      and l: "l = \<lparr>bl_size = unat bytes, bl_entry = entry, bl_initrd = below AND NOT 0xffff, bl_dtb = ram_end - 0x200000\<rparr>"
    by (auto simp: layout_new_def boot_mib_bytes_def and_then_Ok_iff Let_def size_def split: if_splits)
  have size: "unat size = max (unat (kernel_word kern 16)) (length kern mod 2 ^ 64)"
    by (simp add: size_def max_def word_le_nat_alt unat_of_nat take_bit_eq_mod)
  have e: "unat entry = unat RAM + unat (kernel_word kern 8)" using checked_add_Some [OF entry] .
  have r: "unat ram_end = unat RAM + unat bytes" using checked_add_Some [OF ram_end] .
  have b: "unat bytes = unat mib * 2 ^ 20" using checked_mul_Some [OF bytes] by (simp add: BOOT_MIB_def)
  have "unat (0x200000 :: u64) \<le> unat ram_end" using r by (simp add: RAM_def)
  then have d: "unat (ram_end - 0x200000) + 0x200000 = unat ram_end"
    by (simp add: unat_sub word_le_nat_alt)
  have w: "unat below + initrd_len = unat (ram_end - 0x200000)"
    using checked_sub_Some [OF below] assms(2) by (simp add: unat_of_nat take_bit_eq_mod)
  have i: "unat (below AND NOT 0xffff) \<le> unat below" unfolding unat_align_down by simp
  have "4096 dvd unat (kernel_word kern 8)" using al by (simp add: is_multiple_of_unat)
  then have "4096 dvd unat RAM + unat (kernel_word kern 8)" by (intro dvd_add) (simp add: RAM_def)
  then have "4096 dvd unat entry" using e by simp
  moreover have "unat ram_end < 2 ^ 64" using unat_bound [of ram_end] by simp
  moreover have "unat entry + unat size \<le> unat (below AND NOT 0xffff)"
    using checked_add_Some [OF ke(1)] ke(2) by (simp add: word_le_nat_alt)
  moreover have "65536 dvd unat (below AND NOT 0xffff)" unfolding unat_align_down by simp
  ultimately show ?thesis
    unfolding l boot_layout.simps size [symmetric] using e r b d w i by (intro conjI) linarith+
qed

text \<open>C25. An accepted layout places kernel, initramfs and device tree inside RAM without overlap: the
  kernel image ends before the initramfs, the initramfs before the device tree, and the device tree's
  two MiB are the end of RAM. The kernel starts at a page, the initramfs at a 64 KiB boundary.\<close>

theorem layout_disjoint:
  assumes "layout_new mib kern initrd_len = Ok l" and "initrd_len < 2 ^ 64"
  shows "bl_size l = unat mib * 2 ^ 20 \<and> unat RAM \<le> unat (bl_entry l) \<and> 4096 dvd unat (bl_entry l) \<and>
    unat (bl_entry l) + max (unat (kernel_word kern 16)) (length kern mod 2 ^ 64) \<le> unat (bl_initrd l) \<and>
    65536 dvd unat (bl_initrd l) \<and> unat (bl_initrd l) + initrd_len \<le> unat (bl_dtb l) \<and>
    unat (bl_dtb l) + 0x200000 = unat RAM + bl_size l \<and> unat RAM + bl_size l < 2 ^ 64"
  using layout_bounds [OF assms] .

section \<open>The virtio windows\<close>

record virtio_region =
  vr_address :: u64
  vr_irq :: u32

definition virtio_regions :: "usize \<Rightarrow> (virtio_region list, BootError) result" where
  "virtio_regions n =
     (if unat (1020 - VIRTIO_IRQ_BASE) < n then Err (BootError.TooManyVirtioDevicesForGicSpis n)
      else Ok (map (\<lambda>i. \<lparr>vr_address = VIRTIO_BASE + word_of_nat i * VIRTIO_STRIDE,
                         vr_irq = VIRTIO_IRQ_BASE + word_of_nat i\<rparr>) [0 ..< n]))"

text \<open>Every window lies between the first one and the redistributor; its interrupt is an SPI of its own.\<close>

lemma virtio_regions_nth:
  assumes "virtio_regions n = Ok rs" and "i < n"
  shows "length rs = n \<and> unat (vr_address (rs ! i)) = 0x0a000000 + i * 0x1000 \<and> unat (vr_irq (rs ! i)) = 34 + i \<and>
    n \<le> 986"
proof -
  from assms(1) have n: "n \<le> 986" and rs: "rs = map (\<lambda>i. \<lparr>vr_address = VIRTIO_BASE + word_of_nat i * VIRTIO_STRIDE,
      vr_irq = VIRTIO_IRQ_BASE + word_of_nat i\<rparr>) [0 ..< n]"
    by (auto simp: virtio_regions_def VIRTIO_IRQ_BASE_def split: if_splits)
  with assms(2) show ?thesis
    by (simp add: VIRTIO_BASE_def VIRTIO_STRIDE_def VIRTIO_IRQ_BASE_def unat_word_ariths unat_of_nat take_bit_eq_mod)
qed

section \<open>The device tree\<close>

text \<open>One call of \<open>FdtWriter\<close>.\<close>

datatype fdt_call =
    Begin string
  | Property_string string string
  | Property_u32 string u32
  | Property_u64 string u64
  | Property_null string
  | Property_array_u32 string "u32 list"
  | Property_array_u64 string "u64 list"
  | End

definition hex_digit :: "nat \<Rightarrow> char" where
  "hex_digit n = ''0123456789abcdef'' ! (n mod 16)"

fun hex_digits :: "nat \<Rightarrow> nat \<Rightarrow> string" where
  "hex_digits 0 n = []"
| "hex_digits (Suc k) n = (if n < 16 then [hex_digit n] else hex_digits k (n div 16) @ [hex_digit n])"

text \<open>\<open>format!("{:x}")\<close>: a \<open>u64\<close> has at most sixteen digits.\<close>

definition hex :: "nat \<Rightarrow> string" where
  "hex n = hex_digits 16 n"

definition fdt_chosen :: "boot_layout \<Rightarrow> usize \<Rightarrow> bool \<Rightarrow> fdt_call list" where
  "fdt_chosen l initrd_len virtio_mem =
     [Begin ''chosen'',
      Property_string ''bootargs''
        (''console=ttyS0,115200 earlycon=uart8250,mmio,0x09000000 rdinit=/init panic=-1'' @
         (if virtio_mem then '' memory_hotplug.online_policy=auto-movable memory_hotplug.auto_movable_ratio=301 memhp_default_state=online'' else '''')),
      Property_string ''stdout-path'' ''/serial@9000000'',
      Property_u64 ''linux,initrd-start'' (bl_initrd l),
      Property_u64 ''linux,initrd-end'' (bl_initrd l + word_of_nat initrd_len),
      End]"

definition fdt_memory :: "boot_layout \<Rightarrow> fdt_call list" where
  "fdt_memory l =
     [Begin ''memory@40000000'', Property_string ''device_type'' ''memory'',
      Property_array_u64 ''reg'' [RAM, word_of_nat (bl_size l)], End]"

definition fdt_cpu :: "nat \<Rightarrow> fdt_call list" where
  "fdt_cpu cpu =
     [Begin (''cpu@'' @ hex cpu), Property_string ''device_type'' ''cpu'',
      Property_string ''compatible'' ''arm,arm-v8'', Property_u32 ''reg'' (word_of_nat cpu),
      Property_string ''enable-method'' ''psci'', End]"

definition fdt_cpus :: "u32 \<Rightarrow> fdt_call list" where
  "fdt_cpus vcpu_count =
     [Begin ''cpus'', Property_u32 ''#address-cells'' 1, Property_u32 ''#size-cells'' 0] @
     concat (map fdt_cpu [0 ..< unat vcpu_count]) @ [End]"

definition fdt_psci :: "fdt_call list" where
  "fdt_psci =
     [Begin ''psci'', Property_string ''compatible'' ''arm,psci-0.2'', Property_string ''method'' ''hvc'', End]"

definition fdt_gic :: "u64 \<Rightarrow> fdt_call list" where
  "fdt_gic redist_size =
     [Begin ''interrupt-controller@8000000'', Property_string ''compatible'' ''arm,gic-v3'',
      Property_null ''interrupt-controller'', Property_u32 ''#interrupt-cells'' 3, Property_u32 ''phandle'' 1,
      Property_array_u64 ''reg'' [GIC_DIST, 0x10000, GIC_REDIST, redist_size], End]"

definition fdt_timer :: "u32 \<times> u32 \<Rightarrow> fdt_call list" where
  "fdt_timer = (\<lambda>(phys, virt).
     [Begin ''timer'', Property_string ''compatible'' ''arm,armv8-timer'', Property_null ''always-on'',
      Property_array_u32 ''interrupts'' [1, 13, 4, 1, phys - 16, 4, 1, virt - 16, 4, 1, 10, 4], End])"

definition fdt_serial :: "fdt_call list" where
  "fdt_serial =
     [Begin ''serial@9000000'', Property_string ''compatible'' ''ns16550a'',
      Property_array_u64 ''reg'' [UART, UART_SIZE], Property_u32 ''clock-frequency'' 1843200,
      Property_u32 ''reg-io-width'' 1, Property_array_u32 ''interrupts'' [0, UART_IRQ - 32, 4], End]"

definition fdt_device :: "virtio_region \<Rightarrow> fdt_call list" where
  "fdt_device d =
     [Begin (''virtio_mmio@'' @ hex (unat (vr_address d))), Property_string ''compatible'' ''virtio,mmio'',
      Property_array_u64 ''reg'' [vr_address d, VIRTIO_STRIDE],
      Property_array_u32 ''interrupts'' [0, vr_irq d - 32, 4], Property_null ''dma-coherent'', End]"

definition fdt_calls ::
  "boot_layout \<Rightarrow> usize \<Rightarrow> virtio_region list \<Rightarrow> u64 \<Rightarrow> u32 \<times> u32 \<Rightarrow> u32 \<Rightarrow> bool \<Rightarrow> fdt_call list" where
  "fdt_calls l initrd_len devices redist_size timers vcpu_count virtio_mem =
     [Begin '''', Property_string ''compatible'' ''w-vmm,arm64'', Property_u32 ''#address-cells'' 2,
      Property_u32 ''#size-cells'' 2, Property_u32 ''interrupt-parent'' 1] @
     fdt_chosen l initrd_len virtio_mem @ fdt_memory l @ fdt_cpus vcpu_count @ fdt_psci @
     fdt_gic redist_size @ fdt_timer timers @ fdt_serial @ concat (map fdt_device devices) @ [End]"

text \<open>The writer of the crate \<open>vm_fdt\<close>: creation, one call, and the finished blob.\<close>

record 'f fdt_writer =
  fw_new :: "ext_error + 'f"
  fw_call :: "fdt_call \<Rightarrow> 'f \<Rightarrow> ext_error + 'f"
  fw_finish :: "'f \<Rightarrow> ext_error + bytes"

fun fdt_run :: "'f fdt_writer \<Rightarrow> fdt_call list \<Rightarrow> 'f \<Rightarrow> (bytes, BootError) result" where
  "fdt_run F [] f = of_sum BootError.Fdt (fw_finish F f)"
| "fdt_run F (c # cs) f = and_then (of_sum BootError.Fdt (fw_call F c f)) (fdt_run F cs)"

definition fdt ::
  "'f fdt_writer \<Rightarrow> boot_layout \<Rightarrow> usize \<Rightarrow> virtio_region list \<Rightarrow> u64 \<Rightarrow> u32 \<times> u32 \<Rightarrow> u32 \<Rightarrow> bool \<Rightarrow> (bytes, BootError) result" where
  "fdt F l initrd_len devices redist_size timers vcpu_count virtio_mem =
     (if vcpu_count = 0 then Err BootError.AtLeastOneCpuRequired
      else and_then (of_sum BootError.Fdt (fw_new F))
        (fdt_run F (fdt_calls l initrd_len devices redist_size timers vcpu_count virtio_mem)))"

text \<open>The nodes of a call sequence; \<open>None\<close> if a node is closed that is not open.\<close>

datatype fdt_node = Node string "fdt_call list" "fdt_node list"

type_synonym fdt_frame = "string \<times> fdt_call list \<times> fdt_node list"

fun fdt_step :: "fdt_call \<Rightarrow> fdt_frame list \<Rightarrow> fdt_frame list option" where
  "fdt_step (Begin n) st = Some ((n, [], []) # st)"
| "fdt_step End ((n, ps, ns) # (n', ps', ns') # st) = Some ((n', ps', ns' @ [Node n ps ns]) # st)"
| "fdt_step End st = None"
| "fdt_step c ((n, ps, ns) # st) = Some ((n, ps @ [c], ns) # st)"
| "fdt_step c [] = None"

fun fdt_parse :: "fdt_call list \<Rightarrow> fdt_frame list \<Rightarrow> fdt_frame list option" where
  "fdt_parse [] st = Some st"
| "fdt_parse (c # cs) st = Option.bind (fdt_step c st) (fdt_parse cs)"

lemma fdt_parse_append:
  "fdt_parse (cs @ ds) st = Option.bind (fdt_parse cs st) (fdt_parse ds)"
  by (induction cs arbitrary: st) (auto split: bind_splits)

text \<open>The node a window and a vCPU contribute.\<close>

definition device_node :: "virtio_region \<Rightarrow> fdt_node" where
  "device_node d = Node (''virtio_mmio@'' @ hex (unat (vr_address d)))
     [Property_string ''compatible'' ''virtio,mmio'', Property_array_u64 ''reg'' [vr_address d, VIRTIO_STRIDE],
      Property_array_u32 ''interrupts'' [0, vr_irq d - 32, 4], Property_null ''dma-coherent''] []"

definition cpu_node :: "nat \<Rightarrow> fdt_node" where
  "cpu_node cpu = Node (''cpu@'' @ hex cpu)
     [Property_string ''device_type'' ''cpu'', Property_string ''compatible'' ''arm,arm-v8'',
      Property_u32 ''reg'' (word_of_nat cpu), Property_string ''enable-method'' ''psci''] []"

lemma parse_devices:
  "fdt_parse (concat (map fdt_device ds)) ((n, ps, ns) # st) = Some ((n, ps, ns @ map device_node ds) # st)"
  by (induction ds arbitrary: ns) (simp_all add: fdt_device_def device_node_def)

lemma parse_cpus:
  "fdt_parse (concat (map fdt_cpu is)) ((n, ps, ns) # st) = Some ((n, ps, ns @ map cpu_node is) # st)"
  by (induction "is" arbitrary: ns) (simp_all add: fdt_cpu_def cpu_node_def)

text \<open>The call sequence closes every node it opens and yields one root node. Below it stand the fixed
  nodes in order, then exactly one node per virtio window, with the window's address, size and
  interrupt; the cpus node holds exactly one node per vCPU and the memory node names the base RAM.\<close>

theorem fdt_describes_machine:
  "\<exists>chosen psci gic timer serial.
     fdt_parse (fdt_calls l initrd_len devices redist_size timers vcpu_count virtio_mem) [(n, [], [])] =
       Some [(n, [], [Node '''' [Property_string ''compatible'' ''w-vmm,arm64'', Property_u32 ''#address-cells'' 2,
           Property_u32 ''#size-cells'' 2, Property_u32 ''interrupt-parent'' 1]
         ([chosen,
           Node ''memory@40000000'' [Property_string ''device_type'' ''memory'',
             Property_array_u64 ''reg'' [RAM, word_of_nat (bl_size l)]] [],
           Node ''cpus'' [Property_u32 ''#address-cells'' 1, Property_u32 ''#size-cells'' 0]
             (map cpu_node [0 ..< unat vcpu_count]),
           psci, gic, timer, serial] @ map device_node devices)])]"
  by (simp add: fdt_calls_def fdt_chosen_def fdt_memory_def fdt_cpus_def fdt_psci_def fdt_gic_def fdt_timer_def
      fdt_serial_def fdt_parse_append parse_devices parse_cpus split: prod.splits)

section \<open>Loading the guest\<close>

text \<open>\<open>PE::load\<close> of the crate \<open>linux-loader\<close>: the kernel's load address.\<close>

type_synonym 'm pe_load = "u64 \<Rightarrow> bytes \<Rightarrow> 'm \<Rightarrow> (ext_error + u64) \<times> 'm"

definition load ::
  "('q, 'm) crates \<Rightarrow> 'm pe_load \<Rightarrow> bytes \<Rightarrow> bytes \<Rightarrow> boot_layout \<Rightarrow> bytes \<Rightarrow> ('m, unit, BootError) prog" where
  "load C L kern initrd l dtb =
     (if 0x200000 < length dtb then throw (BootError.FdtExceedsReservedSpace (length dtb))
      else
      bnd (call_ext BootError.Loader (L RAM kern)) (\<lambda>kernel_load.
      if kernel_load \<noteq> bl_entry l then throw BootError.LoaderLayoutDisagreement
      else
      bnd (call_ext BootError.GuestAccess (cm_write_slice C (bl_initrd l) initrd)) (\<lambda>_.
      call_ext BootError.GuestAccess (cm_write_slice C (bl_dtb l) dtb))))"

end
