(* ===== verification/Platform.thy ===== *)
theory Platform
  imports VirtioMem
begin

text \<open>
  The interface between the runtime and a hypervisor (\<open>src/src/platform/mod.rs\<close>): the machine layout
  with its validation, the events and outcomes of a virtual machine, and the trait
  \<open>VirtualMachine\<close> as the record \<open>vm_ops\<close>. The configuration \<open>VmConfig\<close> of \<open>src/src/lib.rs\<close> is
  declared here because the layout is checked against it.
  Lemmas: an accepted layout has nonempty, pairwise disjoint windows in each address space.
\<close>

section \<open>The layout of a machine\<close>

record VmConfig =
  memory_mib :: u64
  vcpu_count :: u32
  strict_mode :: bool

definition default_config :: VmConfig where
  "default_config = \<lparr>memory_mib = 512, vcpu_count = 1, strict_mode = True\<rparr>"

datatype IoSpace = SpaceMmio | SpacePort

record MemoryRange =
  mr_address :: u64
  mr_size :: u64

record IoRegion =
  io_space :: IoSpace
  io_address :: u64
  io_size :: u64
  io_irq :: u32

datatype DeviceKind = KindBlock string | KindNet | KindMemory

record MemoryRequirement =
  rq_capacity :: u64
  rq_alignment :: u64

record DeviceRequirements =
  rq_devices :: "DeviceKind list"
  rq_hotplug :: "MemoryRequirement option"

record MachineLayout =
  ml_ram :: "MemoryRange list"
  ml_uart :: IoRegion
  ml_virtio :: "IoRegion list"
  ml_hotplug :: "MemoryRange option"

text \<open>A range that was accepted: its space, first address and end.\<close>

type_synonym placed = "IoSpace \<times> u64 \<times> u64"

text \<open>The closure \<open>add\<close>.\<close>

definition add_range :: "IoSpace \<Rightarrow> u64 \<Rightarrow> u64 \<Rightarrow> placed list \<Rightarrow> (placed list, PlatformError) result" where
  "add_range space address len ranges =
     (if len = 0 then Err PlatformError.EmptyRegion
      else and_then (ok_or (checked_add address len) (PlatformError.RegionOverflow address len)) (\<lambda>e.
        if space = SpacePort \<and> \<not> e \<le> 65536 then Err (PlatformError.PortRangeOverflow address len)
        else if list_ex (\<lambda>(s, a, e'). s = space \<and> address < e' \<and> a < e) ranges
        then Err (PlatformError.OverlappingRegions address len)
        else Ok (ranges @ [(space, address, e)])))"

text \<open>The loop over the base RAM; \<open>usize::try_from\<close> of a \<open>u64\<close> succeeds on a 64-bit host.\<close>

fun add_ram :: "MemoryRange list \<Rightarrow> u64 \<Rightarrow> placed list \<Rightarrow> (u64 \<times> placed list, PlatformError) result" where
  "add_ram [] tot ranges = Ok (tot, ranges)"
| "add_ram (r # rs) tot ranges =
     and_then (ok_or (checked_add tot (mr_size r)) (PlatformError.RamCapacityOverflow tot (mr_size r))) (\<lambda>tot.
     and_then (add_range SpaceMmio (mr_address r) (mr_size r) ranges) (\<lambda>ranges.
     add_ram rs tot ranges))"

fun add_virtio :: "IoRegion list \<Rightarrow> placed list \<Rightarrow> (placed list, PlatformError) result" where
  "add_virtio [] ranges = Ok ranges"
| "add_virtio (r # rs) ranges =
     (if \<not> (io_space r = SpaceMmio \<and> 0x200 \<le> io_size r) then Err PlatformError.InvalidVirtioMmioRegion
      else and_then (add_range (io_space r) (io_address r) (io_size r) ranges) (add_virtio rs))"

definition add_hotplug ::
  "MemoryRange option \<Rightarrow> MemoryRequirement option \<Rightarrow> placed list \<Rightarrow> (placed list, PlatformError) result" where
  "add_hotplug hotplug need ranges =
     (case (hotplug, need) of
        (Some r, Some n) \<Rightarrow>
          if \<not> (mr_size r = rq_capacity n \<and> is_multiple_of (mr_address r) (rq_alignment n))
          then Err (PlatformError.InvalidHotplugCapacityAlignment (mr_address r) (mr_size r) (rq_capacity n) (rq_alignment n))
          else add_range SpaceMmio (mr_address r) (mr_size r) ranges
      | (None, None) \<Rightarrow> Ok ranges
      | _ \<Rightarrow> Err PlatformError.HotplugLayoutMismatch)"

text \<open>The body of \<open>validate\<close>, keeping the ranges it accepted.\<close>

definition placed_ranges :: "MachineLayout \<Rightarrow> VmConfig \<Rightarrow> DeviceRequirements \<Rightarrow> (placed list, PlatformError) result" where
  "placed_ranges l config needs =
     (if vcpu_count config = 0 then Err PlatformError.InvalidVcpuCount
      else if ml_ram l = [] then Err PlatformError.NoBaseRam
      else if length (ml_virtio l) \<noteq> length (rq_devices needs)
      then Err (PlatformError.DeviceCountMismatch (length (rq_devices needs)) (length (ml_virtio l)))
      else if io_size (ml_uart l) < 8 then Err (PlatformError.UartRegionTooSmall (io_size (ml_uart l)))
      else
      and_then (add_ram (ml_ram l) 0 []) (\<lambda>(ram_total, ranges).
      and_then (map_err PlatformError.Memory (mib_bytes (memory_mib config))) (\<lambda>expected.
      if ram_total \<noteq> expected then Err (PlatformError.RamCapacityMismatch (memory_mib config) ram_total)
      else
      and_then (add_range (io_space (ml_uart l)) (io_address (ml_uart l)) (io_size (ml_uart l)) ranges) (\<lambda>ranges.
      and_then (add_virtio (ml_virtio l) ranges) (\<lambda>ranges.
      add_hotplug (ml_hotplug l) (rq_hotplug needs) ranges)))))"

definition validate :: "MachineLayout \<Rightarrow> VmConfig \<Rightarrow> DeviceRequirements \<Rightarrow> (unit, PlatformError) result" where
  "validate l config needs = and_then (placed_ranges l config needs) (\<lambda>_. Ok ())"

section \<open>The virtual machine\<close>

text \<open>\<open>'c\<close> is the platform's completion token.\<close>

record 'c IoAccess =
  a_space :: IoSpace
  a_address :: u64
  a_width :: usize
  a_write :: bool
  a_value :: u64
  a_completion :: 'c

datatype 'c Event = Io "'c IoAccess" | Shutdown

datatype PauseOutcome = OutcomePaused | OutcomeStopping

text \<open>The trait \<open>VirtualMachine\<close> over the state \<open>'v\<close> of a virtual machine and guest memory \<open>'m\<close>.\<close>

record ('v, 'm, 'c) vm_ops =
  vm_mapper :: "'v mapper_ops"
  vm_prepare :: "MachineLayout \<Rightarrow> ('v \<times> 'm, unit, PlatformError) prog"
  vm_start :: "('v, unit, PlatformError) prog"
  vm_poll_event :: "('v, 'c Event option, PlatformError) prog"
  vm_complete_io :: "'c \<Rightarrow> u64 \<Rightarrow> ('v, unit, PlatformError) prog"
  vm_set_irq :: "u32 \<Rightarrow> bool \<Rightarrow> ('v, unit, PlatformError) prog"
  vm_pause :: "('v, PauseOutcome, PlatformError) prog"
  vm_resume :: "('v, unit, PlatformError) prog"
  vm_stop :: "('v, unit, PlatformError) prog"

text \<open>The trait \<open>Platform\<close>: layout policy and creation.\<close>

record 'v platform_ops =
  pl_layout :: "VmConfig \<Rightarrow> DeviceRequirements \<Rightarrow> (MachineLayout, PlatformError) result"
  pl_create :: "VmConfig \<Rightarrow> ('v, PlatformError) result"

section \<open>Accepted layouts\<close>

text \<open>The windows of a layout, in the order they are checked.\<close>

definition ram_window :: "MemoryRange \<Rightarrow> IoSpace \<times> u64 \<times> u64" where
  "ram_window r = (SpaceMmio, mr_address r, mr_size r)"

definition io_window :: "IoRegion \<Rightarrow> IoSpace \<times> u64 \<times> u64" where
  "io_window r = (io_space r, io_address r, io_size r)"

definition windows :: "MachineLayout \<Rightarrow> (IoSpace \<times> u64 \<times> u64) list" where
  "windows l = map ram_window (ml_ram l) @ io_window (ml_uart l) # map io_window (ml_virtio l) @
     (case ml_hotplug l of None \<Rightarrow> [] | Some r \<Rightarrow> [ram_window r])"

definition apart :: "IoSpace \<times> u64 \<times> u64 \<Rightarrow> IoSpace \<times> u64 \<times> u64 \<Rightarrow> bool" where
  "apart = (\<lambda>(s, a, n) (s', a', n'). s = s' \<longrightarrow> unat a + unat n \<le> unat a' \<or> unat a' + unat n' \<le> unat a)"

definition window_ok :: "IoSpace \<times> u64 \<times> u64 \<Rightarrow> bool" where
  "window_ok = (\<lambda>(s, a, n). n \<noteq> 0 \<and> unat a + unat n < 2 ^ 64 \<and> (s = SpacePort \<longrightarrow> unat a + unat n \<le> 65536))"

definition to_placed :: "IoSpace \<times> u64 \<times> u64 \<Rightarrow> placed" where
  "to_placed = (\<lambda>(s, a, n). (s, a, a + n))"

definition windows_ok :: "(IoSpace \<times> u64 \<times> u64) list \<Rightarrow> bool" where
  "windows_ok ws \<longleftrightarrow> (\<forall>w \<in> set ws. window_ok w) \<and> sorted_wrt apart ws"

text \<open>One check: it succeeds exactly if the new window is sound and apart from those before.\<close>

lemma add_range_iff:
  assumes "windows_ok ws"
  shows "add_range s a n (map to_placed ws) = Ok ranges \<longleftrightarrow>
    windows_ok (ws @ [(s, a, n)]) \<and> ranges = map to_placed (ws @ [(s, a, n)])"
proof (cases "n \<noteq> 0 \<and> unat a + unat n < 2 ^ 64")
  case False
  then show ?thesis by (auto simp: add_range_def checked_add_def windows_ok_def window_ok_def)
next
  case True
  then have e: "checked_add a n = Some (a + n)" "unat (a + n) = unat a + unat n"
    by (simp_all add: checked_add_def unat_word_ariths)
  have port: "a + n \<le> 65536 \<longleftrightarrow> unat a + unat n \<le> 65536"
    using e(2) by (simp add: word_le_nat_alt)
  have "(\<not> (s' = s \<and> a < a' + n' \<and> a' < a + n)) = apart (s', a', n') (s, a, n)" if "(s', a', n') \<in> set ws" for s' a' n'
  proof -
    have "unat (a' + n') = unat a' + unat n'"
      using assms that by (auto simp: windows_ok_def window_ok_def unat_word_ariths)
    with e(2) show ?thesis by (auto simp: apart_def word_less_nat_alt)
  qed
  then have "list_ex (\<lambda>(s', a', e'). s' = s \<and> a < e' \<and> a' < a + n) (map to_placed ws) \<longleftrightarrow>
      \<not> (\<forall>w \<in> set ws. apart w (s, a, n))"
    by (fastforce simp: list_ex_iff to_placed_def)
  with True e(1) port assms show ?thesis
    by (auto simp: add_range_def windows_ok_def window_ok_def sorted_wrt_append to_placed_def)
qed

lemma windows_ok_prefix: "windows_ok (ws @ vs) \<Longrightarrow> windows_ok ws"
  by (auto simp: windows_ok_def sorted_wrt_append)

lemma windows_ok_Nil [simp]: "windows_ok []"
  by (simp add: windows_ok_def)

lemma add_ram_iff:
  "windows_ok ws \<Longrightarrow> add_ram rs tot (map to_placed ws) = Ok (t', ranges) \<longleftrightarrow>
    unat tot + sum_list (map (unat \<circ> mr_size) rs) = unat t' \<and> windows_ok (ws @ map ram_window rs) \<and>
    ranges = map to_placed (ws @ map ram_window rs)"
proof (induction rs arbitrary: ws tot)
  case Nil
  then show ?case by (auto simp: word_unat_eq_iff)
next
  case (Cons r rs)
  have bound: "unat t' < 2 ^ 64" using unat_bound [of t'] by simp
  show ?case
  proof (cases "unat tot + unat (mr_size r) < 2 ^ 64 \<and> windows_ok (ws @ [ram_window r])")
    case True
    then have add: "checked_add tot (mr_size r) = Some (tot + mr_size r)" "unat (tot + mr_size r) = unat tot + unat (mr_size r)"
      by (simp_all add: checked_add_def unat_word_ariths)
    have "add_range SpaceMmio (mr_address r) (mr_size r) (map to_placed ws) = Ok (map to_placed (ws @ [ram_window r]))"
      using True add_range_iff [OF Cons.prems] by (simp add: ram_window_def)
    with add have "add_ram (r # rs) tot (map to_placed ws) = add_ram rs (tot + mr_size r) (map to_placed (ws @ [ram_window r]))"
      by simp
    with Cons.IH [of "ws @ [ram_window r]" "tot + mr_size r"] True add(2) show ?thesis by (simp add: add.assoc)
  next
    case False
    have "add_ram (r # rs) tot (map to_placed ws) \<noteq> Ok (t', ranges)"
      using False add_range_iff [OF Cons.prems, of SpaceMmio "mr_address r" "mr_size r"]
      by (auto simp: and_then_Ok_iff checked_add_def ram_window_def split: if_splits)
    moreover have "\<not> (unat tot + sum_list (map (unat \<circ> mr_size) (r # rs)) = unat t' \<and> windows_ok (ws @ map ram_window (r # rs)))"
      using False bound windows_ok_prefix [of "ws @ [ram_window r]" "map ram_window rs"] by auto
    ultimately show ?thesis by blast
  qed
qed

lemma add_virtio_iff:
  "windows_ok ws \<Longrightarrow> add_virtio rs (map to_placed ws) = Ok ranges \<longleftrightarrow>
    list_all (\<lambda>r. io_space r = SpaceMmio \<and> 0x200 \<le> io_size r) rs \<and> windows_ok (ws @ map io_window rs) \<and>
    ranges = map to_placed (ws @ map io_window rs)"
proof (induction rs arbitrary: ws)
  case Nil
  then show ?case by auto
next
  case (Cons r rs)
  show ?case
  proof (cases "windows_ok (ws @ [io_window r])")
    case True
    then have "add_range (io_space r) (io_address r) (io_size r) (map to_placed ws) = Ok (map to_placed (ws @ [io_window r]))"
      using add_range_iff [OF Cons.prems] by (simp add: io_window_def)
    with Cons.IH [OF True] show ?thesis by auto
  next
    case False
    then have "add_range (io_space r) (io_address r) (io_size r) (map to_placed ws) \<noteq> Ok x" for x
      using add_range_iff [OF Cons.prems, of "io_space r" "io_address r" "io_size r" x] by (simp add: io_window_def)
    then have "add_virtio (r # rs) (map to_placed ws) \<noteq> Ok ranges"
      by (cases "io_space r = SpaceMmio") (simp_all add: and_then_Ok_iff)
    moreover have "\<not> windows_ok (ws @ map io_window (r # rs))"
      using False windows_ok_prefix [of "ws @ [io_window r]" "map io_window rs"] by auto
    ultimately show ?thesis by blast
  qed
qed

text \<open>What the hotplug range must be.\<close>

definition hotplug_matches :: "MemoryRange option \<Rightarrow> MemoryRequirement option \<Rightarrow> bool" where
  "hotplug_matches hotplug need = (case (hotplug, need) of
     (Some r, Some n) \<Rightarrow> mr_size r = rq_capacity n \<and> unat (rq_alignment n) dvd unat (mr_address r)
   | (None, None) \<Rightarrow> True
   | _ \<Rightarrow> False)"

lemma add_hotplug_iff:
  "windows_ok ws \<Longrightarrow> add_hotplug h n (map to_placed ws) = Ok ranges \<longleftrightarrow> hotplug_matches h n \<and>
    windows_ok (ws @ (case h of None \<Rightarrow> [] | Some r \<Rightarrow> [ram_window r])) \<and>
    ranges = map to_placed (ws @ (case h of None \<Rightarrow> [] | Some r \<Rightarrow> [ram_window r]))"
  using add_range_iff [of ws SpaceMmio]
  by (auto simp: add_hotplug_def hotplug_matches_def is_multiple_of_unat ram_window_def split: option.splits)

lemma mib_bytes_iff:
  "mib_bytes mib = Ok b \<longleftrightarrow> unat mib * 2 ^ 20 < 2 ^ 64 \<and> unat b = unat mib * 2 ^ 20"
  using mib_bytes_Ok [of mib b]
  by (auto simp: mib_bytes_def checked_mul_def MIB_def word_unat_eq_iff unat_word_ariths split: if_splits)

text \<open>The chain of additions: it succeeds exactly if the whole list of windows is sound.\<close>

definition added :: "MachineLayout \<Rightarrow> VmConfig \<Rightarrow> DeviceRequirements \<Rightarrow> bool" where
  "added l config needs \<longleftrightarrow> (\<exists>t rs0 rs1 rs2 rs3. add_ram (ml_ram l) 0 [] = Ok (t, rs0) \<and> mib_bytes (memory_mib config) = Ok t \<and>
     add_range (io_space (ml_uart l)) (io_address (ml_uart l)) (io_size (ml_uart l)) rs0 = Ok rs1 \<and>
     add_virtio (ml_virtio l) rs1 = Ok rs2 \<and> add_hotplug (ml_hotplug l) (rq_hotplug needs) rs2 = Ok rs3)"

lemma added_iff:
  "added l config needs \<longleftrightarrow>
    sum_list (map (unat \<circ> mr_size) (ml_ram l)) = unat (memory_mib config) * 2 ^ 20 \<and>
    list_all (\<lambda>r. io_space r = SpaceMmio \<and> 0x200 \<le> io_size r) (ml_virtio l) \<and>
    hotplug_matches (ml_hotplug l) (rq_hotplug needs) \<and> windows_ok (windows l) \<and>
    unat (memory_mib config) * 2 ^ 20 < 2 ^ 64" (is "_ = ?r")
proof -
  let ?ram = "map ram_window (ml_ram l)" and ?u = "io_window (ml_uart l)"
  let ?v = "map io_window (ml_virtio l)" and ?h = "case ml_hotplug l of None \<Rightarrow> [] | Some r \<Rightarrow> [ram_window r]"
  have ws: "windows l = ((?ram @ [?u]) @ ?v) @ ?h" by (simp add: windows_def)
  have ram: "add_ram (ml_ram l) 0 [] = Ok (t, ranges) \<longleftrightarrow>
      sum_list (map (unat \<circ> mr_size) (ml_ram l)) = unat t \<and> windows_ok ?ram \<and> ranges = map to_placed ?ram" for t ranges
    using add_ram_iff [of "[]" "ml_ram l" 0 t ranges] by simp
  have ur: "add_range (io_space (ml_uart l)) (io_address (ml_uart l)) (io_size (ml_uart l)) (map to_placed ?ram) = Ok ranges \<longleftrightarrow>
      windows_ok (?ram @ [?u]) \<and> ranges = map to_placed (?ram @ [?u])" if "windows_ok ?ram" for ranges
    using add_range_iff [OF that] by (simp add: io_window_def)
  show ?thesis
  proof
    assume "added l config needs"
    then obtain t rs0 rs1 rs2 rs3 where c: "add_ram (ml_ram l) 0 [] = Ok (t, rs0)" "mib_bytes (memory_mib config) = Ok t"
      "add_range (io_space (ml_uart l)) (io_address (ml_uart l)) (io_size (ml_uart l)) rs0 = Ok rs1"
      "add_virtio (ml_virtio l) rs1 = Ok rs2" "add_hotplug (ml_hotplug l) (rq_hotplug needs) rs2 = Ok rs3"
      unfolding added_def by blast
    then have 0: "windows_ok ?ram" "rs0 = map to_placed ?ram" using ram by blast+
    with c ur [OF 0(1)] have 1: "windows_ok (?ram @ [?u])" "rs1 = map to_placed (?ram @ [?u])" by blast+
    with c add_virtio_iff [OF 1(1)] have 2: "windows_ok ((?ram @ [?u]) @ ?v)" "rs2 = map to_placed ((?ram @ [?u]) @ ?v)"
      "list_all (\<lambda>r. io_space r = SpaceMmio \<and> 0x200 \<le> io_size r) (ml_virtio l)" by blast+
    with c(5) have "add_hotplug (ml_hotplug l) (rq_hotplug needs) (map to_placed ((?ram @ [?u]) @ ?v)) = Ok rs3" by simp
    then have "windows_ok (windows l)" "hotplug_matches (ml_hotplug l) (rq_hotplug needs)"
      unfolding add_hotplug_iff [OF 2(1)] ws by blast+
    with c(1,2) ram 2(3) mib_bytes_iff show ?r by simp
  next
    assume r: ?r
    then have "windows_ok (((?ram @ [?u]) @ ?v) @ ?h)" unfolding ws by blast
    then have 2: "windows_ok ((?ram @ [?u]) @ ?v)" by (rule windows_ok_prefix)
    then have 1: "windows_ok (?ram @ [?u])" by (rule windows_ok_prefix)
    then have 0: "windows_ok ?ram" by (rule windows_ok_prefix)
    let ?b = "word_of_nat (unat (memory_mib config) * 2 ^ 20) :: u64"
    have b: "unat ?b = unat (memory_mib config) * 2 ^ 20" using r by (simp add: unat_word_ariths)
    then have "add_ram (ml_ram l) 0 [] = Ok (?b, map to_placed ?ram)" "mib_bytes (memory_mib config) = Ok ?b"
      unfolding ram mib_bytes_iff using r 0 by argo+
    moreover have "add_range (io_space (ml_uart l)) (io_address (ml_uart l)) (io_size (ml_uart l)) (map to_placed ?ram) =
        Ok (map to_placed (?ram @ [?u]))" using 1 ur [OF 0] by blast
    moreover have "add_virtio (ml_virtio l) (map to_placed (?ram @ [?u])) = Ok (map to_placed ((?ram @ [?u]) @ ?v))"
      using r 2 add_virtio_iff [OF 1] by blast
    moreover have "add_hotplug (ml_hotplug l) (rq_hotplug needs) (map to_placed ((?ram @ [?u]) @ ?v)) =
        Ok (map to_placed (windows l))" unfolding add_hotplug_iff [OF 2] using r ws by simp
    ultimately show "added l config needs" unfolding added_def by blast
  qed
qed

lemma validate_char:
  "validate l config needs = Ok () \<longleftrightarrow>
     vcpu_count config \<noteq> 0 \<and> ml_ram l \<noteq> [] \<and> length (ml_virtio l) = length (rq_devices needs) \<and>
     8 \<le> unat (io_size (ml_uart l)) \<and>
     sum_list (map (unat \<circ> mr_size) (ml_ram l)) = unat (memory_mib config) * 2 ^ 20 \<and>
     list_all (\<lambda>r. io_space r = SpaceMmio \<and> 0x200 \<le> io_size r) (ml_virtio l) \<and>
     hotplug_matches (ml_hotplug l) (rq_hotplug needs) \<and>
     list_all window_ok (windows l) \<and> sorted_wrt apart (windows l) \<and>
     unat (memory_mib config) * 2 ^ 20 < 2 ^ 64"
proof -
  have uart: "\<not> io_size (ml_uart l) < 8 \<longleftrightarrow> 8 \<le> unat (io_size (ml_uart l))"
    by (simp add: word_less_nat_alt not_less)
  have "validate l config needs = Ok () \<longleftrightarrow> vcpu_count config \<noteq> 0 \<and> ml_ram l \<noteq> [] \<and>
      length (ml_virtio l) = length (rq_devices needs) \<and> 8 \<le> unat (io_size (ml_uart l)) \<and> added l config needs"
    using uart by (auto simp: validate_def placed_ranges_def and_then_Ok_iff added_def split: if_splits)
  then show ?thesis by (auto simp: added_iff windows_ok_def list_all_iff)
qed

text \<open>C24. A layout is accepted exactly if there is a vCPU and base RAM, the windows (RAM, UART, one virtio
  window per device, hotplug) are nonempty, do not wrap and are pairwise disjoint in their address
  space, ports stay below 65536, the UART has eight registers, virtio windows are MMIO of at least 512
  bytes, the RAM adds up to the configured size, and the hotplug range has the required size and alignment.\<close>

theorem validate_iff:
  "validate l config needs = Ok () \<longleftrightarrow>
     vcpu_count config \<noteq> 0 \<and> ml_ram l \<noteq> [] \<and> length (ml_virtio l) = length (rq_devices needs) \<and>
     8 \<le> unat (io_size (ml_uart l)) \<and>
     sum_list (map (unat \<circ> mr_size) (ml_ram l)) = unat (memory_mib config) * 2 ^ 20 \<and>
     list_all (\<lambda>r. io_space r = SpaceMmio \<and> 0x200 \<le> io_size r) (ml_virtio l) \<and>
     hotplug_matches (ml_hotplug l) (rq_hotplug needs) \<and>
     list_all window_ok (windows l) \<and> sorted_wrt apart (windows l) \<and>
     unat (memory_mib config) * 2 ^ 20 < 2 ^ 64"
  by (rule validate_char)

end
