(* ===== verification/Hvf.thy ===== *)
theory Hvf
  imports Boot Platform
begin

text \<open>
  The binding to Apple's Hypervisor framework (\<open>src/src/platform/macos_arm64/hvf.rs\<close>): the table of
  mapped regions with its ownership rule, the VM with its interrupt controller, and the vCPU
  registers. The framework's functions are the record \<open>hv\<close> of parameters over its own state \<open>'h\<close>;
  a function returns the framework's status code first.
  The table of mappings implements the contract \<open>mapper\<close>: mapped regions are pairwise disjoint, a
  failed call changes nothing. From it follow the properties of hot-pluggable memory on this platform.
\<close>

section \<open>The framework\<close>

record 'h hv =
  hv_vm_get_max_vcpu_count :: "'h \<Rightarrow> u32 \<times> u32"
  hv_vm_config_get_default_ipa_size :: "'h \<Rightarrow> u32 \<times> u32"
  hv_vm_create :: "'h \<Rightarrow> u32 \<times> 'h"
  hv_vm_destroy :: "'h \<Rightarrow> u32 \<times> 'h"
  hv_vm_map :: "u64 \<Rightarrow> u64 \<Rightarrow> u64 \<Rightarrow> u64 \<Rightarrow> 'h \<Rightarrow> u32 \<times> 'h"
  hv_vm_unmap :: "u64 \<Rightarrow> u64 \<Rightarrow> 'h \<Rightarrow> u32 \<times> 'h"
  hv_gic_config_create :: "'h \<Rightarrow> u64 \<times> 'h"
  hv_gic_config_set_distributor_base :: "u64 \<Rightarrow> u64 \<Rightarrow> 'h \<Rightarrow> u32 \<times> 'h"
  hv_gic_config_set_redistributor_base :: "u64 \<Rightarrow> u64 \<Rightarrow> 'h \<Rightarrow> u32 \<times> 'h"
  hv_gic_create :: "u64 \<Rightarrow> 'h \<Rightarrow> u32 \<times> 'h"
  hv_gic_get_redistributor_region_size :: "'h \<Rightarrow> u32 \<times> u64"
  hv_gic_get_intid :: "u16 \<Rightarrow> 'h \<Rightarrow> u32 \<times> u32"
  hv_gic_get_spi_interrupt_range :: "'h \<Rightarrow> u32 \<times> u32 \<times> u32"
  hv_gic_set_spi :: "u32 \<Rightarrow> bool \<Rightarrow> 'h \<Rightarrow> u32 \<times> 'h"
  hv_vcpu_create :: "'h \<Rightarrow> u32 \<times> u64 \<times> 'h"
  hv_vcpu_destroy :: "u64 \<Rightarrow> 'h \<Rightarrow> u32 \<times> 'h"
  hv_vcpu_get_reg :: "u64 \<Rightarrow> u32 \<Rightarrow> 'h \<Rightarrow> u32 \<times> u64"
  hv_vcpu_set_reg :: "u64 \<Rightarrow> u32 \<Rightarrow> u64 \<Rightarrow> 'h \<Rightarrow> u32 \<times> 'h"
  hv_vcpu_set_sys_reg :: "u64 \<Rightarrow> u16 \<Rightarrow> u64 \<Rightarrow> 'h \<Rightarrow> u32 \<times> 'h"
  os_release :: "u64 \<Rightarrow> 'h \<Rightarrow> 'h"
  page_size :: u64

definition check :: "u32 \<Rightarrow> string \<Rightarrow> (unit, PlatformError) result" where
  "check code op = (if code \<noteq> 0 then Err (PlatformError.Hypervisor op code) else Ok ())"

lemma check_not_Panic [simp]: "check code op \<noteq> Panic"
  by (simp add: check_def)

text \<open>A checked call, and a checked query.\<close>

definition hv_call :: "('h \<Rightarrow> u32 \<times> 'h) \<Rightarrow> string \<Rightarrow> ('h, unit, PlatformError) prog" where
  "hv_call f op = (\<lambda>h. case f h of (code, h') \<Rightarrow> (check code op, h'))"

definition hv_query :: "('h \<Rightarrow> u32 \<times> 'a) \<Rightarrow> string \<Rightarrow> ('h, 'a, PlatformError) prog" where
  "hv_query f op = (\<lambda>h. case f h of (code, x) \<Rightarrow> (and_then (check code op) (\<lambda>_. Ok x), h))"

lemma no_panic_hv_call [no_panic_intros]: "no_panic (hv_call f op)"
  by (simp add: no_panic_def hv_call_def split: prod.splits)

lemma no_panic_hv_query [no_panic_intros]: "no_panic (hv_query f op)"
  by (simp add: no_panic_def hv_query_def check_def split: prod.splits)

definition spi :: "'h hv \<Rightarrow> u32 \<Rightarrow> bool \<Rightarrow> ('h, unit, PlatformError) prog" where
  "spi H irq level = hv_call (hv_gic_set_spi H irq level) ''GIC SPI''"

definition validate_irqs :: "'h hv \<Rightarrow> virtio_region list \<Rightarrow> ('h, unit, PlatformError) prog" where
  "validate_irqs H regions =
     bnd (hv_query (hv_gic_get_spi_interrupt_range H) ''GIC SPI range'') (\<lambda>(base, n).
     bnd (pure_res (ok_or (checked_add base n) PlatformError.InvalidGicSpiRange)) (\<lambda>e.
     if \<not> ((base \<le> UART_IRQ \<and> UART_IRQ < e) \<and> list_all (\<lambda>r. base \<le> vr_irq r \<and> vr_irq r < e) regions)
     then throw (PlatformError.GicSpiRange base e)
     else ret ()))"

definition ipa_bits :: "'h hv \<Rightarrow> ('h, u32, PlatformError) prog" where
  "ipa_bits H = hv_query (hv_vm_config_get_default_ipa_size H) ''default VM IPA size''"

definition max_vcpus :: "'h hv \<Rightarrow> ('h, u32, PlatformError) prog" where
  "max_vcpus H = hv_query (hv_vm_get_max_vcpu_count H) ''max vCPU count''"

section \<open>The table of mappings\<close>

type_synonym mappings = "(u64, region) btree"

definition mappings_map ::
  "region \<Rightarrow> ('h, unit, PlatformError) prog \<Rightarrow> (mappings \<times> 'h, unit, PlatformError) prog" where
  "mappings_map r do_map = (\<lambda>(t, h).
     case checked_add (r_start r) (r_len r) of
       None \<Rightarrow> (Err (PlatformError.RegionOverflow (r_start r) (r_len r)), t, h)
     | Some e \<Rightarrow>
         if (case bt_last_below e t of None \<Rightarrow> False | Some (a, r') \<Rightarrow> r_start r < a + r_len r')
         then (Err (PlatformError.MappingOverlap (r_start r) (r_len r)), t, h)
         else bnd (zoom_snd do_map) (\<lambda>_. modify (\<lambda>(t, h). (bt_insert (r_start r) r t, h))) (t, h))"

definition mappings_unmap ::
  "region \<Rightarrow> (u64 \<Rightarrow> u64 \<Rightarrow> ('h, unit, PlatformError) prog) \<Rightarrow> (mappings \<times> 'h, unit, PlatformError) prog" where
  "mappings_unmap r do_unmap = (\<lambda>(t, h).
     case bt_get t (r_start r) of
       None \<Rightarrow> (Err (PlatformError.MappingNotFound (r_start r) (r_len r)), t, h)
     | Some m \<Rightarrow>
         if r_len m \<noteq> r_len r then (Err (PlatformError.MappingNotFound (r_start r) (r_len r)), t, h)
         else if r_alloc m \<noteq> r_alloc r then (Err (PlatformError.MappingMismatch (r_start r) (r_len r)), t, h)
         else bnd (zoom_snd (do_unmap (r_start r) (r_len r))) (\<lambda>_. modify (\<lambda>(t, h). (bt_remove (r_start r) t, h))) (t, h))"

text \<open>The emptied table and the regions that are leaked because the framework may still use them.\<close>

definition mappings_destroyed :: "bool \<Rightarrow> mappings \<Rightarrow> mappings \<times> region list" where
  "mappings_destroyed success t = ([], if success then [] else bt_values t)"

section \<open>The VM\<close>

text \<open>The state of \<open>hvf::Vm\<close>: its table and the framework.\<close>

type_synonym 'h hvf_vm = "mappings \<times> 'h"

definition hvf_new :: "'h hv \<Rightarrow> ('h, mappings, PlatformError) prog" where
  "hvf_new H = bnd (hv_call (hv_vm_create H) ''create VM (check hypervisor entitlement)'') (\<lambda>_. ret [])"

definition hvf_gic :: "'h hv \<Rightarrow> ('h, u64 \<times> u32 \<times> u32, PlatformError) prog" where
  "hvf_gic H = (\<lambda>h.
     case hv_gic_config_create H h of (c, h) \<Rightarrow>
       if c = 0 then (Err PlatformError.CreateGicConfiguration, h)
       else
       case bnd (hv_call (hv_gic_config_set_distributor_base H c GIC_DIST) ''GIC distributor'') (\<lambda>_.
            bnd (hv_call (hv_gic_config_set_redistributor_base H c GIC_REDIST) ''GIC redistributor'') (\<lambda>_.
            hv_call (hv_gic_create H c) ''create GIC'')) h of (result, h) \<Rightarrow>
       bnd (pure_res result) (\<lambda>_.
       bnd (hv_query (hv_gic_get_redistributor_region_size H) ''GIC size'') (\<lambda>len.
       if RAM < GIC_REDIST + len then throw PlatformError.GicOverlapsRam
       else
       bnd (hv_query (hv_gic_get_intid H 30) ''physical timer INTID'') (\<lambda>phys.
       bnd (hv_query (hv_gic_get_intid H 27) ''virtual timer INTID'') (\<lambda>virt.
       ret (len, phys, virt))))) (os_release H c h))"

definition hvf_drop :: "'h hv \<Rightarrow> 'h hvf_vm \<Rightarrow> region list \<times> 'h hvf_vm" where
  "hvf_drop H = (\<lambda>(t, h). case hv_vm_destroy H h of (code, h') \<Rightarrow>
     case mappings_destroyed (is_ok (check code ''destroy VM'')) t of (t', leaked) \<Rightarrow> (leaked, t', h'))"

definition hvf_map :: "'h hv \<Rightarrow> region \<Rightarrow> ('h hvf_vm, unit, MemoryError) prog" where
  "hvf_map H r = (\<lambda>s.
     if \<not> (is_multiple_of (r_ptr r) (page_size H) \<and> is_multiple_of (r_len r) (page_size H) \<and>
          is_multiple_of (r_start r) (page_size H))
     then (Err (memory_error_from PlatformError.HvfHostPageAlignment), s)
     else
     case bnd (zoom_snd (ipa_bits H)) (\<lambda>bits.
          bnd (pure_res (map_err PlatformError.Boot (validate_ipa_range (r_start r) (r_len r) bits))) (\<lambda>_.
          mappings_map r (hv_call (hv_vm_map H (r_ptr r) (r_start r) (r_len r) 7) ''map guest RAM''))) s
     of (res, s') \<Rightarrow> (map_err memory_error_from res, s'))"

definition hvf_unmap :: "'h hv \<Rightarrow> region \<Rightarrow> ('h hvf_vm, unit, MemoryError) prog" where
  "hvf_unmap H r = (\<lambda>s.
     case mappings_unmap r (\<lambda>address len. hv_call (hv_vm_unmap H address len) ''unmap guest RAM'') s
     of (res, s') \<Rightarrow> (map_err memory_error_from res, s'))"

definition hvf_mapper :: "'h hv \<Rightarrow> 'h hvf_vm mapper_ops" where
  "hvf_mapper H = \<lparr>mp_map = hvf_map H, mp_unmap = hvf_unmap H\<rparr>"

section \<open>The registers of a vCPU\<close>

definition vcpu_set :: "'h hv \<Rightarrow> u64 \<Rightarrow> u32 \<Rightarrow> u64 \<Rightarrow> ('h, unit, PlatformError) prog" where
  "vcpu_set H cpu reg v = hv_call (hv_vcpu_set_reg H cpu reg v) ''write register''"

definition vcpu_get :: "'h hv \<Rightarrow> u64 \<Rightarrow> u32 \<Rightarrow> ('h, u64, PlatformError) prog" where
  "vcpu_get H cpu reg = hv_query (hv_vcpu_get_reg H cpu reg) ''read register''"

text \<open>The vCPU is destroyed again if setting its affinity register fails.\<close>

definition vcpu_new :: "'h hv \<Rightarrow> u64 \<Rightarrow> ('h, u64, PlatformError) prog" where
  "vcpu_new H mpidr = (\<lambda>h.
     case hv_vcpu_create H h of (code, cpu, h) \<Rightarrow>
       bnd (pure_res (check code ''create vCPU'')) (\<lambda>_ h.
         case hv_call (hv_vcpu_set_sys_reg H cpu 0xc005 mpidr) ''MPIDR'' h of
           (Ok _, h) \<Rightarrow> (Ok cpu, h)
         | (Err e, h) \<Rightarrow> (Err e, snd (hv_vcpu_destroy H cpu h))
         | (Panic, h) \<Rightarrow> (Panic, h)) h)"

fun clear_registers :: "'h hv \<Rightarrow> u64 \<Rightarrow> nat list \<Rightarrow> ('h, unit, PlatformError) prog" where
  "clear_registers H cpu [] = ret ()"
| "clear_registers H cpu (reg # regs) =
     bnd (vcpu_set H cpu (word_of_nat reg) 0) (\<lambda>_. clear_registers H cpu regs)"

definition vcpu_boot :: "'h hv \<Rightarrow> u64 \<Rightarrow> u64 \<Rightarrow> u64 \<Rightarrow> ('h, unit, PlatformError) prog" where
  "vcpu_boot H cpu entry context =
     bnd (hv_call (hv_vcpu_set_sys_reg H cpu 0xc080 0x30d00800) ''SCTLR_EL1'') (\<lambda>_.
     bnd (clear_registers H cpu [0 ..< 31]) (\<lambda>_.
     bnd (vcpu_set H cpu 34 0x3c5) (\<lambda>_.
     bnd (vcpu_set H cpu 31 entry) (\<lambda>_.
     vcpu_set H cpu 0 context))))"

definition vcpu_advance :: "'h hv \<Rightarrow> u64 \<Rightarrow> ('h, unit, PlatformError) prog" where
  "vcpu_advance H cpu = bnd (vcpu_get H cpu 31) (\<lambda>pc. vcpu_set H cpu 31 (pc + 4))"

section \<open>The table implements the contract of a mapper\<close>

text \<open>\<open>host\<close> is where the host placed an allocation: a region is passed with its own pointer, and an
  allocation is never empty.\<close>

definition region_ok :: "(nat \<Rightarrow> u64) \<Rightarrow> region \<Rightarrow> bool" where
  "region_ok host r \<longleftrightarrow> 0 < unat (r_len r) \<and> r_ptr r = host (r_alloc r)"

definition region_end :: "region \<Rightarrow> nat" where
  "region_end r = unat (r_start r) + unat (r_len r)"

definition disjoint_regions :: "region \<Rightarrow> region \<Rightarrow> bool" where
  "disjoint_regions r r' \<longleftrightarrow> region_end r \<le> unat (r_start r') \<or> region_end r' \<le> unat (r_start r)"

definition mappings_inv :: "(nat \<Rightarrow> u64) \<Rightarrow> mappings \<Rightarrow> bool" where
  "mappings_inv host t \<longleftrightarrow> bt_inv t \<and>
     (\<forall>(a, r) \<in> set t. r_start r = a \<and> region_ok host r \<and> region_end r < 2 ^ 64) \<and>
     (\<forall>(a, r) \<in> set t. \<forall>(a', r') \<in> set t. r \<noteq> r' \<longrightarrow> disjoint_regions r r')"

definition hvf_mapped :: "'h hvf_vm \<Rightarrow> region set" where
  "hvf_mapped s = set (bt_values (fst s))"

lemma mappings_inv_entry:
  "mappings_inv host t \<Longrightarrow> (a, r) \<in> set t \<Longrightarrow> r_start r = a \<and> region_ok host r \<and> region_end r < 2 ^ 64"
  by (auto simp: mappings_inv_def)

lemma mappings_inv_disjoint:
  "mappings_inv host t \<Longrightarrow> (a, r) \<in> set t \<Longrightarrow> (a', r') \<in> set t \<Longrightarrow> r \<noteq> r' \<Longrightarrow> disjoint_regions r r'"
  by (fastforce simp: mappings_inv_def)

text \<open>The one comparison the table makes, with the greatest entry that begins below the new region's
  end, excludes an overlap with every entry.\<close>

lemma overlap_check:
  assumes "mappings_inv host t" and "region_ok host r" and e: "checked_add (r_start r) (r_len r) = Some e"
    and chk: "\<not> (case bt_last_below e t of None \<Rightarrow> False | Some (a, r') \<Rightarrow> r_start r < a + r_len r')"
    and q: "(b, q) \<in> set t"
  shows "disjoint_regions q r"
proof -
  have e': "unat e = region_end r" using checked_add_Some [OF e] by (simp add: region_end_def)
  have inv: "bt_inv t" using assms(1) by (simp add: mappings_inv_def)
  have qs: "r_start q = b" using mappings_inv_entry [OF assms(1) q] by simp
  show ?thesis
  proof (cases "b < e")
    case False
    with e' qs show ?thesis by (simp add: disjoint_regions_def word_less_nat_alt)
  next
    case True
    with q bt_last_below_None [of e t] obtain p where p: "bt_last_below e t = Some p" by fastforce
    obtain a r' where p': "p = (a, r')" by force
    note l = bt_last_below_Some [OF inv p]
    have r': "(a, r') \<in> set t" using l p' by simp
    note en = mappings_inv_entry [OF assms(1) r']
    have "b \<le> a" using l q True p' by force
    moreover have "unat (a + r_len r') = region_end r'"
      using en by (auto simp: region_end_def unat_word_ariths)
    with chk p p' have "region_end r' \<le> unat (r_start r)" by (simp add: word_less_nat_alt)
    moreover have "region_end q \<le> region_end r'"
    proof (cases "q = r'")
      case False
      with mappings_inv_disjoint [OF assms(1) q r'] \<open>b \<le> a\<close> en qs show ?thesis
        by (auto simp: disjoint_regions_def region_end_def region_ok_def word_le_nat_alt)
    qed simp
    ultimately show ?thesis by (simp add: disjoint_regions_def)
  qed
qed

lemma insert_mapping:
  assumes "mappings_inv host t" and "region_ok host r" and "region_end r < 2 ^ 64"
    and "\<forall>(b, q) \<in> set t. disjoint_regions q r"
  shows "mappings_inv host (bt_insert (r_start r) r t) \<and> r \<notin> set (bt_values t) \<and>
    set (bt_values (bt_insert (r_start r) r t)) = insert r (set (bt_values t))"
proof -
  have inv: "bt_inv t" using assms(1) by (simp add: mappings_inv_def)
  have fresh: "b \<noteq> r_start r" "q \<noteq> r" if "(b, q) \<in> set t" for b q
  proof -
    have "disjoint_regions q r" using assms(4) that by auto
    moreover note mappings_inv_entry [OF assms(1) that]
    ultimately show "b \<noteq> r_start r" "q \<noteq> r"
      using assms(2) by (auto simp: disjoint_regions_def region_end_def region_ok_def)
  qed
  have set: "set (bt_insert (r_start r) r t) = insert (r_start r, r) (set t)"
    using set_bt_insert [OF inv, of "r_start r" r] fresh(1) by force
  have "mappings_inv host (bt_insert (r_start r) r t)"
    unfolding mappings_inv_def set
  proof (intro conjI ballI, goal_cases)
    case 1
    show ?case using inv by simp
  next
    case (2 x)
    then show ?case using assms(1-3) by (auto simp: mappings_inv_def)
  next
    case (3 x)
    then show ?case using assms(1,4) by (fastforce simp: mappings_inv_def disjoint_regions_def)
  qed
  with set fresh(2) show ?thesis by (force simp: bt_values_def)
qed

lemma remove_mapping:
  assumes "mappings_inv host t" and "bt_get t (r_start r) = Some r"
  shows "mappings_inv host (bt_remove (r_start r) t) \<and> r \<in> set (bt_values t) \<and>
    set (bt_values (bt_remove (r_start r) t)) = set (bt_values t) - {r}"
proof -
  have inv: "bt_inv t" using assms(1) by (simp add: mappings_inv_def)
  have r: "(r_start r, r) \<in> set t" using assms(2) by (simp add: bt_get_Some_iff [OF inv])
  have uniq: "q = r" if "(r_start r, q) \<in> set t" for q
    using that r assms(2) by (metis bt_get_Some_iff inv option.inject)
  have "set (bt_values (bt_remove (r_start r) t)) = set (bt_values t) - {r}"
  proof (intro set_eqI iffI)
    fix q assume "q \<in> set (bt_values (bt_remove (r_start r) t))"
    then obtain a where a: "(a, q) \<in> set t" "a \<noteq> r_start r" by (auto simp: bt_values_def set_bt_remove)
    with mappings_inv_entry [OF assms(1) a(1)] show "q \<in> set (bt_values t) - {r}" by (force simp: bt_values_def)
  next
    fix q assume "q \<in> set (bt_values t) - {r}"
    then obtain a where "(a, q) \<in> set t" "q \<noteq> r" by (auto simp: bt_values_def)
    with uniq show "q \<in> set (bt_values (bt_remove (r_start r) t))" by (force simp: bt_values_def set_bt_remove)
  qed
  moreover have "mappings_inv host (bt_remove (r_start r) t)"
    using assms(1) by (fastforce simp: mappings_inv_def set_bt_remove)
  ultimately show ?thesis using r by (force simp: bt_values_def)
qed

text \<open>The outcomes of the two operations.\<close>

lemma mappings_map_cases:
  assumes "mappings_map r f (t, h) = (res, t', h')" and "no_panic f" and "mappings_inv host t" and "region_ok host r"
  shows "(res = Ok () \<and> t' = bt_insert (r_start r) r t \<and> region_end r < 2 ^ 64 \<and> (\<forall>(b, q) \<in> set t. disjoint_regions q r)) \<or>
    (\<exists>e. res = Err e \<and> t' = t)"
proof (cases "checked_add (r_start r) (r_len r)")
  case None
  with assms(1) show ?thesis by (auto simp: mappings_map_def)
next
  case (Some e)
  let ?clash = "case bt_last_below e t of None \<Rightarrow> False | Some (a, r') \<Rightarrow> r_start r < a + r_len r'"
  show ?thesis
  proof (cases ?clash)
    case True
    with Some assms(1) show ?thesis by (auto simp: mappings_map_def)
  next
    case False
    have "region_end r = unat e" using checked_add_Some [OF Some] by (simp add: region_end_def)
    then have "region_end r < 2 ^ 64" using unat_bound [of e] by simp
    moreover have "\<forall>(b, q) \<in> set t. disjoint_regions q r" using overlap_check [OF assms(3,4) Some False] by blast
    moreover obtain res1 h1 where f: "f h = (res1, h1)" by fastforce
    moreover have "res1 \<noteq> Panic" using f no_panicD [OF assms(2)] by blast
    moreover have "mappings_map r f (t, h) =
        bnd (zoom_snd f) (\<lambda>_. modify (\<lambda>(t, h). (bt_insert (r_start r) r t, h))) (t, h)"
      using Some False by (simp add: mappings_map_def)
    ultimately show ?thesis using assms(1) by (cases res1) (simp_all add: prog_defs)
  qed
qed

lemma mappings_unmap_cases:
  assumes "mappings_unmap r f (t, h) = (res, t', h')" and "\<And>a n. no_panic (f a n)"
    and "mappings_inv host t" and "region_ok host r"
  shows "(res = Ok () \<and> t' = bt_remove (r_start r) t \<and> bt_get t (r_start r) = Some r) \<or> (\<exists>e. res = Err e \<and> t' = t)"
proof (cases "bt_get t (r_start r)")
  case None
  with assms(1) show ?thesis by (auto simp: mappings_unmap_def)
next
  case (Some m)
  have "bt_inv t" using assms(3) by (simp add: mappings_inv_def)
  with Some have "(r_start r, m) \<in> set t" by (simp add: bt_get_Some_iff)
  note en = mappings_inv_entry [OF assms(3) this]
  show ?thesis
  proof (cases "r_len m = r_len r \<and> r_alloc m = r_alloc r")
    case False
    with Some assms(1) show ?thesis by (auto simp: mappings_unmap_def split: if_splits)
  next
    case True
    then have "m = r" using en assms(4) by (simp add: region_ok_def)
    obtain res1 h1 where f: "f (r_start r) (r_len r) h = (res1, h1)" by fastforce
    have "res1 \<noteq> Panic" using f no_panicD [OF assms(2)] by blast
    with Some True f assms(1) \<open>m = r\<close> show ?thesis
      by (cases res1) (auto simp: mappings_unmap_def prog_defs)
  qed
qed

lemma hvf_map_cases:
  assumes "hvf_map H r (t, h) = (res, t', h')" and "mappings_inv host t" and "region_ok host r"
  shows "(res = Ok () \<and> t' = bt_insert (r_start r) r t \<and> region_end r < 2 ^ 64 \<and> (\<forall>(b, q) \<in> set t. disjoint_regions q r)) \<or>
    (\<exists>e. res = Err e \<and> t' = t)"
proof -
  let ?al = "is_multiple_of (r_ptr r) (page_size H) \<and> is_multiple_of (r_len r) (page_size H) \<and> is_multiple_of (r_start r) (page_size H)"
  let ?call = "hv_call (hv_vm_map H (r_ptr r) (r_start r) (r_len r) 7) ''map guest RAM''"
  obtain b h0 where ipa: "ipa_bits H h = (b, h0)" by fastforce
  have "b \<noteq> Panic \<and> h0 = h"
    using ipa by (auto simp: ipa_bits_def hv_query_def check_def split: prod.splits if_splits)
  then show ?thesis
  proof (cases "\<exists>bits. ?al \<and> b = Ok bits \<and> validate_ipa_range (r_start r) (r_len r) bits = Ok ()")
    case True
    then obtain bits where g: "?al" "b = Ok bits" "validate_ipa_range (r_start r) (r_len r) bits = Ok ()" by blast
    obtain res1 t1 h1 where m: "mappings_map r ?call (t, h) = (res1, t1, h1)" by (metis prod_cases3)
    have "hvf_map H r (t, h) = (map_err memory_error_from res1, t1, h1)"
      using g ipa m \<open>b \<noteq> Panic \<and> h0 = h\<close> by (simp add: hvf_map_def prog_defs)
    with assms(1) mappings_map_cases [OF m no_panic_hv_call assms(2,3)] show ?thesis by auto
  next
    case False
    have vp: "validate_ipa_range (r_start r) (r_len r) bits \<noteq> Panic" for bits
      by (simp add: validate_ipa_range_def and_then_Panic_iff)
    show ?thesis
    proof (cases "?al \<and> (\<exists>bits. b = Ok bits)")
      case True
      then obtain bits where "?al" "b = Ok bits" by blast
      with False vp [of bits] obtain e where "validate_ipa_range (r_start r) (r_len r) bits = Err e"
        by (cases "validate_ipa_range (r_start r) (r_len r) bits") auto
      with \<open>?al\<close> \<open>b = Ok bits\<close> ipa \<open>b \<noteq> Panic \<and> h0 = h\<close> assms(1) show ?thesis
        by (auto simp: hvf_map_def prog_defs)
    next
      case False
      with ipa \<open>b \<noteq> Panic \<and> h0 = h\<close> assms(1) show ?thesis
        by (cases b) (auto simp: hvf_map_def prog_defs split: if_splits)
    qed
  qed
qed

lemma hvf_unmap_cases:
  assumes "hvf_unmap H r (t, h) = (res, t', h')" and "mappings_inv host t" and "region_ok host r"
  shows "(res = Ok () \<and> t' = bt_remove (r_start r) t \<and> bt_get t (r_start r) = Some r) \<or> (\<exists>e. res = Err e \<and> t' = t)"
proof -
  obtain res1 t1 h1 where m:
    "mappings_unmap r (\<lambda>address len. hv_call (hv_vm_unmap H address len) ''unmap guest RAM'') (t, h) = (res1, t1, h1)"
    by (metis prod_cases3)
  with assms(1) mappings_unmap_cases [OF m no_panic_hv_call assms(2,3)] show ?thesis
    by (auto simp: hvf_unmap_def)
qed

interpretation hvf: mapper "hvf_mapper H" hvf_mapped "\<lambda>s. mappings_inv host (fst s)" "region_ok host" for H :: "'h hv" and host
proof (unfold_locales, goal_cases)
  case (1 s r s')
  then show ?case
    using hvf_map_cases [of H r "fst s" "snd s" "Ok ()" "fst s'" "snd s'" host] insert_mapping [of host "fst s" r]
    by (simp add: hvf_mapper_def hvf_mapped_def)
next
  case (2 s r e s')
  then show ?case
    using hvf_map_cases [of H r "fst s" "snd s" "Err e" "fst s'" "snd s'" host]
    by (simp add: hvf_mapper_def hvf_mapped_def)
next
  case (3 s r s')
  then show ?case
    using hvf_unmap_cases [of H r "fst s" "snd s" "Ok ()" "fst s'" "snd s'" host] remove_mapping [of host "fst s" r]
    by (simp add: hvf_mapper_def hvf_mapped_def)
next
  case (4 s r e s')
  then show ?case
    using hvf_unmap_cases [of H r "fst s" "snd s" "Err e" "fst s'" "snd s'" host]
    by (simp add: hvf_mapper_def hvf_mapped_def)
next
  case (5 s r)
  then show ?case
    using hvf_map_cases [of H r "fst s" "snd s" Panic _ _ host]
    by (cases "hvf_map H r s") (fastforce simp: hvf_mapper_def)
next
  case (6 s r)
  then show ?case
    using hvf_unmap_cases [of H r "fst s" "snd s" Panic _ _ host]
    by (cases "hvf_unmap H r s") (fastforce simp: hvf_mapper_def)
next
  case (7 s r)
  then show ?case by (auto simp: hvf_mapped_def bt_values_def dest: mappings_inv_entry)
qed

text \<open>The framework maps a region exactly if the call succeeds: the table then owns it, and it overlaps
  no region mapped before. A failed call leaves the table as it was.\<close>

theorem hvf_map_exclusive:
  assumes "mappings_inv host t" and "region_ok host r" and "hvf_map H r (t, h) = (res, t', h')"
  shows "mappings_inv host t' \<and> res \<noteq> Panic \<and>
    (if res = Ok () then set (bt_values t') = insert r (set (bt_values t)) \<and>
       list_all (\<lambda>q. disjoint_regions q r) (bt_values t)
     else t' = t)"
  using hvf_map_cases [OF assms(3,1,2)]
proof (elim disjE conjE exE)
  assume "res = Ok ()" "t' = bt_insert (r_start r) r t" "region_end r < 2 ^ 64" "\<forall>(b, q) \<in> set t. disjoint_regions q r"
  with insert_mapping [OF assms(1,2)] show ?thesis by (auto simp: list_all_iff bt_values_def)
qed (use assms(1) in simp)

text \<open>When the VM is destroyed successfully nothing is leaked; otherwise every region that is still
  mapped is kept alive forever, because the framework may reference it.\<close>

lemma hvf_drop_keeps_mapped:
  "hvf_drop H (t, h) = (leaked, t', h') \<Longrightarrow>
    t' = [] \<and> set leaked = (if fst (hv_vm_destroy H h) = 0 then {} else hvf_mapped (t, h))"
  by (auto simp: hvf_drop_def mappings_destroyed_def check_def hvf_mapped_def split: prod.splits if_splits)

section \<open>Hot-pluggable memory on this platform\<close>

text \<open>\<open>GuestRegionMmap::from_range\<close> allocates the range it was asked for, at the allocation's own address.\<close>

definition host_alloc_law :: "(nat \<Rightarrow> u64) \<Rightarrow> alloc \<Rightarrow> bool" where
  "host_alloc_law host A \<longleftrightarrow> (\<forall>a n r. A a n = Inr r \<longrightarrow> r_start r = a \<and> unat (r_len r) = n \<and> r_ptr r = host (r_alloc r))"

lemma host_alloc_laws:
  "host_alloc_law host A \<Longrightarrow> vm_inv v \<Longrightarrow> alloc_law A \<and> (\<forall>a r. A a (block_len v) = Inr r \<longrightarrow> region_ok host r)"
  by (auto simp: host_alloc_law_def alloc_law_def region_ok_def vm_inv_def)

text \<open>Device and VM together: the device's invariant holds, the table's, and every plugged block is mapped.\<close>

definition memory_ok :: "(nat \<Rightarrow> u64) \<Rightarrow> virtio_mem \<Rightarrow> 'h hvf_vm \<Rightarrow> bool" where
  "memory_ok host v s \<longleftrightarrow> vm_inv v \<and> mappings_inv host (fst s) \<and> set (bt_values (blocks v)) \<subseteq> hvf_mapped s"

lemma request_on_hvf:
  assumes "memory_ok host v s" and "host_alloc_law host A"
    and "memory_request C (hvf_mapper H) A req pins (v, s, m) = (r, v', s', m')"
  shows "r \<noteq> Panic \<and> vm_inv v' \<and> fair pins v v' \<and> mappings_inv host (fst s') \<and>
    (hvf.in_step host v s v' s' \<or> (\<exists>a b. r = Err (MemoryError.RollbackFailed a b)) \<and> v' = v \<and> m' = m)"
proof -
  have inv: "vm_inv v" "mappings_inv host (fst s)" "set (bt_values (blocks v)) \<subseteq> hvf_mapped s"
    using assms(1) by (simp_all add: memory_ok_def)
  note laws = host_alloc_laws [OF assms(2) inv(1)]
  from hvf.request_in_step [OF inv(1) conjunct1 [OF laws] inv(3,2) conjunct2 [OF laws] assms(3)]
  show ?thesis by blast
qed



text \<open>The life of the device and its VM: the host sets targets, the runtime maps base RAM and
  synchronizes, guest memory changes, the guest sends requests.\<close>

inductive memory_reach :: "('q, 'm) crates \<Rightarrow> 'h hv \<Rightarrow> (nat \<Rightarrow> u64) \<Rightarrow> virtio_mem \<Rightarrow> 'h hvf_vm \<Rightarrow> 'm \<Rightarrow> bool"
  for C :: "('q, 'm) crates" and H :: "'h hv" and host :: "nat \<Rightarrow> u64" where
  created: "virtio_mem_new region_mib block_mib = Ok v \<Longrightarrow> attach_at a v = (Ok (), v') \<Longrightarrow> memory_reach C H host v' ([], h) m"
| targeted: "memory_reach C H host v s m \<Longrightarrow> set_requested_mib target (control v) = (r, c) \<Longrightarrow>
    memory_reach C H host (v\<lparr>control := c\<rparr>) s m"
| synced: "memory_reach C H host v s m \<Longrightarrow> memory_reach C H host (snd (sync_target ready v)) s m"
| started: "memory_reach C H host v s m \<Longrightarrow> memory_reach C H host (memory_start v) s m"
| reset: "memory_reach C H host v s m \<Longrightarrow> memory_reset v = (r, v') \<Longrightarrow> memory_reach C H host v' s m"
| memory: "memory_reach C H host v s m \<Longrightarrow> memory_reach C H host v s m'"
| mapped: "memory_reach C H host v s m \<Longrightarrow> region_ok host x \<Longrightarrow> hvf_map H x s = (r, s') \<Longrightarrow> memory_reach C H host v s' m"
| requested: "memory_reach C H host v s m \<Longrightarrow> host_alloc_law host A \<Longrightarrow>
    memory_request C (hvf_mapper H) A req pins (v, s, m) = (r, v', s', m') \<Longrightarrow>
    \<nexists>a b. r = Err (MemoryError.RollbackFailed a b) \<Longrightarrow> memory_reach C H host v' s' m'"

lemma memory_reach_ok: "memory_reach C H host v s m \<Longrightarrow> memory_ok host v s"
proof (induction rule: memory_reach.induct)
  case (created region_mib block_mib v a v' h m)
  with virtio_mem_new_inv attach_at_inv have "vm_inv v' \<and> blocks v' = []" by blast
  then show ?case by (simp add: memory_ok_def mappings_inv_def bt_values_def)
next
  case (targeted v s m target r c)
  with set_requested_inv show ?case by (auto simp: memory_ok_def)
next
  case (synced v s m ready)
  have "blocks (snd (sync_target ready v)) = blocks v" by (simp add: sync_target_def Let_def)
  with synced sync_target_inv show ?case by (simp add: memory_ok_def)
next
  case (started v s m)
  then show ?case using lifecycle_inv [of v "driver_ready (control v)" Running] by (simp add: memory_ok_def memory_start_def)
next
  case (reset v s m r v')
  then show ?case
    using lifecycle_inv [of v False "lifecycle (control v)"] by (auto simp: memory_ok_def memory_reset_def modify_def)
next
  case (mapped v s m x r s')
  then have inv: "mappings_inv host (fst s)" and map: "hvf_map H x (fst s, snd s) = (r, fst s', snd s')"
    by (simp_all add: memory_ok_def)
  from hvf_map_cases [OF map inv mapped.hyps(2)] insert_mapping [OF inv mapped.hyps(2)] mapped.IH
  show ?case by (auto simp: memory_ok_def hvf_mapped_def)
next
  case (requested v s m A req pins r v' s' m')
  from request_on_hvf [OF requested.IH requested.hyps(2,3)] requested.hyps(4) show ?case
    by (auto simp: memory_ok_def hvf.in_step_def)
qed


text \<open>Stopping the device attempts to unmap every plugged block, also after a failure. If it succeeds
  none of them is mapped any more and nothing else was touched; the first error is reported otherwise,
  and the device refuses further targets either way.\<close>

theorem memory_stop_unmaps:
  assumes "memory_ok host v s" and "memory_stop (hvf_mapper H) (v, s) = (r, v', s')"
  shows "r \<noteq> Panic \<and> mappings_inv host (fst s') \<and> hvf_mapped s - set (bt_values (blocks v)) \<subseteq> hvf_mapped s' \<and>
    hvf_mapped s' \<subseteq> hvf_mapped s \<and> (r = Ok () \<longrightarrow> hvf_mapped s' = hvf_mapped s - set (bt_values (blocks v))) \<and>
    set_requested_mib target (control v') = (Err MemoryError.Stopped, control v')"
proof -
  have inv: "mappings_inv host (fst s)" "set (bt_values (blocks v)) \<subseteq> hvf_mapped s"
    using assms(1) by (simp_all add: memory_ok_def)
  have un: "unmap_all (hvf_mapper H) (bt_values (blocks v)) (Ok ()) s = (r, s')"
    and v': "lifecycle (control v') = Stopped"
    using assms(2) by (auto simp: memory_stop_def split: prod.splits)
  have "\<forall>x \<in> set (bt_values (blocks v)). region_ok host x" using inv hvf.mapped_valid by blast
  from hvf.unmap_all_spec [OF un inv(1) this] v' show ?thesis
    by (auto simp: set_requested_mib_def prog_defs)
qed

end
