(* ===== verification/Vmnet.thy ===== *)
theory Vmnet
  imports Net Boot
begin

text \<open>
  The macOS network backend (\<open>src/src/net/macos.rs\<close>) over Apple's vmnet framework. The framework is
  the record \<open>vmnet_api\<close> of parameters over its own state \<open>'f\<close> and guest memory \<open>'m\<close>; a read
  returns the bytes it stored at the start of the buffer.
  Lemmas: addresses in text form are parsed back to the bytes they were printed from; received sizes
  are bounded; a closed interface is never used again. The backend satisfies the contract
  \<open>net_backend\<close> that the network device relies on.
\<close>

section \<open>The framework\<close>

text \<open>The parameter dictionary of a started interface: a string is absent, not UTF-8, or given.\<close>

record xpc =
  xpc_string :: "string \<Rightarrow> (ext_error + string) option"
  xpc_u64 :: "string \<Rightarrow> u64"

record ('f, 'm) vmnet_api =
  vf_describe :: "'f \<Rightarrow> u64 \<times> 'f"
  vf_start_interface :: "u64 \<Rightarrow> u16 \<Rightarrow> 'f \<Rightarrow> (u64 \<times> (RecvTimeoutError + u32 \<times> xpc option)) \<times> 'f"
  vf_stop_interface :: "u64 \<Rightarrow> 'f \<Rightarrow> (u32 \<times> (RecvTimeoutError + u32)) \<times> 'f"
  vf_read :: "u64 \<Rightarrow> frame \<Rightarrow> usize \<Rightarrow> 'f \<times> 'm \<Rightarrow> (u32 \<times> int \<times> usize \<times> bytes) \<times> 'f \<times> 'm"
  vf_write :: "u64 \<Rightarrow> frame \<Rightarrow> usize \<Rightarrow> 'f \<times> 'm \<Rightarrow> (u32 \<times> int) \<times> 'f \<times> 'm"

definition VMNET_SUCCESS :: u32 where
  "VMNET_SUCCESS = 1000"

definition BUFFER_EXHAUSTED :: u32 where
  "BUFFER_EXHAUSTED = 1007"

definition vmnet_check :: "u32 \<Rightarrow> string \<Rightarrow> (unit, NetError) result" where
  "vmnet_check status op =
     (if status = VMNET_SUCCESS then Ok ()
      else if status = 1005 \<or> status = 1010 then Err (NetError.PermissionDenied op status)
      else Err (NetError.Vmnet op status))"

section \<open>Addresses\<close>

text \<open>\<open>str::split\<close>.\<close>

fun split_on :: "char \<Rightarrow> string \<Rightarrow> string list" where
  "split_on c [] = [[]]"
| "split_on c (x # xs) =
     (if x = c then [] # split_on c xs
      else case split_on c xs of [] \<Rightarrow> [[x]] | p # ps \<Rightarrow> (x # p) # ps)"

text \<open>\<open>char::to_digit(16)\<close>.\<close>

definition hex_value :: "char \<Rightarrow> nat option" where
  "hex_value c =
     (let n = of_char c :: nat in
      if 48 \<le> n \<and> n \<le> 57 then Some (n - 48)
      else if 97 \<le> n \<and> n \<le> 102 then Some (n - 87)
      else if 65 \<le> n \<and> n \<le> 70 then Some (n - 55)
      else None)"

fun hex_fold :: "string \<Rightarrow> nat \<Rightarrow> ext_error + nat" where
  "hex_fold [] acc = (if acc < 256 then Inr acc else Inl ''number too large to fit in target type'')"
| "hex_fold (c # cs) acc =
     (case hex_value c of None \<Rightarrow> Inl ''invalid digit found in string'' | Some d \<Rightarrow> hex_fold cs (acc * 16 + d))"

text \<open>\<open>u8::from_str_radix(_, 16)\<close>, which also takes a leading plus sign.\<close>

definition u8_from_hex :: "string \<Rightarrow> ext_error + u8" where
  "u8_from_hex s =
     (if s = [] then Inl ''cannot parse integer from empty string''
      else map_sum (\<lambda>e. e) word_of_nat
        (if hd s = CHR ''+'' \<and> 1 < length s then hex_fold (tl s) 0 else hex_fold s 0))"

fun parse_parts :: "string list \<Rightarrow> (bytes, NetError) result" where
  "parse_parts [] = Ok []"
| "parse_parts (p # ps) =
     (if length p \<noteq> 2 then Err NetError.InvalidVmnetMacAddress
      else and_then (of_sum NetError.MacParse (u8_from_hex p)) (\<lambda>b. and_then (parse_parts ps) (\<lambda>bs. Ok (b # bs))))"

definition parse_mac :: "string \<Rightarrow> (bytes, NetError) result" where
  "parse_mac s =
     (let parts = split_on (CHR '':'') s in
      if length parts \<noteq> 6 then Err NetError.InvalidVmnetMacAddress else parse_parts parts)"

section \<open>The interface\<close>

record SharedIpv4 =
  gateway :: "string option"
  pool_end :: "string option"
  subnet_mask :: "string option"

definition no_ipv4 :: SharedIpv4 where
  "no_ipv4 = \<lparr>gateway = None, pool_end = None, subnet_mask = None\<rparr>"

definition VMNET_MTU :: u16 where
  "VMNET_MTU = 1500"

definition xpc_get :: "xpc \<Rightarrow> string \<Rightarrow> (string option, NetError) result" where
  "xpc_get dict key = (case xpc_string dict key of None \<Rightarrow> Ok None
     | Some (Inl e) \<Rightarrow> Err (NetError.Utf8 e) | Some (Inr s) \<Rightarrow> Ok (Some s))"

definition parameters :: "xpc option \<Rightarrow> (bytes \<times> usize \<times> SharedIpv4, NetError) result" where
  "parameters d = (case d of None \<Rightarrow> Err NetError.MissingVmnetInterfaceParameters
   | Some dict \<Rightarrow>
     and_then (xpc_get dict ''vmnet_mac_address'') (\<lambda>text.
     and_then (ok_or text NetError.MissingMac) (\<lambda>text.
     and_then (parse_mac text) (\<lambda>mac.
     and_then (if unat (xpc_u64 dict ''vmnet_mtu'') < 2 ^ 16 then Ok (ucast (xpc_u64 dict ''vmnet_mtu''))
               else Err (NetError.Integer ''out of range integral type conversion attempted'')) (\<lambda>mtu.
     let max_frame = unat (xpc_u64 dict ''vmnet_max_packet_size'') in
     if mtu \<noteq> VMNET_MTU then Err (NetError.UnexpectedMtu mtu)
     else if \<not> (mtu \<ge> 68 \<and> unat mtu + 14 \<le> max_frame \<and> max_frame \<le> 65535 + 18)
     then Err NetError.InvalidVmnetFrameCapacity
     else
     and_then (xpc_get dict ''vmnet_start_address'') (\<lambda>gw.
     and_then (xpc_get dict ''vmnet_end_address'') (\<lambda>pe.
     and_then (xpc_get dict ''vmnet_subnet_mask'') (\<lambda>sm.
     Ok (mac, max_frame, \<lparr>gateway = gw, pool_end = pe, subnet_mask = sm\<rparr>)))))))))"

record vmnet =
  vn_interface :: "u64 option"
  vn_mac :: bytes
  vn_max_frame :: usize
  vn_ipv4 :: SharedIpv4

definition vmnet_close :: "('f, 'm) vmnet_api \<Rightarrow> (vmnet \<times> 'f, unit, NetError) prog" where
  "vmnet_close V = (\<lambda>(v, f).
     case vn_interface v of
       None \<Rightarrow> (Ok (), v, f)
     | Some i \<Rightarrow>
         (case vf_stop_interface V i f of ((status, reply), f') \<Rightarrow>
           (and_then (vmnet_check status ''stop vmnet'') (\<lambda>_.
            and_then (case reply of Inl e \<Rightarrow> Err (NetError.Wait ''waiting for vmnet stop'' e) | Inr s \<Rightarrow> Ok s) (\<lambda>s.
            vmnet_check s ''stop vmnet completion'')), v\<lparr>vn_interface := None\<rparr>, f')))"

text \<open>\<open>Drop\<close>: an interface that is still there is stopped; an error is only printed.\<close>

definition vmnet_drop :: "('f, 'm) vmnet_api \<Rightarrow> vmnet \<times> 'f \<Rightarrow> 'f" where
  "vmnet_drop V n = snd (snd (vmnet_close V n))"

text \<open>Starting: once an interface exists, a later failure drops it, which closes it.\<close>

definition vmnet_shared :: "('f, 'm) vmnet_api \<Rightarrow> ('f, vmnet, NetError) prog" where
  "vmnet_shared V = (\<lambda>f.
     case vf_describe V f of (desc, f) \<Rightarrow>
     if desc = 0 then (Err NetError.CreateVmnetDescription, f)
     else case vf_start_interface V 1001 VMNET_MTU f of ((i, reply), f) \<Rightarrow>
     if i = 0 then (Err NetError.MissingInterface, f)
     else
     let backend = \<lparr>vn_interface = Some i, vn_mac = replicate 6 0, vn_max_frame = 0, vn_ipv4 = no_ipv4\<rparr>;
         params = and_then (case reply of Inl e \<Rightarrow> Err (NetError.Wait ''waiting for vmnet start'' e) | Inr x \<Rightarrow> Ok x) (\<lambda>(status, dict).
           map_err NetError.Start (and_then (vmnet_check status ''start vmnet'') (\<lambda>_. parameters dict)))
     in case params of
          Ok (mac, max_frame, ipv4) \<Rightarrow> (Ok (backend\<lparr>vn_mac := mac, vn_max_frame := max_frame, vn_ipv4 := ipv4\<rparr>), f)
        | Err e \<Rightarrow> (Err e, vmnet_drop V (backend, f))
        | Panic \<Rightarrow> (Panic, vmnet_drop V (backend, f)))"

text \<open>The parts of a frame the framework is given: empty slices are left out.\<close>

fun iovecs :: "frame \<Rightarrow> frame" where
  "iovecs (Guest ss) = Guest (filter (\<lambda>s. vs_len s \<noteq> 0) ss)"
| "iovecs (Host bs) = Host bs"

fun iov_count :: "frame \<Rightarrow> nat" where
  "iov_count (Guest ss) = length ss"
| "iov_count (Host bs) = (if bs = [] then 0 else 1)"

definition iov_check :: "frame \<Rightarrow> (unit, NetError) result" where
  "iov_check f = (if 2 ^ 32 \<le> iov_count (iovecs f)
     then Err (NetError.Integer ''out of range integral type conversion attempted'') else Ok ())"

definition vmnet_send :: "('f, 'm) vmnet_api \<Rightarrow> frame \<Rightarrow> ((vmnet \<times> 'f) \<times> 'm, bool, NetError) prog" where
  "vmnet_send V fr = (\<lambda>((v, f), m).
     let len = frame_len fr in
     if \<not> (14 \<le> len \<and> len \<le> vn_max_frame v)
     then (Err (NetError.InvalidVmnetTxFrameSize len (vn_max_frame v)), (v, f), m)
     else case iov_check fr of
       Err e \<Rightarrow> (Err e, (v, f), m)
     | Panic \<Rightarrow> (Panic, (v, f), m)
     | Ok _ \<Rightarrow>
       (case vn_interface v of
          None \<Rightarrow> (Err NetError.Closed, (v, f), m)
        | Some i \<Rightarrow>
            (case vf_write V i (iovecs fr) len (f, m) of ((status, cnt), f', m') \<Rightarrow>
              (if status = BUFFER_EXHAUSTED then Ok False
               else and_then (vmnet_check status ''vmnet write'') (\<lambda>_.
                 if \<not> (0 \<le> cnt \<and> cnt \<le> 1) then Err (NetError.InvalidVmnetTxCount cnt)
                 else Ok (cnt = 1)), (v, f'), m'))))"

text \<open>What is in a host buffer after the framework stored \<open>stored\<close> at its start.\<close>

fun after_read :: "frame \<Rightarrow> bytes \<Rightarrow> bytes" where
  "after_read (Host bs) stored = put_bytes 0 (take (length bs) stored) bs"
| "after_read (Guest ss) stored = []"

definition vmnet_recv :: "('f, 'm) vmnet_api \<Rightarrow> frame \<Rightarrow> ((vmnet \<times> 'f) \<times> 'm, usize option \<times> bytes, NetError) prog" where
  "vmnet_recv V fr = (\<lambda>((v, f), m).
     let len = frame_len fr in
     if len < vn_max_frame v then (Err (NetError.VmnetRxBufferTooSmall len (vn_max_frame v)), (v, f), m)
     else case iov_check fr of
       Err e \<Rightarrow> (Err e, (v, f), m)
     | Panic \<Rightarrow> (Panic, (v, f), m)
     | Ok _ \<Rightarrow>
       (case vn_interface v of
          None \<Rightarrow> (Err NetError.Closed, (v, f), m)
        | Some i \<Rightarrow>
            (case vf_read V i (iovecs fr) len (f, m) of ((status, cnt, packet_size, stored), f', m') \<Rightarrow>
              (and_then (vmnet_check status ''vmnet read'') (\<lambda>_.
                 if \<not> (0 \<le> cnt \<and> cnt \<le> 1) then Err (NetError.InvalidVmnetRxCount cnt)
                 else if cnt = 0 then Ok (None, after_read fr stored)
                 else if \<not> (14 \<le> packet_size \<and> packet_size \<le> vn_max_frame v)
                 then Err (NetError.InvalidVmnetRxFrameSize packet_size (vn_max_frame v))
                 else Ok (Some packet_size, after_read fr stored)), (v, f'), m'))))"

definition vmnet_ops :: "('f, 'm) vmnet_api \<Rightarrow> (vmnet \<times> 'f, 'm) net_ops" where
  "vmnet_ops V = \<lparr>nd_mtu = VMNET_MTU, nd_mac_address = (\<lambda>(v, f). vn_mac v),
     nd_max_frame_len = (\<lambda>(v, f). vn_max_frame v), nd_send = vmnet_send V, nd_recv = vmnet_recv V\<rparr>"

section \<open>The backend keeps the contract of the device\<close>

lemma vmnet_check_not_Panic [simp]: "vmnet_check status op \<noteq> Panic"
  by (simp add: vmnet_check_def)

lemma length_after_read [simp]: "length (after_read (Host bs) stored) = length bs"
  by simp

lemma vmnet_send_safe:
  "hoare (\<lambda>((v, f), m). vn_max_frame v = K) (vmnet_send V fr) (\<lambda>_ ((v, f), m). vn_max_frame v = K) (\<lambda>_ ((v, f), m). vn_max_frame v = K)"
  unfolding hoare_def vmnet_send_def
  by (auto simp: Let_def iov_check_def and_then_Panic_iff split: prod.splits result.splits option.splits if_splits)

lemma vmnet_recv_safe:
  "hoare (\<lambda>((v, f), m). vn_max_frame v = K) (vmnet_recv V fr)
    (\<lambda>r ((v, f), m). vn_max_frame v = K \<and> (\<forall>b. fr = Host b \<longrightarrow> length (snd r) = length b)) (\<lambda>_ ((v, f), m). vn_max_frame v = K)"
  unfolding hoare_def vmnet_recv_def
  by (auto simp: Let_def iov_check_def and_then_Panic_iff and_then_Ok_iff split: prod.splits result.splits option.splits if_splits)

interpretation vmnet: net_backend "vmnet_ops V" "\<lambda>(v, f). vn_max_frame v = K" K for V :: "('f, 'm) vmnet_api" and K
proof
  fix fr
  show "hoare (\<lambda>(n, m). (\<lambda>(v, f). vn_max_frame v = K) n) (nd_send (vmnet_ops V) fr)
      (\<lambda>_ (n, m). (\<lambda>(v, f). vn_max_frame v = K) n) (\<lambda>_ (n, m). (\<lambda>(v, f). vn_max_frame v = K) n)"
    if "14 \<le> frame_len fr" "frame_len fr \<le> K"
    using vmnet_send_safe [of K V fr] by (simp add: vmnet_ops_def case_prod_unfold)
  show "hoare (\<lambda>(n, m). (\<lambda>(v, f). vn_max_frame v = K) n) (nd_recv (vmnet_ops V) fr)
      (\<lambda>r (n, m). (\<lambda>(v, f). vn_max_frame v = K) n \<and> (\<forall>b. fr = Host b \<longrightarrow> length (snd r) = length b))
      (\<lambda>_ (n, m). (\<lambda>(v, f). vn_max_frame v = K) n)"
    if "frame_len fr = K"
    using vmnet_recv_safe [of K V fr] by (simp add: vmnet_ops_def case_prod_unfold)
qed

section \<open>Printing and parsing addresses\<close>

text \<open>The usual text form of an address: two lower-case hexadecimal digits per byte, separated by colons.\<close>

definition two_digits :: "u8 \<Rightarrow> string" where
  "two_digits b = [hex_digit (unat b div 16), hex_digit (unat b)]"

fun mac_text :: "bytes \<Rightarrow> string" where
  "mac_text [] = []"
| "mac_text [b] = two_digits b"
| "mac_text (b # bs) = two_digits b @ CHR '':'' # mac_text bs"

lemma split_on_none: "c \<notin> set p \<Longrightarrow> split_on c p = [p]"
  by (induction p) auto

lemma split_on_sep: "c \<notin> set p \<Longrightarrow> split_on c (p @ c # rest) = p # split_on c rest"
  by (induction p) auto

lemma hex_digit_facts:
  "hex_value (hex_digit n) = Some (n mod 16) \<and> hex_digit n \<noteq> CHR '':'' \<and> hex_digit n \<noteq> CHR ''+''"
proof -
  have all: "\<forall>k \<in> set [0 ..< 16]. hex_value (''0123456789abcdef'' ! k) = Some k \<and>
      ''0123456789abcdef'' ! k \<noteq> CHR '':'' \<and> ''0123456789abcdef'' ! k \<noteq> CHR ''+''"
    by code_simp
  have "n mod 16 \<in> set [0 ..< 16]" by simp
  with all show ?thesis unfolding hex_digit_def by blast
qed

lemma u8_from_two_digits: "u8_from_hex (two_digits b) = Inr b"
proof -
  have b: "unat b < 256" using unat_bound [of b] by simp
  then have "unat b div 16 mod 16 * 16 + unat b mod 16 = unat b" by (simp add: mod_less div_mult_mod_eq)
  with b show ?thesis
    using hex_digit_facts [of "unat b div 16"] hex_digit_facts [of "unat b"]
    by (simp add: u8_from_hex_def two_digits_def)
qed

lemma split_mac_text: "bs \<noteq> [] \<Longrightarrow> split_on (CHR '':'') (mac_text bs) = map two_digits bs"
proof (induction bs rule: mac_text.induct)
  case (2 b)
  have "CHR '':'' \<notin> set (two_digits b)"
    using hex_digit_facts [of "unat b div 16"] hex_digit_facts [of "unat b"] by (auto simp: two_digits_def)
  then show ?case by (simp add: split_on_none)
next
  case (3 b c bs)
  have "CHR '':'' \<notin> set (two_digits b)"
    using hex_digit_facts [of "unat b div 16"] hex_digit_facts [of "unat b"] by (auto simp: two_digits_def)
  with 3 show ?case by (simp add: split_on_sep)
qed simp

lemma parse_parts_two_digits: "parse_parts (map two_digits bs) = Ok bs"
  by (induction bs) (simp_all add: u8_from_two_digits, simp add: two_digits_def)

section \<open>Properties\<close>

text \<open>Every six-byte address is parsed back from its text form.\<close>

theorem parse_mac_roundtrip:
  assumes "length mac = 6"
  shows "parse_mac (mac_text mac) = Ok mac"
proof -
  have "mac \<noteq> []" using assms by auto
  with assms show ?thesis by (simp add: parse_mac_def split_mac_text parse_parts_two_digits Let_def)
qed

text \<open>A received frame has at least 14 bytes, at most the interface's maximum, and fits the buffer it
  was stored in, whatever the framework reports.\<close>

lemma vmnet_recv_bounds:
  assumes "vmnet_recv V buf ((v, f), m) = (Ok (Some n, bs), s')"
  shows "14 \<le> n \<and> n \<le> vn_max_frame v \<and> n \<le> frame_len buf"
  using assms
  by (auto simp: vmnet_recv_def Let_def and_then_Ok_iff split: if_splits result.splits option.splits prod.splits)

text \<open>Closing gives the interface up whether or not stopping it succeeds: closing again succeeds without
  calling the framework, and a send or receive of any size reaches neither the framework nor guest memory.\<close>

lemma vmnet_close_final:
  assumes "vmnet_close V (v, f) = (r, v', f')"
  shows "vmnet_close W (v', g) = (Ok (), v', g) \<and>
    (\<exists>e. vmnet_send W fr ((v', g), m) = (Err e, (v', g), m)) \<and>
    (\<exists>e. vmnet_recv W fr ((v', g), m) = (Err e, (v', g), m))"
proof -
  have "vn_interface v' = None"
    using assms by (auto simp: vmnet_close_def split: option.splits prod.splits)
  then show ?thesis
    by (auto simp: vmnet_close_def vmnet_send_def vmnet_recv_def Let_def iov_check_def split: result.splits)
qed

end
