(* ===== verification/Devices.thy ===== *)
theory Devices
  imports Block Net VirtioMem
begin

text \<open>
  The enum \<open>Device\<close> of \<open>src/src/devices/mod.rs\<close>: three device types behind one transport, each
  operation dispatched on the variant. It keeps the contract \<open>virtio_device\<close> because its variants do,
  so every property of the transport holds for a machine's devices.
\<close>

datatype ('s, 'n) Device = DevBlock "'s block" | DevNet "'n net" | DevMem virtio_mem

text \<open>Apply the variant's own operation; a device operation also threads queues and guest memory.\<close>

definition dispatch_op ::
  "('s block \<times> 'x \<Rightarrow> 'r \<times> 's block \<times> 'x) \<Rightarrow> ('n net \<times> 'x \<Rightarrow> 'r \<times> 'n net \<times> 'x) \<Rightarrow> (virtio_mem \<times> 'x \<Rightarrow> 'r \<times> virtio_mem \<times> 'x) \<Rightarrow>
    ('s, 'n) Device \<times> 'x \<Rightarrow> 'r \<times> ('s, 'n) Device \<times> 'x" where
  "dispatch_op fb fn fm = (\<lambda>(d, x). case d of
     DevBlock b \<Rightarrow> (case fb (b, x) of (r, b', x') \<Rightarrow> (r, DevBlock b', x'))
   | DevNet n \<Rightarrow> (case fn (n, x) of (r, n', x') \<Rightarrow> (r, DevNet n', x'))
   | DevMem v \<Rightarrow> (case fm (v, x) of (r, v', x') \<Rightarrow> (r, DevMem v', x')))"

definition dispatch_self ::
  "('s block \<Rightarrow> 'r \<times> 's block) \<Rightarrow> ('n net \<Rightarrow> 'r \<times> 'n net) \<Rightarrow> (virtio_mem \<Rightarrow> 'r \<times> virtio_mem) \<Rightarrow> ('s, 'n) Device \<Rightarrow> 'r \<times> ('s, 'n) Device" where
  "dispatch_self fb fn fm d = (case d of
     DevBlock b \<Rightarrow> (case fb b of (r, b') \<Rightarrow> (r, DevBlock b'))
   | DevNet n \<Rightarrow> (case fn n of (r, n') \<Rightarrow> (r, DevNet n'))
   | DevMem v \<Rightarrow> (case fm v of (r, v') \<Rightarrow> (r, DevMem v')))"

definition device_required_features :: "('s, 'n) Device \<Rightarrow> u64" where
  "device_required_features d = (case d of DevMem v \<Rightarrow> memory_features | _ \<Rightarrow> 0)"

definition device_generation :: "('s, 'n) Device \<Rightarrow> u32" where
  "device_generation d = (case d of DevMem v \<Rightarrow> generation v | _ \<Rightarrow> 0)"

definition device_device_id :: "('s, 'n) Device \<Rightarrow> u32" where
  "device_device_id d = (case d of DevBlock b \<Rightarrow> block_device_id | DevNet n \<Rightarrow> net_device_id | DevMem v \<Rightarrow> memory_device_id)"

definition device_features :: "('s, 'm) block_ops \<Rightarrow> ('s, 'n) Device \<Rightarrow> u64" where
  "device_features B d = (case d of DevBlock b \<Rightarrow> block_features B b | DevNet n \<Rightarrow> net_features | DevMem v \<Rightarrow> memory_features)"

definition device_queue_count :: "('s, 'n) Device \<Rightarrow> usize" where
  "device_queue_count d = (case d of DevBlock b \<Rightarrow> 1 | DevNet n \<Rightarrow> 2 | DevMem v \<Rightarrow> 1)"

definition device_read_config :: "('s, 'm) block_ops \<Rightarrow> ('s, 'n) Device \<Rightarrow> usize \<Rightarrow> usize \<Rightarrow> bytes" where
  "device_read_config B d = (case d of DevBlock b \<Rightarrow> block_read_config B b | DevNet n \<Rightarrow> read_config (nconfig n)
     | DevMem v \<Rightarrow> memory_read_config v)"

definition device_notify ::
  "('q, 'm) crates \<Rightarrow> ('s, 'm) block_ops \<Rightarrow> ('n, 'm) net_ops \<Rightarrow> usize \<Rightarrow> (('s, 'n) Device \<times> 'q queues \<times> 'm, unit, DeviceError) prog" where
  "device_notify C B N queue = dispatch_op (block_notify C B queue) (net_notify C N queue) (vd_notify memory_ops queue)"

definition device_poll ::
  "('q, 'm) crates \<Rightarrow> ('s, 'm) block_ops \<Rightarrow> ('n, 'm) net_ops \<Rightarrow> (('s, 'n) Device \<times> 'q queues \<times> 'm, unit, DeviceError) prog" where
  "device_poll C B N = dispatch_op (vd_poll (block_ops_of C B)) (net_poll C N) (vd_poll memory_ops)"

definition device_reset :: "('s, 'm) block_ops \<Rightarrow> (('s, 'n) Device, unit, DeviceError) prog" where
  "device_reset B = dispatch_self (block_flush B) net_reset memory_reset"

definition device_flush :: "('s, 'm) block_ops \<Rightarrow> (('s, 'n) Device, unit, DeviceError) prog" where
  "device_flush B = dispatch_self (block_flush B) (ret ()) (ret ())"

definition device_ops ::
  "('q, 'm) crates \<Rightarrow> ('s, 'm) block_ops \<Rightarrow> ('n, 'm) net_ops \<Rightarrow> (('s, 'n) Device, 'q, 'm) virtio_ops" where
  "device_ops C B N = \<lparr>vd_required_features = device_required_features, vd_generation = device_generation,
     vd_device_id = device_device_id, vd_features = device_features B, vd_queue_count = device_queue_count,
     vd_read_config = device_read_config B, vd_notify = device_notify C B N, vd_poll = device_poll C B N,
     vd_reset = device_reset B, vd_flush = device_flush B\<rparr>"

section \<open>The contract of the transport\<close>

text \<open>What the transport identifies a device by is what it identifies the variant by.\<close>

lemma identity_device:
  "identity (device_ops C B N) (DevBlock b) = identity (block_ops_of C B) b"
  "identity (device_ops C B N) (DevNet n) = identity (net_ops_of C N) n"
  by (simp_all add: identity_def device_ops_def block_ops_of_def net_ops_of_def device_required_features_def
      device_device_id_def device_features_def device_queue_count_def)

lemma identity_mem: "identity (device_ops C B N) (DevMem v) = (memory_features, memory_device_id, memory_features, 1)"
  by (simp add: identity_def device_ops_def device_required_features_def device_device_id_def device_features_def
      device_queue_count_def)

lemma dispatch_op_frame:
  assumes "keeps (op_frame (block_ops_of C B)) fb" and "keeps (op_frame (net_ops_of C N)) fn"
    and "keeps (op_frame memory_ops) fm"
  shows "keeps (op_frame (device_ops C B N)) (dispatch_op fb fn fm)"
proof -
  have "op_frame (device_ops C B N) (d, qs, m) (snd (dispatch_op fb fn fm (d, qs, m)))" for d qs m
  proof (cases d)
    case (DevBlock b)
    moreover have "op_frame (block_ops_of C B) (b, qs, m) (snd (fb (b, qs, m)))" using assms(1) by (simp add: keeps_def)
    ultimately show ?thesis by (auto simp: dispatch_op_def op_frame_def identity_device split: prod.splits)
  next
    case (DevNet n)
    moreover have "op_frame (net_ops_of C N) (n, qs, m) (snd (fn (n, qs, m)))" using assms(2) by (simp add: keeps_def)
    ultimately show ?thesis by (auto simp: dispatch_op_def op_frame_def identity_device split: prod.splits)
  next
    case (DevMem v)
    moreover have "op_frame memory_ops (v, qs, m) (snd (fm (v, qs, m)))" using assms(3) by (simp add: keeps_def)
    ultimately show ?thesis by (auto simp: dispatch_op_def op_frame_def identity_mem split: prod.splits)
  qed
  then show ?thesis by (auto simp: keeps_def)
qed

lemma dispatch_self_identity:
  assumes "keeps (\<lambda>d d'. identity (block_ops_of C B) d' = identity (block_ops_of C B) d) fb"
    and "keeps (\<lambda>d d'. identity (net_ops_of C N) d' = identity (net_ops_of C N) d) fn"
  shows "keeps (\<lambda>d d'. identity (device_ops C B N) d' = identity (device_ops C B N) d) (dispatch_self fb fn fm)"
proof -
  have "identity (device_ops C B N) (snd (dispatch_self fb fn fm d)) = identity (device_ops C B N) d" for d
  proof (cases d)
    case (DevBlock b)
    obtain r b' where "fb b = (r, b')" by fastforce
    with DevBlock keepsD [OF assms(1) this] show ?thesis by (simp add: dispatch_self_def identity_device)
  next
    case (DevNet n)
    obtain r n' where "fn n = (r, n')" by fastforce
    with DevNet keepsD [OF assms(2) this] show ?thesis by (simp add: dispatch_self_def identity_device)
  next
    case (DevMem v)
    then show ?thesis by (simp add: dispatch_self_def identity_mem split: prod.splits)
  qed
  then show ?thesis by (simp add: keeps_def)
qed

sublocale block_storage \<subseteq> dev: virtio_device "device_ops C B N" for C N
proof
  show "keeps (op_frame (device_ops C B N)) (vd_notify (device_ops C B N) i)" for i
    using dispatch_op_frame [OF block_notify_frame [of C i] netdev.notify_frame [of C N i] memdev.notify_frame [of i]]
    by (simp add: device_ops_def device_notify_def net_ops_of_def)
  show "keeps (op_frame (device_ops C B N)) (vd_poll (device_ops C B N))"
    using dispatch_op_frame [OF blk.poll_frame [of C] netdev.poll_frame [of C N] memdev.poll_frame]
    by (simp add: device_ops_def device_poll_def net_ops_of_def)
  show "keeps (\<lambda>d d'. identity (device_ops C B N) d' = identity (device_ops C B N) d) (vd_reset (device_ops C B N))"
    using dispatch_self_identity [OF block_flush_identity [of C] netdev.reset_frame [of C N]]
    by (simp add: device_ops_def device_reset_def net_ops_of_def memory_ops_def)
  show "keeps (\<lambda>d d'. identity (device_ops C B N) d' = identity (device_ops C B N) d) (vd_flush (device_ops C B N))"
    using dispatch_self_identity [OF block_flush_identity [of C] netdev.flush_frame [of C N]]
    by (simp add: device_ops_def device_flush_def net_ops_of_def memory_ops_def)
  show "vd_required_features (device_ops C B N) d AND NOT (vd_features (device_ops C B N) d) = 0" for d
    by (cases d) (simp_all add: device_ops_def device_required_features_def device_features_def memory_ops_def)
qed

context block_storage
begin

lemma run_inv:
  "mmio_inv (device_ops C B N) t \<Longrightarrow> mmio_inv (device_ops C B N) (fst (mmio_run C (device_ops C B N) evs (t, m)))"
proof (induction evs arbitrary: t m)
  case (Cons ev evs)
  obtain r t1 m1 where s: "mmio_step C (device_ops C B N) ev (t, m) = (r, t1, m1)" by (metis prod_cases3)
  have "mmio_inv (device_ops C B N) t1"
  proof (cases ev)
    case (Write off v)
    with s have "mmio_write C (device_ops C B N) off v (t, m) = (r, t1, m1)" by simp
    with Cons.prems show ?thesis by (rule dev.write_inv)
  next
    case Poll
    with s have "mmio_poll (device_ops C B N) (t, m) = (r, t1, m1)" by simp
    with Cons.prems show ?thesis by (rule dev.poll_inv)
  qed
  with Cons.IH s show ?case by simp
qed simp

end

text \<open>C19. Whatever a guest writes to a device's registers and whenever the device is polled: the queues
  stay as many as the device has, confirmed features are a subset of the offered ones that includes
  VERSION_1 and everything the device requires, and the driver is ready only after it was
  acknowledged and its features were confirmed. In particular a virtio-mem device never operates without its
  required feature.\<close>

theorem transport_invariant:
  assumes "mmio_new C (device_ops C (disk_ops I) N) d = Ok t"
    and "mmio_run C (device_ops C (disk_ops I) N) evs (with_strict b t, m) = (t', m')"
  shows "length (rings (queues t')) = device_queue_count (device t') \<and>
    (mstatus t' AND FEATURES_OK \<noteq> 0 \<longrightarrow> acceptable (device_ops C (disk_ops I) N) t') \<and>
    (mstatus t' AND DRIVER_OK \<noteq> 0 \<longrightarrow> mstatus t' AND 0xb = 0xb) \<and>
    (active t' \<longrightarrow> device_required_features (device t') AND NOT (negotiated (queues t')) = 0)"
proof -
  have "mmio_inv (device_ops C (disk_ops I) N) (with_strict b t)" using mmio_inv_new [OF assms(1)] by simp
  from disk.run_inv [OF this, of evs m] assms(2) have inv: "mmio_inv (device_ops C (disk_ops I) N) t'" by simp
  have "vd_queue_count (device_ops C (disk_ops I) N) = device_queue_count"
    "vd_required_features (device_ops C (disk_ops I) N) = device_required_features" by (simp_all add: device_ops_def)
  with inv disk.dev.active_negotiated [OF inv] show ?thesis by (simp add: mmio_inv_def)
qed

end
