(* ===== verification/Control.thy ===== *)
theory Control
  imports VirtioMem "HOL-Library.Multiset"
begin

text \<open>
  Control of a VM that another thread owns (\<open>src/src/control.rs\<close>). Every method locks the shared state,
  so a method is one step on it; the blocking methods \<open>submit\<close> and \<open>stop\<close> are split into the step that
  takes the lock and the condition they wait for. A reply channel is a ticket number, and what was sent on
  it is logged. An outcome is the chain of messages of its error, or nothing.
  Threads interleave arbitrarily (\<open>control_step\<close>); the owner follows the order of \<open>runtime::run\<close>.
  Lemmas: every accepted request is answered exactly once, and the lifecycle only moves forward.
\<close>

section \<open>The shared state\<close>

datatype VmLifecycle = VmCreated | VmStarting | VmRunning | VmPaused | VmStopping | VmStopped

datatype Operation = OpPause | OpResume

record request =
  operation :: Operation
  reply :: nat

text \<open>What arrives on a reply channel; it is disconnected when its sender is dropped unused.\<close>

datatype reply_result = Replied "string option" | DroppedUnused

type_synonym outcome = "string list option"

record vm_control =
  vm_lifecycle :: VmLifecycle
  final_error :: "string option"
  owner :: "nat option"
  requests :: "request list"
  cleanup_error :: "string option"
  vm_memory :: "MemoryStatus option"
  tickets :: nat
  replies :: "(nat \<times> reply_result) list"

definition STOPPING :: string where
  "STOPPING = ''VM is stopping''"

definition control_new :: "MemoryStatus option \<Rightarrow> vm_control" where
  "control_new mem = \<lparr>vm_lifecycle = VmCreated, final_error = None, owner = None, requests = [],
     cleanup_error = None, vm_memory = mem, tickets = 0, replies = []\<rparr>"

definition cleanup_outcome :: "string option \<Rightarrow> (unit, ControlError) result" where
  "cleanup_outcome e = (case e of Some m \<Rightarrow> Err (ControlError.CleanupFailed m) | None \<Rightarrow> Ok ())"

definition supports_memory :: "vm_control \<Rightarrow> bool" where
  "supports_memory s = (vm_memory s \<noteq> None)"

definition memory_status :: "vm_control \<Rightarrow> (MemoryStatus, ControlError) result" where
  "memory_status s = ok_or (vm_memory s) ControlError.MemoryNotConfigured"

definition control_set_requested :: "u64 \<Rightarrow> (vm_control, unit, ControlError) prog" where
  "control_set_requested target s =
     (case vm_memory s of
        None \<Rightarrow> (Err ControlError.MemoryNotConfigured, s)
      | Some mem \<Rightarrow> (case set_requested_mib target mem of
          (r, mem') \<Rightarrow> (map_err ControlError.Memory r, s\<lparr>vm_memory := Some mem'\<rparr>)))"

definition stop_memory :: "vm_control \<Rightarrow> vm_control" where
  "stop_memory s = s\<lparr>vm_memory := map_option (\<lambda>m. m\<lparr>lifecycle := Stopped, driver_ready := False\<rparr>) (vm_memory s)\<rparr>"

text \<open>The first half of \<open>submit\<close>: the request is rejected, or queued under a fresh ticket. The caller then
  waits for the ticket's reply.\<close>

definition submit :: "nat \<Rightarrow> Operation \<Rightarrow> (vm_control, nat, ControlError) prog" where
  "submit thread op s =
     (if owner s = Some thread then (Err ControlError.OwnerThread, s)
      else if vm_lifecycle s \<notin> {VmRunning, VmPaused} then (Err ControlError.NotRunning, s)
      else (Ok (tickets s),
            s\<lparr>requests := requests s @ [\<lparr>operation = op, reply = tickets s\<rparr>], tickets := tickets s + 1\<rparr>))"

definition submit_result :: "reply_result \<Rightarrow> (unit, ControlError) result" where
  "submit_result r = (case r of DroppedUnused \<Rightarrow> Err ControlError.Disconnected
     | Replied None \<Rightarrow> Ok () | Replied (Some m) \<Rightarrow> Err (ControlError.ReplyFailed m))"

definition cancel :: "vm_control \<Rightarrow> vm_control" where
  "cancel s = s\<lparr>replies := replies s @ map (\<lambda>r. (reply r, Replied (Some STOPPING))) (requests s), requests := []\<rparr>"

text \<open>The first half of \<open>stop\<close>; then it waits while \<open>stop_result\<close> is nothing.\<close>

definition stop :: "nat \<Rightarrow> (vm_control, unit, ControlError) prog" where
  "stop thread s =
     (if owner s = Some thread then (Err ControlError.OwnerThread, s)
      else (Ok (),
        cancel (if vm_lifecycle s = VmCreated then (stop_memory s)\<lparr>vm_lifecycle := VmStopped\<rparr>
                else if vm_lifecycle s \<noteq> VmStopped then s\<lparr>vm_lifecycle := VmStopping\<rparr> else s)))"

definition stop_result :: "vm_control \<Rightarrow> (unit, ControlError) result option" where
  "stop_result s = (if vm_lifecycle s \<noteq> VmStopped then None else Some (cleanup_outcome (cleanup_error s)))"

definition begin_run :: "nat \<Rightarrow> (vm_control, unit, ControlError) prog" where
  "begin_run thread s =
     (if vm_lifecycle s \<noteq> VmCreated then (Err ControlError.Cancelled, s)
      else (Ok (), s\<lparr>owner := Some thread, vm_lifecycle := VmStarting\<rparr>))"

definition stopping :: "vm_control \<Rightarrow> bool" where
  "stopping s = (vm_lifecycle s = VmStopping)"

definition running :: "vm_control \<Rightarrow> vm_control" where
  "running s = (if vm_lifecycle s = VmStarting then s\<lparr>vm_lifecycle := VmRunning\<rparr> else s)"

definition next_request :: "vm_control \<Rightarrow> request option \<times> vm_control" where
  "next_request s = (case requests s of [] \<Rightarrow> (None, s) | r # rs \<Rightarrow> (Some r, s\<lparr>requests := rs\<rparr>))"

definition complete_request :: "request \<Rightarrow> outcome \<Rightarrow> vm_control \<Rightarrow> vm_control" where
  "complete_request r outcome s =
     (let s = (if outcome = None \<and> vm_lifecycle s \<noteq> VmStopping
               then s\<lparr>vm_lifecycle := (case operation r of OpPause \<Rightarrow> VmPaused | OpResume \<Rightarrow> VmRunning)\<rparr> else s)
      in s\<lparr>replies := replies s @ [(reply r, Replied (map_option diagnostic outcome))]\<rparr>)"

definition reject_stopping :: "request \<Rightarrow> vm_control \<Rightarrow> vm_control" where
  "reject_stopping r s = cancel (s\<lparr>vm_lifecycle := VmStopping, requests := r # requests s\<rparr>)"

text \<open>\<open>wait\<close> returns once this holds.\<close>

definition wait_over :: "vm_control \<Rightarrow> bool" where
  "wait_over s = (\<not> (vm_lifecycle s = VmPaused \<and> requests s = []))"

definition cleaning :: "vm_control \<Rightarrow> vm_control" where
  "cleaning s = cancel (s\<lparr>vm_lifecycle := VmStopping\<rparr>)"

definition cleanup_result :: "outcome \<Rightarrow> vm_control \<Rightarrow> vm_control" where
  "cleanup_result outcome s = s\<lparr>cleanup_error := map_option diagnostic outcome\<rparr>"

definition finish :: "outcome \<Rightarrow> vm_control \<Rightarrow> vm_control" where
  "finish outcome s =
     cancel ((stop_memory s)\<lparr>vm_lifecycle := VmStopped, final_error := map_option diagnostic outcome, owner := None\<rparr>)"

definition dropped :: "bool \<Rightarrow> vm_control \<Rightarrow> vm_control" where
  "dropped panicking s =
     (if vm_lifecycle s \<noteq> VmStopped then
        (if panicking then finish (Some [''VMM thread panicked'']) (cleanup_result (Some [''VMM thread panicked'']) s)
         else finish None s)
      else s)"

section \<open>Threads\<close>

text \<open>Where the owner is in \<open>Vmm::run\<close>: before it, between two requests, serving one, in cleanup, or done.\<close>

datatype owner_pc = NotBegun | Loop "request option" | Cleaning | Done

inductive control_step :: "vm_control \<times> owner_pc \<Rightarrow> vm_control \<times> owner_pc \<Rightarrow> bool" where
  submits: "submit thread op s = (r, s') \<Longrightarrow> control_step (s, pc) (s', pc)"
| stops: "stop thread s = (r, s') \<Longrightarrow> control_step (s, pc) (s', pc)"
| targets: "control_set_requested target s = (r, s') \<Longrightarrow> control_step (s, pc) (s', pc)"
| begins: "begin_run thread s = (Ok (), s') \<Longrightarrow> control_step (s, NotBegun) (s', Loop None)"
| runs: "control_step (s, Loop None) (running s, Loop None)"
| starts_memory: "control_step (s, Loop None)
    (s\<lparr>vm_memory := map_option (\<lambda>m. m\<lparr>lifecycle := Running\<rparr>) (vm_memory s)\<rparr>, Loop None)"
| takes: "next_request s = (Some r, s') \<Longrightarrow> control_step (s, Loop None) (s', Loop (Some r))"
| completes: "control_step (s, Loop (Some r)) (complete_request r outcome s, Loop None)"
| rejects: "control_step (s, Loop (Some r)) (reject_stopping r s, Loop None)"
| cleans: "control_step (s, Loop None) (cleaning s, Cleaning)"
| reports: "control_step (s, Cleaning) (cleanup_result outcome s, Cleaning)"
| finishes: "pc = Loop None \<or> pc = Cleaning \<Longrightarrow> control_step (s, pc) (finish outcome s, Done)"
| drops: "control_step (s, NotBegun) (dropped panicking s, Done)"
| panics: "control_step (s, Loop held)
    (dropped True (s\<lparr>replies := replies s @ (case held of None \<Rightarrow> [] | Some r \<Rightarrow> [(reply r, DroppedUnused)])\<rparr>), Done)"

inductive_cases control_stepE: "control_step c c'"

inductive control_reach :: "vm_control \<times> owner_pc \<Rightarrow> bool" where
  init: "control_reach (control_new mem, NotBegun)"
| step: "control_reach c \<Longrightarrow> control_step c c' \<Longrightarrow> control_reach c'"

section \<open>Invariants\<close>

fun held :: "owner_pc \<Rightarrow> nat list" where
  "held (Loop (Some r)) = [reply r]"
| "held _ = []"

text \<open>Every ticket issued is queued, held by the owner, or answered, exactly once.\<close>

definition accounted :: "vm_control \<Rightarrow> owner_pc \<Rightarrow> bool" where
  "accounted s pc \<longleftrightarrow>
     mset (map reply (requests s)) + mset (held pc) + mset (map fst (replies s)) = mset [0 ..< tickets s]"

fun phase_ok :: "owner_pc \<Rightarrow> VmLifecycle \<Rightarrow> bool" where
  "phase_ok NotBegun l = (l \<in> {VmCreated, VmStopped})"
| "phase_ok (Loop None) l = (l \<in> {VmStarting, VmRunning, VmPaused, VmStopping})"
| "phase_ok (Loop (Some r)) l = (l \<in> {VmRunning, VmPaused, VmStopping})"
| "phase_ok Cleaning l = (l = VmStopping)"
| "phase_ok Done l = (l = VmStopped)"

definition control_inv :: "vm_control \<times> owner_pc \<Rightarrow> bool" where
  "control_inv = (\<lambda>(s, pc). accounted s pc \<and> phase_ok pc (vm_lifecycle s) \<and>
     (vm_lifecycle s \<notin> {VmRunning, VmPaused} \<longrightarrow> requests s = []) \<and>
     (vm_lifecycle s = VmCreated \<longrightarrow> owner s = None) \<and>
     (vm_lifecycle s = VmStopped \<longrightarrow> owner s = None \<and> (\<forall>m. vm_memory s = Some m \<longrightarrow> lifecycle m = Stopped)))"

lemma accounted_cancel [simp]: "accounted (cancel s) pc = accounted s pc"
  by (simp add: accounted_def cancel_def comp_def ac_simps)

lemma cancel_simps [simp]:
  "requests (cancel s) = []" "vm_lifecycle (cancel s) = vm_lifecycle s" "vm_memory (cancel s) = vm_memory s"
  "owner (cancel s) = owner s"
  by (simp_all add: cancel_def)

lemma stopped_memory [simp]: "vm_memory (stop_memory s) = Some m \<Longrightarrow> lifecycle m = Stopped"
  by (auto simp: stop_memory_def)

lemma stop_memory_simps [simp]:
  "requests (stop_memory s) = requests s" "replies (stop_memory s) = replies s" "tickets (stop_memory s) = tickets s"
  "vm_lifecycle (stop_memory s) = vm_lifecycle s" "owner (stop_memory s) = owner s"
  by (simp_all add: stop_memory_def)

lemma accounted_cong:
  "requests s' = requests s \<Longrightarrow> replies s' = replies s \<Longrightarrow> tickets s' = tickets s \<Longrightarrow> accounted s' pc = accounted s pc"
  by (simp add: accounted_def)

lemma set_requested_lifecycle: "set_requested_mib target m = (r, m') \<Longrightarrow> lifecycle m' = lifecycle m"
  by (auto simp: set_requested_mib_def prog_defs split: if_splits result.splits)

lemma finish_inv: "accounted s pc \<Longrightarrow> held pc = [] \<Longrightarrow> control_inv (finish outcome s, Done)"
  using accounted_cancel [of "(stop_memory s)\<lparr>vm_lifecycle := VmStopped, final_error := map_option diagnostic outcome, owner := None\<rparr>" pc]
  by (auto simp: control_inv_def finish_def accounted_def)

lemma dropped_inv:
  assumes "accounted s pc" and "held pc = []" and "vm_lifecycle s = VmStopped \<longrightarrow> control_inv (s, Done)"
  shows "control_inv (dropped panicking s, Done)"
proof -
  have "accounted (cleanup_result out s) pc" for out using assms(1) by (simp add: accounted_def cleanup_result_def)
  with assms finish_inv [of _ pc] show ?thesis by (auto simp: dropped_def)
qed

lemma stop_inv:
  assumes "stop thread s = (r, s')" and inv: "control_inv (s, pc)"
  shows "control_inv (s', pc)"
proof -
  have "phase_ok pc VmStopping" if "phase_ok pc (vm_lifecycle s)" "vm_lifecycle s \<noteq> VmCreated" "vm_lifecycle s \<noteq> VmStopped"
    using that by (cases "(pc, vm_lifecycle s)" rule: phase_ok.cases) auto
  moreover have "phase_ok pc VmStopped" if "phase_ok pc VmCreated"
    using that by (cases "(pc, vm_lifecycle s)" rule: phase_ok.cases) auto
  moreover have "accounted ((stop_memory s)\<lparr>vm_lifecycle := l\<rparr>) pc" "accounted (s\<lparr>vm_lifecycle := l\<rparr>) pc" for l
    using inv by (simp_all add: control_inv_def accounted_def)
  ultimately show ?thesis
    using assms by (auto simp: stop_def control_inv_def split: if_splits)
qed

lemma panic_inv:
  assumes inv: "control_inv (s, Loop h)"
  shows "control_inv (dropped True (s\<lparr>replies := replies s @ (case h of None \<Rightarrow> [] | Some r \<Rightarrow> [(reply r, DroppedUnused)])\<rparr>), Done)"
    (is "control_inv (dropped True ?s, Done)")
proof -
  have "accounted ?s Done"
    using inv by (auto simp: control_inv_def accounted_def ac_simps split: option.splits)
  moreover have "vm_lifecycle ?s \<noteq> VmStopped" using inv by (cases h) (auto simp: control_inv_def)
  ultimately show ?thesis using dropped_inv [of ?s Done] by simp
qed

lemma control_step_inv:
  assumes "control_step c c'" and "control_inv c"
  shows "control_inv c'"
  using assms
proof (induction rule: control_step.induct)
  case (submits thread op s r s' pc)
  then show ?case
    by (auto simp: submit_def control_inv_def accounted_def atLeast0_lessThan_Suc ac_simps split: if_splits)
next
  case (stops thread s r s' pc)
  then show ?case using stop_inv by blast
next
  case (targets target s r s' pc)
  then show ?case
    using set_requested_lifecycle
    by (fastforce simp: control_set_requested_def control_inv_def accounted_def split: option.splits prod.splits)
next
  case (begins thread s s')
  then show ?case by (auto simp: begin_run_def control_inv_def accounted_def split: if_splits)
next
  case (runs s)
  then show ?case by (auto simp: running_def control_inv_def accounted_def)
next
  case (starts_memory s)
  then show ?case by (auto simp: control_inv_def accounted_def)
next
  case (takes s r s')
  then show ?case by (auto simp: next_request_def control_inv_def accounted_def ac_simps split: list.splits)
next
  case (completes s r outcome)
  then show ?case
    by (auto simp: complete_request_def control_inv_def accounted_def Let_def ac_simps split: Operation.splits)
next
  case (rejects s r)
  then have "accounted (s\<lparr>vm_lifecycle := VmStopping, requests := r # requests s\<rparr>) (Loop None)"
    by (simp add: control_inv_def accounted_def ac_simps)
  then show ?case by (simp add: reject_stopping_def control_inv_def)
next
  case (cleans s)
  then have "accounted (s\<lparr>vm_lifecycle := VmStopping\<rparr>) Cleaning" by (simp add: control_inv_def accounted_def)
  then show ?case by (simp add: cleaning_def control_inv_def)
next
  case (reports s outcome)
  then show ?case by (auto simp: cleanup_result_def control_inv_def accounted_def)
next
  case (finishes pc s outcome)
  then show ?case using finish_inv [of s pc] by (auto simp: control_inv_def)
next
  case (drops s panicking)
  show ?case
  proof (rule dropped_inv [of s NotBegun])
    show "vm_lifecycle s = VmStopped \<longrightarrow> control_inv (s, Done)" using drops by (auto simp: control_inv_def accounted_def)
  qed (use drops in \<open>simp_all add: control_inv_def\<close>)
next
  case (panics s held)
  then show ?case using panic_inv by simp
qed

lemma control_reach_inv: "control_reach c \<Longrightarrow> control_inv c"
proof (induction rule: control_reach.induct)
  case (init mem)
  show ?case by (simp add: control_inv_def control_new_def accounted_def)
qed (rule control_step_inv)

text \<open>A stop is not undone by any step.\<close>

lemma lifecycle_forward:
  assumes inv: "control_inv (s, pc)" and step: "control_step (s, pc) (s', pc')"
  shows "vm_lifecycle s = VmStopped \<Longrightarrow> vm_lifecycle s' = VmStopped"
    and "vm_lifecycle s = VmStopping \<Longrightarrow> vm_lifecycle s' \<in> {VmStopping, VmStopped}"
proof -
  show "vm_lifecycle s' = VmStopped" if "vm_lifecycle s = VmStopped"
    using step inv that
    by (cases rule: control_step.cases)
      (auto simp: submit_def stop_def begin_run_def control_set_requested_def finish_def dropped_def control_inv_def
        split: if_splits option.splits prod.splits)
  show "vm_lifecycle s' \<in> {VmStopping, VmStopped}" if "vm_lifecycle s = VmStopping"
    using step inv that
    by (cases rule: control_step.cases)
      (auto simp: submit_def stop_def begin_run_def control_set_requested_def running_def next_request_def complete_request_def
        reject_stopping_def cleaning_def cleanup_result_def finish_def dropped_def control_inv_def Let_def
        split: if_splits option.splits prod.splits list.splits)
qed

section \<open>Properties\<close>

text \<open>C14. However the callers' threads and the owner interleave, and also if the owner panics: once the run is
  over, every pause or resume request that was accepted has received exactly one answer, and none is queued.\<close>

theorem requests_answered_once:
  assumes "control_reach (s, Done)"
  shows "mset (map fst (replies s)) = mset [0 ..< tickets s] \<and> requests s = []"
  using control_reach_inv [OF assms] by (auto simp: control_inv_def accounted_def)

text \<open>C31. The lifecycle never goes back: a stopping VM only stops, a stopped VM stays stopped for every caller,
  with no owner, and its dynamic memory is stopped as well.\<close>

theorem stop_is_final:
  assumes "control_reach (s, pc)" and "control_step (s, pc) (s', pc')"
  shows "(vm_lifecycle s = VmStopped \<longrightarrow> vm_lifecycle s' = VmStopped) \<and>
    (vm_lifecycle s = VmStopping \<longrightarrow> vm_lifecycle s' \<in> {VmStopping, VmStopped}) \<and>
    (vm_lifecycle s' = VmStopped \<longrightarrow> owner s' = None \<and> list_all (\<lambda>m. lifecycle m = Stopped) (case vm_memory s' of None \<Rightarrow> [] | Some m \<Rightarrow> [m]))"
proof -
  have inv: "control_inv (s, pc)" using control_reach_inv [OF assms(1)] .
  then have "control_inv (s', pc')" using control_step_inv [OF assms(2)] by blast
  with lifecycle_forward [OF inv assms(2)] show ?thesis by (auto simp: control_inv_def split: option.splits)
qed

text \<open>After the run, stop returns at once to every thread with the saved cleanup result, as often as it is
  called; nothing changes any more, and a pause or resume is refused.\<close>

theorem stop_after_run:
  assumes "control_reach (s, Done)"
  shows "stop thread s = (Ok (), s) \<and> stop_result s = Some (cleanup_outcome (cleanup_error s)) \<and>
    submit thread op s = (Err ControlError.NotRunning, s)"
  using control_reach_inv [OF assms] by (simp add: control_inv_def stop_def stop_result_def submit_def cancel_def)

end
