(* ===== verification/Cpus.thy ===== *)
theory Cpus
  imports Hvf
begin

text \<open>
  The vCPU threads of the macOS platform (\<open>src/src/platform/macos_arm64/cpus.rs\<close>): the state they share
  under one lock, the PSCI calls of the guest, the handling of vCPU exits, and the barrier that pauses
  them. A critical section is one step; a thread that waits on the condition variable takes its step
  when the condition holds. The guest's execution between two exits is the framework's (\<open>hv\<close>).
  Lemmas: the interleaving of all threads keeps the barrier: after a successful pause no vCPU executes
  until it is resumed.
\<close>

section \<open>The shared state\<close>

datatype Power = Off | Pending u64 u64 | On

record cpus =
  stop_flag :: bool
  paused :: bool
  started :: bool
  power :: "Power list"
  running_flags :: "bool list"
  ids :: "u64 option list"

definition shared_new :: "u32 \<Rightarrow> cpus" where
  "shared_new n = \<lparr>stop_flag = False, paused = False, started = False, power = replicate (unat n) Off,
     running_flags = replicate (unat n) False, ids = replicate (unat n) None\<rparr>"

text \<open>The vCPUs that are forced out of the guest.\<close>

definition kick :: "cpus \<Rightarrow> u64 list" where
  "kick s = List.map_filter (\<lambda>x. x) (ids s)"

definition shared_stop :: "cpus \<Rightarrow> cpus" where
  "shared_stop s = s\<lparr>stop_flag := True\<rparr>"

definition shared_stopping :: "cpus \<Rightarrow> bool" where
  "shared_stopping s = stop_flag s"

text \<open>\<open>CPU_ON\<close>.\<close>

definition shared_on :: "u64 \<Rightarrow> u64 \<Rightarrow> u64 \<Rightarrow> cpus \<Rightarrow> i64 \<times> cpus" where
  "shared_on target entry context s =
     (if \<not> unat target < length (power s) then (- 2, s)
      else if entry AND 3 \<noteq> 0 then (- 9, s)
      else case power s ! unat target of
        On \<Rightarrow> (- 4, s)
      | Pending _ _ \<Rightarrow> (- 5, s)
      | Off \<Rightarrow> (0, s\<lparr>power := (power s)[unat target := Pending entry context]\<rparr>))"

text \<open>\<open>AFFINITY_INFO\<close>.\<close>

definition shared_affinity :: "u64 \<Rightarrow> u64 \<Rightarrow> cpus \<Rightarrow> i64" where
  "shared_affinity target level s =
     (if 3 < level then - 2
      else if level = 0 then
        (if unat target < length (power s)
         then (case power s ! unat target of On \<Rightarrow> 0 | Off \<Rightarrow> 1 | Pending _ _ \<Rightarrow> 2) else - 2)
      else if target AND NOT (push_bit (unat level * 8) 1 - 1) = 0 then
        (if list_ex (\<lambda>p. p \<noteq> Off) (power s) then 0 else 1)
      else - 2)"

definition set_running :: "nat \<Rightarrow> bool \<Rightarrow> cpus \<Rightarrow> cpus" where
  "set_running i b s = s\<lparr>running_flags := (running_flags s)[i := b]\<rparr>"

definition wait_io :: "nat \<Rightarrow> cpus \<Rightarrow> cpus" where
  "wait_io i s = set_running i False s"

text \<open>\<open>complete_io\<close> waits while \<open>io_barred\<close>, then answers whether the vCPU may go on.\<close>

definition io_barred :: "cpus \<Rightarrow> bool" where
  "io_barred s = (paused s \<and> \<not> stop_flag s)"

definition complete_io :: "nat \<Rightarrow> cpus \<Rightarrow> bool \<times> cpus" where
  "complete_io i s = (if stop_flag s then (False, s) else (True, set_running i True s))"

text \<open>\<open>pause\<close> raises the barrier, then waits until it has an outcome.\<close>

definition pause_begin :: "cpus \<Rightarrow> cpus" where
  "pause_begin s = s\<lparr>paused := True\<rparr>"

definition pause_outcome :: "cpus \<Rightarrow> PauseOutcome option" where
  "pause_outcome s =
     (if list_ex (\<lambda>r. r) (running_flags s) \<and> \<not> stop_flag s then None
      else Some (if stop_flag s then OutcomeStopping else OutcomePaused))"

definition shared_resume :: "cpus \<Rightarrow> cpus" where
  "shared_resume s = s\<lparr>paused := False\<rparr>"

definition cpus_start :: "u64 \<Rightarrow> u64 \<Rightarrow> cpus \<Rightarrow> cpus" where
  "cpus_start entry dtb s = s\<lparr>power := (power s)[0 := Pending entry dtb], started := True\<rparr>"

section \<open>Handling an exit\<close>

text \<open>\<open>hvf::Exit\<close>.\<close>

record exit_info =
  reason :: u32
  syndrome :: u64
  physical_address :: u64

record access =
  ac_addr :: u64
  ac_width :: usize
  ac_write :: bool
  ac_value :: u64

datatype cpu_event = Access access | Failed PlatformError | ShutdownEvent

definition mask_write :: "u64 \<Rightarrow> usize \<Rightarrow> u64" where
  "mask_write register width = register AND drop_bit (64 - width * 8) u64_max"

text \<open>The value a load leaves in its register: sign extension and the 32-bit form are the instruction's.\<close>

definition load_value :: "u64 \<Rightarrow> usize \<Rightarrow> u64 \<Rightarrow> u64" where
  "load_value esr width value =
     (let value = (if bit esr 21 then signed_drop_bit (64 - width * 8) (push_bit (64 - width * 8) value) else value)
      in if \<not> bit esr 15 then value AND 0xffffffff else value)"

definition abort_width :: "u64 \<Rightarrow> usize" where
  "abort_width esr = 2 ^ unat (drop_bit 22 esr AND 3)"

definition abort_reg :: "u64 \<Rightarrow> u32" where
  "abort_reg esr = ucast (drop_bit 16 esr AND 31)"

definition abort_write :: "u64 \<Rightarrow> bool" where
  "abort_write esr = bit esr 6"

definition sysreg_of :: "u64 \<Rightarrow> u64" where
  "sysreg_of esr = push_bit 14 (drop_bit 20 esr AND 3) OR push_bit 11 (drop_bit 14 esr AND 7) OR
     push_bit 7 (drop_bit 10 esr AND 15) OR push_bit 3 (drop_bit 1 esr AND 15) OR (drop_bit 17 esr AND 7)"

text \<open>How a worker goes on after an exit: the next iteration, the end of the thread, or an access that
  waits for its reply.\<close>

datatype worker_next = Again | Over | AwaitReply access

definition on_shared :: "(cpus \<Rightarrow> 'a \<times> cpus) \<Rightarrow> ('h \<times> cpus, 'a, PlatformError) prog" where
  "on_shared f = (\<lambda>(h, s). case f s of (x, s') \<Rightarrow> (Ok x, h, s'))"

definition on_hv :: "('h, 'a, PlatformError) prog \<Rightarrow> ('h \<times> cpus, 'a, PlatformError) prog" where
  "on_hv f = (\<lambda>(h, s). case f h of (r, h') \<Rightarrow> (r, h', s))"

definition psci_arg :: "'h hv \<Rightarrow> u64 \<Rightarrow> u64 \<Rightarrow> u32 \<Rightarrow> ('h \<times> cpus, u64, PlatformError) prog" where
  "psci_arg H cpu function i =
     bnd (on_hv (vcpu_get H cpu i)) (\<lambda>v. ret (if bit function 30 then v else v AND 0xffffffff))"

text \<open>An HVC exit. \<open>connected\<close>: the receiver of the event channel still exists.\<close>

definition worker_hvc :: "'h hv \<Rightarrow> u64 \<Rightarrow> nat \<Rightarrow> bool \<Rightarrow> ('h \<times> cpus, worker_next \<times> cpu_event list, PlatformError) prog" where
  "worker_hvc H cpu i connected =
     bnd (on_hv (vcpu_get H cpu 0)) (\<lambda>function.
     if function = 0x84000002
     then bnd (on_shared (\<lambda>s. ((), s\<lparr>power := (power s)[i := Off]\<rparr>))) (\<lambda>_. ret (Again, []))
     else if function \<in> {0x84000008, 0x84000009}
     then (if \<not> connected then throw PlatformError.EventChannelDisconnected
           else bnd (on_shared (\<lambda>s. ((), shared_stop s))) (\<lambda>_. ret (Over, [ShutdownEvent])))
     else
     bnd (if function \<in> {0x84000000, 0x84000006} then ret 2
          else if function \<in> {0x84000003, 0xc4000003} then
            bnd (psci_arg H cpu function 1) (\<lambda>target.
            bnd (psci_arg H cpu function 2) (\<lambda>entry.
            bnd (psci_arg H cpu function 3) (\<lambda>context.
            on_shared (shared_on target entry context))))
          else if function \<in> {0x84000004, 0xc4000004} then
            bnd (psci_arg H cpu function 1) (\<lambda>target.
            bnd (psci_arg H cpu function 2) (\<lambda>level.
            on_shared (\<lambda>s. (shared_affinity target level s, s))))
          else ret (- 1)) (\<lambda>value.
     bnd (on_hv (vcpu_set H cpu 0 value)) (\<lambda>_. ret (Again, []))))"

text \<open>A data abort: the access is sent to the runtime, and the vCPU leaves the running set until the reply.\<close>

definition worker_abort ::
  "'h hv \<Rightarrow> u64 \<Rightarrow> nat \<Rightarrow> bool \<Rightarrow> exit_info \<Rightarrow> ('h \<times> cpus, worker_next \<times> cpu_event list, PlatformError) prog" where
  "worker_abort H cpu i connected e =
     (let esr = syndrome e; width = abort_width esr; reg = abort_reg esr; wr = abort_write esr in
      if \<not> (bit esr 24 \<and> \<not> bit esr 7 \<and> \<not> bit esr 8)
      then throw (PlatformError.UnsupportedDataAbort esr (physical_address e))
      else
      bnd (if wr \<and> reg \<noteq> 31 then bnd (on_hv (vcpu_get H cpu reg)) (\<lambda>v. ret (mask_write v width)) else ret 0) (\<lambda>value.
      let a = \<lparr>ac_addr = physical_address e, ac_width = width, ac_write = wr, ac_value = value\<rparr> in
      if \<not> connected then throw PlatformError.EventChannelDisconnected
      else bnd (on_shared (\<lambda>s. ((), wait_io i s))) (\<lambda>_. ret (AwaitReply a, [Access a]))))"

definition worker_sysreg :: "'h hv \<Rightarrow> u64 \<Rightarrow> u64 \<Rightarrow> ('h \<times> cpus, worker_next \<times> cpu_event list, PlatformError) prog" where
  "worker_sysreg H cpu esr =
     (if sysreg_of esr \<notin> {0x8084, 0x808c, 0x809c} then throw (PlatformError.UnsupportedSysreg (sysreg_of esr) esr)
      else
      let rt = ucast (drop_bit 5 esr AND 31) in
      bnd (if bit esr 0 \<and> rt \<noteq> 31 then on_hv (vcpu_set H cpu rt 0) else ret ()) (\<lambda>_.
      bnd (on_hv (vcpu_advance H cpu)) (\<lambda>_. ret (Again, []))))"

definition worker_exit ::
  "'h hv \<Rightarrow> u64 \<Rightarrow> nat \<Rightarrow> bool \<Rightarrow> exit_info \<Rightarrow> ('h \<times> cpus, worker_next \<times> cpu_event list, PlatformError) prog" where
  "worker_exit H cpu i connected e =
     bnd get_state (\<lambda>(h, s).
     if shared_stopping s then ret (Over, [])
     else if reason e = 0 then ret (Again, [])
     else if reason e \<noteq> 1 then throw (PlatformError.UnexpectedHvfExit (reason e) (syndrome e))
     else let kd = drop_bit 26 (syndrome e) in
       if kd = 0x16 then worker_hvc H cpu i connected
       else if kd = 0x24 then worker_abort H cpu i connected e
       else if kd = 0x18 then worker_sysreg H cpu (syndrome e)
       else if kd = 1 then bnd (on_hv (vcpu_advance H cpu)) (\<lambda>_. ret (Again, []))
       else bnd (on_hv (vcpu_get H cpu 31)) (\<lambda>pc.
         throw (PlatformError.UnhandledException (syndrome e) (physical_address e) pc)))"

text \<open>One poll of \<open>wait_reply\<close>; \<open>None\<close> polls again.\<close>

definition wait_reply :: "u64 \<Rightarrow> RecvTimeoutError + u64 \<Rightarrow> cpus \<Rightarrow> (u64 option, PlatformError) result option" where
  "wait_reply address received s = (case received of
     Inr value \<Rightarrow> Some (Ok (Some value))
   | Inl e \<Rightarrow> if shared_stopping s then Some (Ok None)
       else (case e of RecvTimeoutError.Disconnected \<Rightarrow> Some (Err (PlatformError.MmioReplyDisconnected address))
             | RecvTimeoutError.Timeout \<Rightarrow> None))"

text \<open>The rest of a data abort once the reply arrived: \<open>complete_io\<close> passes the barrier, then the
  register is written and the instruction skipped.\<close>

definition worker_writeback ::
  "'h hv \<Rightarrow> u64 \<Rightarrow> u64 \<Rightarrow> u64 \<Rightarrow> ('h \<times> cpus, worker_next, PlatformError) prog" where
  "worker_writeback H cpu esr value =
     bnd (if \<not> abort_write esr \<and> abort_reg esr \<noteq> 31
          then on_hv (vcpu_set H cpu (abort_reg esr) (load_value esr (abort_width esr) value)) else ret ()) (\<lambda>_.
     bnd (on_hv (vcpu_advance H cpu)) (\<lambda>_. ret Again))"

definition worker_reply ::
  "'h hv \<Rightarrow> u64 \<Rightarrow> nat \<Rightarrow> u64 \<Rightarrow> u64 \<Rightarrow> ('h \<times> cpus, worker_next, PlatformError) prog" where
  "worker_reply H cpu i esr value =
     bnd (on_shared (complete_io i)) (\<lambda>go. if \<not> go then ret Over else worker_writeback H cpu esr value)"

text \<open>The head of the worker's loop: the vCPU leaves the running set and waits until \<open>worker_ready\<close>; then
  it ends, or boots if it was switched on, and enters the running set.\<close>

definition worker_park :: "nat \<Rightarrow> cpus \<Rightarrow> cpus" where
  "worker_park i s = set_running i False s"

definition worker_ready :: "nat \<Rightarrow> cpus \<Rightarrow> bool" where
  "worker_ready i s = (\<not> (\<not> stop_flag s \<and> (\<not> started s \<or> paused s \<or> power s ! i = Off)))"

definition worker_boot :: "'h hv \<Rightarrow> u64 \<Rightarrow> nat \<Rightarrow> Power \<Rightarrow> ('h \<times> cpus, unit, PlatformError) prog" where
  "worker_boot H cpu i p = (case p of
     Pending entry context \<Rightarrow>
       bnd (on_hv (vcpu_boot H cpu entry context)) (\<lambda>_.
       on_shared (\<lambda>s. ((), s\<lparr>power := (power s)[i := On]\<rparr>)))
   | _ \<Rightarrow> ret ())"

definition worker_enter :: "'h hv \<Rightarrow> u64 \<Rightarrow> nat \<Rightarrow> ('h \<times> cpus, bool, PlatformError) prog" where
  "worker_enter H cpu i =
     bnd get_state (\<lambda>(h, s).
     if stop_flag s then ret False
     else
     bnd (worker_boot H cpu i (power s ! i)) (\<lambda>_.
     bnd (on_shared (\<lambda>s. ((), set_running i True s))) (\<lambda>_. ret True)))"

text \<open>A thread's end: it leaves the running set and stops the others; it then waits until none runs.\<close>

definition worker_end :: "nat \<Rightarrow> cpus \<Rightarrow> cpus" where
  "worker_end i s = (set_running i False s)\<lparr>stop_flag := True\<rparr>"

definition worker_leave :: "nat \<Rightarrow> cpus \<Rightarrow> cpus" where
  "worker_leave i s = s\<lparr>ids := (ids s)[i := None]\<rparr>"

text \<open>Sequential creation: the first failure is returned. \<open>spawn\<close> is what the host answers to
  starting a thread.\<close>

fun create_vcpus :: "'h hv \<Rightarrow> (nat \<Rightarrow> IoError option) \<Rightarrow> nat list \<Rightarrow> ('h \<times> cpus, unit, PlatformError) prog" where
  "create_vcpus H spawn [] = ret ()"
| "create_vcpus H spawn (i # is) =
     (case spawn i of
        Some e \<Rightarrow> throw (PlatformError.Io e)
      | None \<Rightarrow>
          bnd (on_hv (vcpu_new H (word_of_nat i))) (\<lambda>cpu.
          bnd (on_shared (\<lambda>s. ((), s\<lparr>ids := (ids s)[i := Some cpu]\<rparr>))) (\<lambda>_.
          create_vcpus H spawn is)))"

text \<open>\<open>create\<close>: a partial startup is stopped again.\<close>

definition cpus_create :: "'h hv \<Rightarrow> (nat \<Rightarrow> IoError option) \<Rightarrow> u32 \<Rightarrow> 'h \<Rightarrow> (cpus, PlatformError) result \<times> 'h \<times> cpus" where
  "cpus_create H spawn n h =
     (case create_vcpus H spawn [0 ..< unat n] (h, shared_new n) of
        (Ok _, h, s) \<Rightarrow> (Ok s, h, s)
      | (Err e, h, s) \<Rightarrow> (Err e, h, shared_stop s)
      | (Panic, h, s) \<Rightarrow> (Panic, h, s))"

text \<open>\<open>join\<close>, given which threads panicked.\<close>

definition cpus_join :: "bool list \<Rightarrow> cpus \<Rightarrow> (unit, PlatformError) result \<times> cpus" where
  "cpus_join panicked s =
     (if list_ex (\<lambda>b. b) panicked then Err PlatformError.VcpuThreadPanicked else Ok (), shared_stop s)"

section \<open>The threads together\<close>

text \<open>Where a vCPU thread is: waiting at the head of its loop, executing the guest or handling its exit, about
  to begin the next iteration, waiting for a reply, writing the reply back, about to end, or finished.\<close>

datatype vcpu_pc = AtTop | InGuest | Head | Replying u64 | Writing u64 u64 | Ending | Finished

datatype actor = Vcpu nat | Pauser | Resumer | Stopper | Starter

fun next_pc :: "exit_info \<Rightarrow> worker_next \<Rightarrow> vcpu_pc" where
  "next_pc e Again = Head"
| "next_pc e Over = Ending"
| "next_pc e (AwaitReply a) = Replying (syndrome e)"

inductive cpus_step ::
  "'h hv \<Rightarrow> actor \<Rightarrow> 'h \<times> cpus \<times> vcpu_pc list \<Rightarrow> 'h \<times> cpus \<times> vcpu_pc list \<Rightarrow> bool" for H :: "'h hv" where
  parks: "i < length pcs \<Longrightarrow> pcs ! i = Head \<Longrightarrow> cpus_step H (Vcpu i) (h, s, pcs) (h, worker_park i s, pcs[i := AtTop])"
| enters: "i < length pcs \<Longrightarrow> pcs ! i = AtTop \<Longrightarrow> worker_ready i s \<Longrightarrow> worker_enter H cpu i (h, s) = (Ok go, h', s') \<Longrightarrow>
    cpus_step H (Vcpu i) (h, s, pcs) (h', s', pcs[i := if go then InGuest else Ending])"
| boot_fails: "i < length pcs \<Longrightarrow> pcs ! i = AtTop \<Longrightarrow> worker_ready i s \<Longrightarrow> worker_enter H cpu i (h, s) = (Err e, h', s') \<Longrightarrow>
    cpus_step H (Vcpu i) (h, s, pcs) (h', s', pcs[i := Ending])"
| executes: "i < length pcs \<Longrightarrow> pcs ! i = InGuest \<Longrightarrow> cpus_step H (Vcpu i) (h, s, pcs) (h', s, pcs)"
| exits: "i < length pcs \<Longrightarrow> pcs ! i = InGuest \<Longrightarrow> worker_exit H cpu i connected e (h, s) = (Ok (nx, evs), h', s') \<Longrightarrow>
    cpus_step H (Vcpu i) (h, s, pcs) (h', s', pcs[i := next_pc e nx])"
| exit_fails: "i < length pcs \<Longrightarrow> pcs ! i = InGuest \<Longrightarrow> worker_exit H cpu i connected e (h, s) = (Err er, h', s') \<Longrightarrow>
    cpus_step H (Vcpu i) (h, s, pcs) (h', s', pcs[i := Ending])"
| replied: "i < length pcs \<Longrightarrow> pcs ! i = Replying esr \<Longrightarrow> wait_reply a received s = Some (Ok (Some v)) \<Longrightarrow> \<not> io_barred s \<Longrightarrow>
    complete_io i s = (go, s') \<Longrightarrow> cpus_step H (Vcpu i) (h, s, pcs) (h, s', pcs[i := if go then Writing esr v else Ending])"
| abandoned: "i < length pcs \<Longrightarrow> pcs ! i = Replying esr \<Longrightarrow> wait_reply a received s = Some r \<Longrightarrow> \<nexists>v. r = Ok (Some v) \<Longrightarrow>
    cpus_step H (Vcpu i) (h, s, pcs) (h, s, pcs[i := Ending])"
| writes: "i < length pcs \<Longrightarrow> pcs ! i = Writing esr v \<Longrightarrow> worker_writeback H cpu esr v (h, s) = (r, h', s') \<Longrightarrow>
    cpus_step H (Vcpu i) (h, s, pcs) (h', s', pcs[i := if r = Ok Again then Head else Ending])"
| ends: "i < length pcs \<Longrightarrow> pcs ! i = Ending \<Longrightarrow> cpus_step H (Vcpu i) (h, s, pcs) (h, worker_end i s, pcs[i := Finished])"
| leaves: "i < length pcs \<Longrightarrow> pcs ! i = Finished \<Longrightarrow> \<not> list_ex (\<lambda>r. r) (running_flags s) \<Longrightarrow>
    cpus_step H (Vcpu i) (h, s, pcs) (h, worker_leave i s, pcs)"
| host_pauses: "cpus_step H Pauser (h, s, pcs) (h, pause_begin s, pcs)"
| host_resumes: "cpus_step H Resumer (h, s, pcs) (h, shared_resume s, pcs)"
| host_stops: "cpus_step H Stopper (h, s, pcs) (h, shared_stop s, pcs)"
| host_starts: "cpus_step H Starter (h, s, pcs) (h, cpus_start entry dtb s, pcs)"

text \<open>A run of threads, with who took each step.\<close>

inductive cpus_run ::
  "'h hv \<Rightarrow> actor list \<Rightarrow> 'h \<times> cpus \<times> vcpu_pc list \<Rightarrow> 'h \<times> cpus \<times> vcpu_pc list \<Rightarrow> bool" for H :: "'h hv" where
  run_refl: "cpus_run H [] c c"
| run_step: "cpus_run H as c c' \<Longrightarrow> cpus_step H a c' c'' \<Longrightarrow> cpus_run H (as @ [a]) c c''"

definition cpus_init :: "u32 \<Rightarrow> cpus \<times> vcpu_pc list" where
  "cpus_init n = (shared_new n, replicate (unat n) AtTop)"

text \<open>A thread that executes or touches guest registers is in the running set.\<close>

fun executing :: "vcpu_pc \<Rightarrow> bool" where
  "executing InGuest = True"
| "executing (Writing _ _) = True"
| "executing _ = False"

definition cpus_inv :: "cpus \<Rightarrow> vcpu_pc list \<Rightarrow> bool" where
  "cpus_inv s pcs \<longleftrightarrow> length (running_flags s) = length pcs \<and> length (power s) = length pcs \<and>
     (\<forall>i < length pcs. executing (pcs ! i) \<longrightarrow> running_flags s ! i)"

definition quiescent :: "cpus \<Rightarrow> bool" where
  "quiescent s \<longleftrightarrow> paused s \<and> \<not> list_ex (\<lambda>r. r) (running_flags s)"

text \<open>What the program steps do to the shared state: none but the barrier's own touches \<open>paused\<close>.\<close>

definition same_flags :: "'h \<times> cpus \<Rightarrow> 'h \<times> cpus \<Rightarrow> bool" where
  "same_flags = (\<lambda>(h, s) (h', s'). paused s' = paused s \<and> running_flags s' = running_flags s \<and>
     length (power s') = length (power s))"

lemma same_flags_order [simp]: "reflp same_flags" "transp same_flags"
  by (auto simp: reflp_def transp_def same_flags_def)

lemma on_hv_flags [keeps_intros]: "keeps same_flags (on_hv f)"
  by (auto simp: keeps_def on_hv_def same_flags_def split: prod.splits)

lemma on_shared_flags [keeps_intros]:
  "(\<And>s. paused (snd (f s)) = paused s \<and> running_flags (snd (f s)) = running_flags s \<and> length (power (snd (f s))) = length (power s)) \<Longrightarrow>
    keeps same_flags (on_shared f)"
  by (auto simp: keeps_def on_shared_def same_flags_def case_prod_unfold)

lemma shared_on_flags:
  "paused (snd (shared_on t e c s)) = paused s \<and> running_flags (snd (shared_on t e c s)) = running_flags s \<and>
    length (power (snd (shared_on t e c s))) = length (power s)"
  by (simp add: shared_on_def split: Power.splits)

lemma worker_hvc_flags [keeps_intros]: "keeps same_flags (worker_hvc H cpu i connected)"
  unfolding worker_hvc_def psci_arg_def
  by (intro keeps_intros same_flags_order) (simp_all add: shared_stop_def shared_on_flags)

lemma worker_sysreg_flags [keeps_intros]: "keeps same_flags (worker_sysreg H cpu esr)"
  unfolding worker_sysreg_def Let_def by (intro keeps_intros same_flags_order)

lemma worker_writeback_flags: "keeps same_flags (worker_writeback H cpu esr v)"
  unfolding worker_writeback_def by (intro keeps_intros same_flags_order)

text \<open>Handling an exit leaves the flags alone, except that a vCPU waiting for a reply leaves the running set.\<close>

lemma worker_exit_flags:
  assumes "worker_exit H cpu i connected e (h, s) = (r, h', s')"
  shows "same_flags (h, s) (h', s') \<or>
    (\<exists>a evs. r = Ok (AwaitReply a, evs) \<and> paused s' = paused s \<and> power s' = power s \<and>
      running_flags s' = (running_flags s)[i := False])"
proof (cases "\<not> shared_stopping s \<and> reason e = 1 \<and> drop_bit 26 (syndrome e) = 0x24")
  case True
  then have run: "worker_abort H cpu i connected e (h, s) = (r, h', s')"
    using assms by (simp add: worker_exit_def prog_defs)
  show ?thesis
    using run
    by (auto simp: worker_abort_def Let_def prog_defs on_hv_def on_shared_def wait_io_def set_running_def same_flags_def
        split: if_splits prod.splits result.splits)
next
  case False
  have "same_flags (h, s) (snd (worker_exit H cpu i connected e (h, s)))"
  proof (cases "shared_stopping s \<or> reason e \<noteq> 1")
      case True
      then show ?thesis by (auto simp: worker_exit_def prog_defs same_flags_def)
    next
      case c: False
      let ?kd = "drop_bit 26 (syndrome e)"
      have "worker_exit H cpu i connected e (h, s) =
         (if ?kd = 0x16 then worker_hvc H cpu i connected
          else if ?kd = 0x18 then worker_sysreg H cpu (syndrome e)
          else if ?kd = 1 then bnd (on_hv (vcpu_advance H cpu)) (\<lambda>_. ret (Again, []))
          else bnd (on_hv (vcpu_get H cpu 31)) (\<lambda>pc.
            throw (PlatformError.UnhandledException (syndrome e) (physical_address e) pc))) (h, s)"
        using False c by (auto simp: worker_exit_def bnd_def get_state_def Let_def)
      moreover have "keeps same_flags (if ?kd = 0x16 then worker_hvc H cpu i connected
          else if ?kd = 0x18 then worker_sysreg H cpu (syndrome e)
          else if ?kd = 1 then bnd (on_hv (vcpu_advance H cpu)) (\<lambda>_. ret (Again, []))
          else bnd (on_hv (vcpu_get H cpu 31)) (\<lambda>pc.
            throw (PlatformError.UnhandledException (syndrome e) (physical_address e) pc)))"
        by (intro keeps_intros same_flags_order)
      ultimately show ?thesis unfolding keeps_def by metis
    qed
  with assms show ?thesis by simp
qed

lemma bnd_get_state: "bnd get_state g s = g s s"
  by (simp add: bnd_def get_state_def)

lemma worker_enter_flags:
  assumes "worker_enter H cpu i (h, s) = (r, h', s')"
  shows "(r = Ok True \<and> \<not> stop_flag s \<and> paused s' = paused s \<and> length (power s') = length (power s) \<and>
      running_flags s' = (running_flags s)[i := True]) \<or>
    (r \<noteq> Ok True \<and> same_flags (h, s) (h', s') \<and> (stop_flag s \<longrightarrow> h' = h))"
proof (cases "stop_flag s")
  case True
  with assms show ?thesis by (auto simp: worker_enter_def prog_defs same_flags_def)
next
  case False
  let ?boot = "worker_boot H cpu i (power s ! i)"
  obtain r1 h1 s1 where b: "?boot (h, s) = (r1, h1, s1)" by (metis prod_cases3)
  have "keeps same_flags ?boot" by (cases "power s ! i") (auto simp: worker_boot_def intro!: keeps_intros)
  from keepsD [OF this b] have f: "same_flags (h, s) (h1, s1)" .
  have run: "worker_enter H cpu i (h, s) =
      bnd ?boot (\<lambda>_. bnd (on_shared (\<lambda>s. ((), set_running i True s))) (\<lambda>_. ret True)) (h, s)"
    using False by (simp add: worker_enter_def bnd_get_state)
  show ?thesis
  proof (cases r1)
    case (Ok x)
    with run b assms f False show ?thesis
      by (auto simp: bnd_def on_shared_def set_running_def ret_def same_flags_def)
  next
    case (Err e)
    with run b assms f False show ?thesis by (auto simp: bnd_def)
  next
    case Panic
    with run b assms f False show ?thesis by (auto simp: bnd_def)
  qed
qed

lemma cpus_inv_flags:
  assumes "cpus_inv s pcs" and "i < length pcs" and "same_flags (h, s) (h', s')" and "executing pc \<longrightarrow> executing (pcs ! i)"
  shows "cpus_inv s' (pcs[i := pc])"
  using assms by (auto simp: cpus_inv_def same_flags_def nth_list_update)

lemma cpus_inv_running:
  assumes "cpus_inv s pcs" and "i < length pcs" and "running_flags s' = (running_flags s)[i := b]"
    and "length (power s') = length (power s)" and "executing pc \<longrightarrow> b"
  shows "cpus_inv s' (pcs[i := pc])"
  using assms by (auto simp: cpus_inv_def nth_list_update)

lemma cpus_step_inv:
  assumes "cpus_step H a (h, s, pcs) (h', s', pcs')" and "cpus_inv s pcs"
  shows "cpus_inv s' pcs'"
  using assms
proof (cases rule: cpus_step.cases)
  case (parks i)
  then show ?thesis using cpus_inv_running [OF assms(2), of i s' False AtTop] by (simp add: worker_park_def set_running_def)
next
  case (enters i cpu go)
  then show ?thesis
    using worker_enter_flags [OF enters(6)] cpus_inv_running [OF assms(2), of i s' True "if go then InGuest else Ending"]
      cpus_inv_flags [OF assms(2), of i h h' s' "if go then InGuest else Ending"] by (cases go) auto
next
  case (boot_fails i cpu e)
  then show ?thesis
    using worker_enter_flags [OF boot_fails(6)] cpus_inv_flags [OF assms(2), of i h h' s' Ending] by auto
next
  case (exits i cpu connected e nx evs)
  then show ?thesis
    using worker_exit_flags [OF exits(5)] cpus_inv_flags [OF assms(2), of i h h' s' "next_pc e nx"]
      cpus_inv_running [OF assms(2), of i s' False "next_pc e nx"] by auto
next
  case (exit_fails i cpu connected e er)
  then show ?thesis
    using worker_exit_flags [OF exit_fails(5)] cpus_inv_flags [OF assms(2), of i h h' s' Ending] by auto
next
  case (replied i esr a received v go)
  then show ?thesis
    using cpus_inv_running [OF assms(2), of i s' True "Writing esr v"] cpus_inv_flags [OF assms(2), of i h h s Ending]
    by (auto simp: complete_io_def set_running_def same_flags_def split: if_splits)
next
  case (abandoned i esr a received r)
  then show ?thesis using cpus_inv_flags [OF assms(2), of i h h s Ending] by (auto simp: same_flags_def)
next
  case (writes i esr v cpu r)
  then have "same_flags (h, s) (h', s')" using keepsD [OF worker_writeback_flags] by blast
  from cpus_inv_flags [OF assms(2) writes(3) this] writes show ?thesis by auto
next
  case (ends i)
  then show ?thesis
    using cpus_inv_running [OF assms(2), of i s' False Finished] by (simp add: worker_end_def set_running_def)
qed (use assms(2) in \<open>auto simp: cpus_inv_def worker_leave_def pause_begin_def shared_resume_def shared_stop_def cpus_start_def\<close>)

lemma quiescent_not_executing:
  assumes "cpus_inv s pcs" and "quiescent s" and "i < length pcs"
  shows "\<not> executing (pcs ! i)"
  using assms by (auto simp: cpus_inv_def quiescent_def list_ex_length)

text \<open>Behind the barrier no vCPU thread can enter the guest or change the framework's state; only a resume
  opens it.\<close>

lemma quiescent_step:
  assumes "cpus_step H a (h, s, pcs) (h', s', pcs')" and "cpus_inv s pcs" and "quiescent s" and "a \<noteq> Resumer"
  shows "quiescent s' \<and> h' = h"
proof -
  have keep: "quiescent s''" if "same_flags (h, s) (g, s'')" for g s''
    using that assms(3) by (auto simp: quiescent_def same_flags_def)
  have leave: "quiescent s''" if "paused s'' = paused s" "running_flags s'' = (running_flags s)[i := False]" for i s''
    using that assms(3) set_update_subset_insert [of "running_flags s" i False] by (auto simp: quiescent_def list_ex_iff)
  have idle: "\<not> executing (pcs ! i)" if "i < length pcs" for i
    using quiescent_not_executing [OF assms(2,3) that] .
  have stop: "stop_flag s" if "worker_ready i s" for i
    using that assms(3) by (auto simp: worker_ready_def quiescent_def)
  show ?thesis
    using assms(1)
  proof (cases rule: cpus_step.cases)
    case (parks i)
    then show ?thesis using leave [of s' i] by (simp add: worker_park_def set_running_def)
  next
    case (enters i cpu go)
    then show ?thesis using worker_enter_flags [OF enters(6)] stop [OF enters(5)] keep by auto
  next
    case (boot_fails i cpu e)
    then show ?thesis using worker_enter_flags [OF boot_fails(6)] stop [OF boot_fails(5)] keep by auto
  next
    case (replied i esr a received v go)
    then show ?thesis using assms(3) by (auto simp: io_barred_def complete_io_def quiescent_def)
  next
    case (ends i)
    then show ?thesis using leave [of s' i] by (simp add: worker_end_def set_running_def)
  qed (use assms(3,4) idle in \<open>force simp: quiescent_def worker_leave_def pause_begin_def shared_stop_def cpus_start_def\<close>)+
qed

lemma cpus_run_inv:
  "cpus_run H as c c' \<Longrightarrow> (\<lambda>(h, s, pcs). cpus_inv s pcs) c \<Longrightarrow> (\<lambda>(h, s, pcs). cpus_inv s pcs) c'"
proof (induction rule: cpus_run.induct)
  case (run_step as c c' a c'')
  then show ?case by (auto dest: cpus_step_inv)
qed

lemma quiescent_run:
  "cpus_run H as c c' \<Longrightarrow> (\<lambda>(h, s, pcs). cpus_inv s pcs \<and> quiescent s) c \<Longrightarrow> Resumer \<notin> set as \<Longrightarrow>
    (\<lambda>(h, s, pcs). cpus_inv s pcs \<and> quiescent s) c' \<and> fst c' = fst c"
proof (induction rule: cpus_run.induct)
  case (run_step as c c' a c'')
  obtain h s pcs h' s' pcs' where c: "c' = (h, s, pcs)" "c'' = (h', s', pcs')" by (metis prod_cases3)
  from run_step have i: "cpus_inv s pcs" "quiescent s" "h = fst c" using c by auto
  have "a \<noteq> Resumer" using run_step.prems(2) by auto
  with quiescent_step [OF run_step.hyps(2) [unfolded c] i(1,2)] cpus_step_inv [OF run_step.hyps(2) [unfolded c] i(1)] i(3) c
  show ?case by simp
qed simp

section \<open>Values of accesses\<close>

lemma signed_shift:
  fixes v :: u64
  assumes "n < 64"
  shows "sint (signed_drop_bit n (push_bit n v)) = signed_take_bit (63 - n) (sint v)"
proof -
  have "bit (sint (signed_drop_bit n (push_bit n v))) k = bit (signed_take_bit (63 - n) (sint v)) k" for k
  proof -
    consider "63 < n + k" | "k = 63 - n" | "n + k < 63" using assms by linarith
    then show ?thesis
      using assms
      by cases (auto simp: sint_signed_drop_bit_eq bit_drop_bit_eq bit_sint_iff bit_push_bit_iff bit_signed_take_bit_iff
          min_def dest: bit_imp_le_length)
  qed
  then show ?thesis by (rule bit_eqI)
qed

lemma unat_mask_write:
  assumes "width \<in> {1, 2, 4, 8}"
  shows "unat (mask_write r width) = unat r mod 256 ^ width"
proof -
  have "drop_bit (64 - width * 8) u64_max = mask (width * 8)"
    using assms unfolding u64_max_def by (intro bit_eqI) (auto simp: bit_simps)
  then have "mask_write r width = take_bit (width * 8) r" by (simp add: mask_write_def take_bit_eq_mask)
  then have "unat (mask_write r width) = unat r mod 2 ^ (width * 8)"
    by (simp only: unsigned_take_bit_eq) (simp add: take_bit_eq_mod)
  also have "(2 :: nat) ^ (width * 8) = 256 ^ width" by (simp add: power_mult mult.commute [of width])
  finally show ?thesis .
qed

section \<open>Properties\<close>


text \<open>\<open>CPU_ON\<close> succeeds exactly for an existing vCPU that is off, with a word-aligned entry: it then becomes
  pending with that entry and context and nothing else changes. Any other call is answered with a negative code
  and changes nothing.\<close>

lemma cpu_on_exact:
  "shared_on target entry context s = (v, s') \<Longrightarrow>
    if unat target < length (power s) \<and> entry AND 3 = 0 \<and> power s ! unat target = Off
    then v = 0 \<and> s' = s\<lparr>power := (power s)[unat target := Pending entry context]\<rparr>
    else sint v < 0 \<and> s' = s"
  by (auto simp: shared_on_def split: if_splits Power.splits)

text \<open>An emulated store passes exactly the accessed bytes of the register. An emulated load leaves in a
  64-bit register the value, sign-extended from the access width if the instruction asks for it, and
  in a 32-bit register the low half of that.\<close>

theorem access_values:
  assumes "width \<in> {1, 2, 4, 8}"
  shows "unat (mask_write r width) = unat r mod 256 ^ width \<and>
    (let full = (if bit esr 21 then signed_take_bit (8 * width - 1) (sint v) else sint v) in
     if bit esr 15 then sint (load_value esr width v) = full
     else uint (load_value esr width v) = take_bit 32 full)"
proof -
  have n: "64 - width * 8 < 64" "63 - (64 - width * 8) = 8 * width - 1" using assms by auto
  define w where "w = (if bit esr 21 then signed_drop_bit (64 - width * 8) (push_bit (64 - width * 8) v) else v)"
  define full where "full = (if bit esr 21 then signed_take_bit (8 * width - 1) (sint v) else sint v)"
  have w: "sint w = full"
    using signed_shift [OF n(1), of v] n(2) by (simp add: w_def full_def)
  have lv: "load_value esr width v = (if bit esr 15 then w else w AND 0xffffffff)"
    by (simp add: load_value_def w_def Let_def)
  have "(0xffffffff :: u64) = mask 32" by (simp add: mask_eq_exp_minus_1)
  then have "w AND 0xffffffff = take_bit 32 w" by (simp only: take_bit_eq_mask)
  moreover have "uint (take_bit 32 w) = take_bit 32 (sint w)"
    by (rule bit_eqI) (auto simp: bit_simps bit_uint_iff bit_sint_iff dest: bit_imp_le_length)
  ultimately have "uint (w AND 0xffffffff) = take_bit 32 full" using w by simp
  with lv w unat_mask_write [OF assms] show ?thesis unfolding full_def [symmetric] Let_def by simp
qed

end
