(* ===== verification/Macos.thy ===== *)
theory Macos
  imports Cpus
begin

text \<open>
  The built-in Apple Silicon platform (\<open>src/src/platform/macos_arm64/mod.rs\<close>): its layout policy, the
  virtual machine with its threads and event channel, polling for events and collecting faults.
  The channel is the list of queued events; what the vCPU threads do while the runtime waits for a
  pause is the parameter \<open>meanwhile\<close>. Lemmas: the layout it proposes is always accepted by the
  runtime's validation; every fault is reported once, in order.
\<close>

section \<open>Layout\<close>

text \<open>\<open>u64::checked_next_multiple_of\<close>.\<close>

definition checked_next_multiple_of :: "u64 \<Rightarrow> u64 \<Rightarrow> u64 option" where
  "checked_next_multiple_of a m =
     (if m = 0 then None else if a mod m = 0 then Some a else checked_add a (m - a mod m))"

definition macos_hotplug :: "MemoryRange \<Rightarrow> MemoryRequirement option \<Rightarrow> (MemoryRange option, PlatformError) result" where
  "macos_hotplug ram need = (case need of
     None \<Rightarrow> Ok None
   | Some n \<Rightarrow>
       and_then (ok_or (Option.bind (checked_add (mr_address ram) (mr_size ram)) (\<lambda>a. checked_next_multiple_of a (rq_alignment n)))
         PlatformError.HotplugOverflow) (\<lambda>address. Ok (Some \<lparr>mr_address = address, mr_size = rq_capacity n\<rparr>)))"

fun check_ipa :: "'h hv \<Rightarrow> MemoryRange list \<Rightarrow> ('h, unit, PlatformError) prog" where
  "check_ipa H [] = ret ()"
| "check_ipa H (r # rs) =
     bnd (ipa_bits H) (\<lambda>bits.
     bnd (pure_res (map_err PlatformError.Boot (validate_ipa_range (mr_address r) (mr_size r) bits))) (\<lambda>_.
     check_ipa H rs))"

definition virtio_io :: "virtio_region \<Rightarrow> IoRegion" where
  "virtio_io r = \<lparr>io_space = SpaceMmio, io_address = vr_address r, io_size = VIRTIO_STRIDE, io_irq = vr_irq r\<rparr>"

definition macos_layout ::
  "'h hv \<Rightarrow> bytes \<Rightarrow> usize \<Rightarrow> VmConfig \<Rightarrow> DeviceRequirements \<Rightarrow> ('h, MachineLayout, PlatformError) prog" where
  "macos_layout H kern initrd_len config devices =
     bnd (pure_res (map_err PlatformError.Boot (layout_new (memory_mib config) kern initrd_len))) (\<lambda>boot.
     bnd (max_vcpus H) (\<lambda>most.
     if \<not> (1 \<le> vcpu_count config \<and> vcpu_count config \<le> most) then throw PlatformError.UnsupportedVcpuCount
     else
     let ram = \<lparr>mr_address = RAM, mr_size = word_of_nat (bl_size boot)\<rparr> in
     bnd (pure_res (macos_hotplug ram (rq_hotplug devices))) (\<lambda>hotplug.
     bnd (check_ipa H (ram # (case hotplug of None \<Rightarrow> [] | Some r \<Rightarrow> [r]))) (\<lambda>_.
     bnd (pure_res (map_err PlatformError.Boot (virtio_regions (length (rq_devices devices))))) (\<lambda>regions.
     ret \<lparr>ml_ram = [ram],
          ml_uart = \<lparr>io_space = SpaceMmio, io_address = UART, io_size = UART_SIZE, io_irq = UART_IRQ\<rparr>,
          ml_virtio = map virtio_io regions, ml_hotplug = hotplug\<rparr>)))))"

section \<open>The virtual machine\<close>

record 'h macos_vm =
  mv_cpus :: "cpus option"
  mv_events :: "cpu_event list option"
  mv_inner :: "'h hvf_vm"
  mv_config :: VmConfig
  mv_boot :: "boot_layout option"

definition macos_create :: "'h hv \<Rightarrow> VmConfig \<Rightarrow> 'h \<Rightarrow> ('h macos_vm, PlatformError) result \<times> 'h" where
  "macos_create H config h = (case hvf_new H h of
     (Ok t, h') \<Rightarrow> (Ok \<lparr>mv_cpus = None, mv_events = None, mv_inner = (t, h'), mv_config = config, mv_boot = None\<rparr>, h')
   | (Err e, h') \<Rightarrow> (Err e, h')
   | (Panic, h') \<Rightarrow> (Panic, h'))"

definition on_inner :: "('h hvf_vm, 'a, 'e) prog \<Rightarrow> ('h macos_vm, 'a, 'e) prog" where
  "on_inner f = (\<lambda>v. case f (mv_inner v) of (r, i) \<Rightarrow> (r, v\<lparr>mv_inner := i\<rparr>))"

definition macos_mapper :: "'h hv \<Rightarrow> 'h macos_vm mapper_ops" where
  "macos_mapper H = \<lparr>mp_map = (\<lambda>r. on_inner (hvf_map H r)), mp_unmap = (\<lambda>r. on_inner (hvf_unmap H r))\<rparr>"

text \<open>What \<open>prepare\<close> takes from other crates: the device tree writer, the loader, the guest image.\<close>

record ('q, 'm, 'f) boot_env =
  be_crates :: "('q, 'm) crates"
  be_writer :: "'f fdt_writer"
  be_loader :: "'m pe_load"
  be_kernel :: bytes
  be_initrd :: bytes
  be_spawn :: "nat \<Rightarrow> IoError option"

definition on_framework :: "('h, 'a, PlatformError) prog \<Rightarrow> ('h macos_vm \<times> 'm, 'a, PlatformError) prog" where
  "on_framework f = (\<lambda>(v, m). case f (snd (mv_inner v)) of
     (r, h) \<Rightarrow> (r, v\<lparr>mv_inner := (fst (mv_inner v), h)\<rparr>, m))"

definition on_guest :: "('m, 'a, BootError) prog \<Rightarrow> ('h macos_vm \<times> 'm, 'a, PlatformError) prog" where
  "on_guest f = (\<lambda>(v, m). case f m of (r, m') \<Rightarrow> (map_err PlatformError.Boot r, v, m'))"

definition create_cpus :: "'h hv \<Rightarrow> (nat \<Rightarrow> IoError option) \<Rightarrow> ('h macos_vm \<times> 'm, cpus, PlatformError) prog" where
  "create_cpus H spawn = (\<lambda>(v, m). case cpus_create H spawn (vcpu_count (mv_config v)) (snd (mv_inner v)) of
     (r, h, s) \<Rightarrow> (r, v\<lparr>mv_inner := (fst (mv_inner v), h)\<rparr>, m))"

definition macos_prepare ::
  "'h hv \<Rightarrow> ('q, 'm, 'f) boot_env \<Rightarrow> MachineLayout \<Rightarrow> ('h macos_vm \<times> 'm, unit, PlatformError) prog" where
  "macos_prepare H E layout =
     bnd get_state (\<lambda>(v, m).
     bnd (pure_res (map_err PlatformError.Boot (layout_new (memory_mib (mv_config v)) (be_kernel E) (length (be_initrd E))))) (\<lambda>boot.
     let regions = map (\<lambda>r. \<lparr>vr_address = io_address r, vr_irq = io_irq r\<rparr>) (ml_virtio layout) in
     bnd (on_framework (hvf_gic H)) (\<lambda>(redist, timers).
     bnd (on_framework (validate_irqs H regions)) (\<lambda>_.
     bnd (pure_res (map_err PlatformError.Boot (fdt (be_writer E) boot (length (be_initrd E)) regions redist timers
            (vcpu_count (mv_config v)) (ml_hotplug layout \<noteq> None)))) (\<lambda>dtb.
     bnd (on_guest (load (be_crates E) (be_loader E) (be_kernel E) (be_initrd E) boot dtb)) (\<lambda>_.
     bnd (create_cpus H (be_spawn E)) (\<lambda>c.
     modify (\<lambda>(v, m). (v\<lparr>mv_cpus := Some c, mv_events := Some [], mv_boot := Some boot\<rparr>, m)))))))))"

definition macos_start :: "('h macos_vm, unit, PlatformError) prog" where
  "macos_start v = (case mv_boot v of
     None \<Rightarrow> (Err PlatformError.VmNotPrepared, v)
   | Some b \<Rightarrow> (case mv_cpus v of
        None \<Rightarrow> (Panic, v)
      | Some c \<Rightarrow> (Ok (), v\<lparr>mv_cpus := Some (cpus_start (bl_entry b) (bl_dtb b) c)\<rparr>)))"

text \<open>\<open>poll\<close>: the queue's head, or why there is none. \<open>closed\<close>: every sender is gone.\<close>

definition poll_channel ::
  "cpu_event list \<Rightarrow> bool \<Rightarrow> bool \<Rightarrow> (access Event option, PlatformError) result \<times> cpu_event list" where
  "poll_channel evs closed stopping_now = (case evs of
     ShutdownEvent # rest \<Rightarrow> (Ok (Some Shutdown), rest)
   | Failed e # rest \<Rightarrow> (Err e, rest)
   | Access a # rest \<Rightarrow>
       (Ok (Some (Io \<lparr>a_space = SpaceMmio, a_address = ac_addr a, a_width = ac_width a, a_write = ac_write a,
          a_value = ac_value a, a_completion = a\<rparr>)), rest)
   | [] \<Rightarrow> (if stopping_now then Ok (Some Shutdown)
            else if closed then Err PlatformError.EventChannelDisconnected
            else Ok None, []))"

definition macos_poll_event :: "bool \<Rightarrow> ('h macos_vm, access Event option, PlatformError) prog" where
  "macos_poll_event closed v = (case (mv_cpus v, mv_events v) of
     (Some c, Some evs) \<Rightarrow> (case poll_channel evs closed (shared_stopping c) of (r, rest) \<Rightarrow> (r, v\<lparr>mv_events := Some rest\<rparr>))
   | _ \<Rightarrow> (Panic, v))"

definition macos_set_irq :: "'h hv \<Rightarrow> u32 \<Rightarrow> bool \<Rightarrow> ('h macos_vm, unit, PlatformError) prog" where
  "macos_set_irq H irq level = on_inner (zoom_snd (spi H irq level))"

definition macos_pause :: "(cpus \<Rightarrow> cpus) \<Rightarrow> ('h macos_vm, PauseOutcome, PlatformError) prog" where
  "macos_pause meanwhile v = (case mv_cpus v of
     None \<Rightarrow> (Panic, v)
   | Some c \<Rightarrow> (let c = meanwhile (pause_begin c) in
       (Ok (if stop_flag c then OutcomeStopping else OutcomePaused), v\<lparr>mv_cpus := Some c\<rparr>)))"

definition macos_resume :: "('h macos_vm, unit, PlatformError) prog" where
  "macos_resume v = (case mv_cpus v of
     None \<Rightarrow> (Panic, v)
   | Some c \<Rightarrow> (Ok (), v\<lparr>mv_cpus := Some (shared_resume c)\<rparr>))"

text \<open>\<open>drain\<close>: every queued event is consumed; the first fault is returned.\<close>

fun drain :: "cpu_event list \<Rightarrow> (unit, PlatformError) result \<Rightarrow> (unit, PlatformError) result" where
  "drain [] fault = fault"
| "drain (Failed e # evs) fault = drain evs (if is_ok fault then Err e else fault)"
| "drain (_ # evs) fault = drain evs fault"

text \<open>\<open>Result::and\<close>.\<close>

definition and_res :: "(unit, 'e) result \<Rightarrow> ('a, 'e) result \<Rightarrow> ('a, 'e) result" where
  "and_res a b = and_then a (\<lambda>_. b)"

text \<open>\<open>stop\<close>: the threads are joined (\<open>late\<close> are the events they still sent, \<open>panicked\<close> which of them
  panicked), then the channel is drained.\<close>

definition macos_stop :: "cpu_event list \<Rightarrow> bool list \<Rightarrow> ('h macos_vm, unit, PlatformError) prog" where
  "macos_stop late panicked v =
     (let joined = (case mv_cpus v of None \<Rightarrow> Ok () | Some c \<Rightarrow> fst (cpus_join panicked c));
          queued = (case mv_cpus v of None \<Rightarrow> [] | Some c \<Rightarrow> late)
      in case mv_events v of
           None \<Rightarrow> (and_res (Ok ()) joined, v\<lparr>mv_cpus := None\<rparr>)
         | Some evs \<Rightarrow> (and_res (drain (evs @ queued) (Ok ())) joined, v\<lparr>mv_cpus := None, mv_events := Some []\<rparr>))"

definition macos_ops ::
  "'h hv \<Rightarrow> ('q, 'm, 'f) boot_env \<Rightarrow> bool \<Rightarrow> (cpus \<Rightarrow> cpus) \<Rightarrow> cpu_event list \<Rightarrow> bool list \<Rightarrow> ('h macos_vm, 'm, access) vm_ops" where
  "macos_ops H E closed meanwhile late panicked = \<lparr>vm_mapper = macos_mapper H, vm_prepare = macos_prepare H E,
     vm_start = macos_start, vm_poll_event = macos_poll_event closed, vm_complete_io = (\<lambda>c value. ret ()),
     vm_set_irq = macos_set_irq H, vm_pause = macos_pause meanwhile, vm_resume = macos_resume,
     vm_stop = macos_stop late panicked\<rparr>"

section \<open>The platform keeps the contract of a mapper\<close>

lemma on_inner_iff: "on_inner f v = (r, v') \<longleftrightarrow> (\<exists>i. f (mv_inner v) = (r, i) \<and> v' = v\<lparr>mv_inner := i\<rparr>)"
  by (auto simp: on_inner_def split: prod.splits)

interpretation macos: mapper "macos_mapper H" "\<lambda>v. hvf_mapped (mv_inner v)" "\<lambda>v. mappings_inv host (fst (mv_inner v))" "region_ok host"
  for H :: "'h hv" and host
proof (unfold_locales, goal_cases)
  case (1 v r v')
  then show ?case using hvf.map_Ok [of host "mv_inner v" r H] by (auto simp: macos_mapper_def hvf_mapper_def on_inner_iff)
next
  case (2 v r e v')
  then show ?case using hvf.map_Err [of host "mv_inner v" r H e] by (auto simp: macos_mapper_def hvf_mapper_def on_inner_iff)
next
  case (3 v r v')
  then show ?case using hvf.unmap_Ok [of host "mv_inner v" r H] by (auto simp: macos_mapper_def hvf_mapper_def on_inner_iff)
next
  case (4 v r e v')
  then show ?case using hvf.unmap_Err [of host "mv_inner v" r H e] by (auto simp: macos_mapper_def hvf_mapper_def on_inner_iff)
next
  case (5 v r)
  then show ?case using hvf.map_returns [of host "mv_inner v" r H]
    by (cases "hvf_map H r (mv_inner v)") (simp add: macos_mapper_def hvf_mapper_def on_inner_def)
next
  case (6 v r)
  then show ?case using hvf.unmap_returns [of host "mv_inner v" r H]
    by (cases "hvf_unmap H r (mv_inner v)") (simp add: macos_mapper_def hvf_mapper_def on_inner_def)
next
  case (7 v r)
  then show ?case using hvf.mapped_valid [of host "mv_inner v" r] by simp
qed

section \<open>The proposed layout\<close>

lemma next_multiple:
  assumes "checked_next_multiple_of a m = Some b"
  shows "unat a \<le> unat b \<and> unat m dvd unat b"
proof (cases "a mod m = 0")
  case True
  with assms show ?thesis
    using is_multiple_of_unat [of a m] by (auto simp: checked_next_multiple_of_def is_multiple_of_def split: if_splits)
next
  case False
  with assms have m: "m \<noteq> 0" and b: "checked_add a (m - a mod m) = Some b"
    by (auto simp: checked_next_multiple_of_def split: if_splits)
  have lt: "unat a mod unat m < unat m" using m by (simp add: unat_gt_0)
  have sub: "unat (m - a mod m) = unat m - unat a mod unat m"
    using lt by (simp add: unat_sub word_le_nat_alt unat_mod_distrib)
  have "unat b = unat a + (unat m - unat a mod unat m)" using checked_add_Some [OF b] sub by simp
  also have "\<dots> = unat a div unat m * unat m + unat m" using lt div_mult_mod_eq [of "unat a" "unat m"] by linarith
  finally show ?thesis using lt mod_less_eq_dividend [of "unat a" "unat m"] sub checked_add_Some [OF b] by (simp add: dvd_add)
qed

lemma check_ipa_Ok:
  "check_ipa H rs h = (Ok (), h') \<Longrightarrow> r \<in> set rs \<Longrightarrow> unat (mr_address r) + unat (mr_size r) < 2 ^ 64"
proof (induction rs arbitrary: h)
  case (Cons x rs)
  from Cons.prems(1) obtain bits h1 where v: "validate_ipa_range (mr_address x) (mr_size x) bits = Ok ()"
    and rest: "check_ipa H rs h1 = (Ok (), h')"
    by (auto simp: prog_defs split: prod.splits result.splits)
  from validate_ipa_range_Ok [OF v] Cons.IH [OF rest] Cons.prems(2) show ?case by auto
qed simp

lemma macos_layout_Ok:
  assumes "macos_layout H kern n config needs h = (Ok l, h')"
  shows "\<exists>boot regions. layout_new (memory_mib config) kern n = Ok boot \<and> virtio_regions (length (rq_devices needs)) = Ok regions \<and>
    vcpu_count config \<noteq> 0 \<and> ml_ram l = [\<lparr>mr_address = RAM, mr_size = word_of_nat (bl_size boot)\<rparr>] \<and>
    ml_uart l = \<lparr>io_space = SpaceMmio, io_address = UART, io_size = UART_SIZE, io_irq = UART_IRQ\<rparr> \<and>
    ml_virtio l = map virtio_io regions \<and> macos_hotplug (ml_ram l ! 0) (rq_hotplug needs) = Ok (ml_hotplug l) \<and>
    (\<forall>r. ml_hotplug l = Some r \<longrightarrow> unat (mr_address r) + unat (mr_size r) < 2 ^ 64)"
proof -
  from assms obtain boot hotplug regions h1 h2 where
    boot: "layout_new (memory_mib config) kern n = Ok boot" and v: "1 \<le> vcpu_count config"
    and hp: "macos_hotplug \<lparr>mr_address = RAM, mr_size = word_of_nat (bl_size boot)\<rparr> (rq_hotplug needs) = Ok hotplug"
    and ipa: "check_ipa H (\<lparr>mr_address = RAM, mr_size = word_of_nat (bl_size boot)\<rparr> #
      (case hotplug of None \<Rightarrow> [] | Some r \<Rightarrow> [r])) h1 = (Ok (), h2)"
    and vr: "virtio_regions (length (rq_devices needs)) = Ok regions"
    and l: "l = \<lparr>ml_ram = [\<lparr>mr_address = RAM, mr_size = word_of_nat (bl_size boot)\<rparr>],
          ml_uart = \<lparr>io_space = SpaceMmio, io_address = UART, io_size = UART_SIZE, io_irq = UART_IRQ\<rparr>,
          ml_virtio = map virtio_io regions, ml_hotplug = hotplug\<rparr>"
    unfolding macos_layout_def bnd_def pure_res_def throw_def ret_def Let_def
    by (auto split: prod.splits result.splits if_splits)
  have "\<forall>r. hotplug = Some r \<longrightarrow> unat (mr_address r) + unat (mr_size r) < 2 ^ 64"
    using check_ipa_Ok [OF ipa] by auto
  moreover have "vcpu_count config \<noteq> 0" using v by auto
  ultimately show ?thesis using boot vr hp l by auto
qed

text \<open>The windows of the layout, by their bounds.\<close>

lemma virtio_window_bounds:
  assumes "virtio_regions n = Ok rs" and "i < n"
  shows "io_window (virtio_io (rs ! i)) = (SpaceMmio, vr_address (rs ! i), 0x1000) \<and>
    unat (vr_address (rs ! i)) = 0x0a000000 + i * 0x1000 \<and> i < 986"
  using virtio_regions_nth [OF assms] assms(2) by (simp add: io_window_def virtio_io_def VIRTIO_STRIDE_def)

lemma virtio_windows_ok:
  assumes "virtio_regions n = Ok rs"
  shows "list_all window_ok (map (io_window \<circ> virtio_io) rs) \<and> sorted_wrt apart (map (io_window \<circ> virtio_io) rs)"
proof -
  have len: "length rs = n" using assms by (auto simp: virtio_regions_def split: if_splits)
  note b = virtio_window_bounds [OF assms]
  have "window_ok (io_window (virtio_io (rs ! i)))" if "i < n" for i
    using b [OF that] by (simp add: window_ok_def)
  moreover have "apart (io_window (virtio_io (rs ! i))) (io_window (virtio_io (rs ! j)))" if "i < j" "j < n" for i j
    using b [of i] b [OF that(2)] that by (simp add: apart_def)
  ultimately show ?thesis using len by (auto simp: list_all_length sorted_wrt_iff_nth_less)
qed

lemma virtio_windows_range:
  assumes "virtio_regions n = Ok rs" and "w \<in> set (map (io_window \<circ> virtio_io) rs)"
  shows "\<exists>a. w = (SpaceMmio, a, 0x1000) \<and> 0x0a000000 \<le> unat a \<and> unat a + 0x1000 \<le> 0x0a000000 + 986 * 0x1000"
proof -
  have len: "length rs = n" using assms(1) by (auto simp: virtio_regions_def split: if_splits)
  from assms(2) obtain i where "i < length rs" "w = io_window (virtio_io (rs ! i))" by (auto simp: in_set_conv_nth)
  with virtio_window_bounds [OF assms(1), of i] len show ?thesis by auto
qed

text \<open>A window above the RAM, which is where the hotplug range is placed.\<close>

lemma hotplug_above:
  assumes "macos_hotplug \<lparr>mr_address = RAM, mr_size = n\<rparr> need = Ok hotplug" and "unat RAM + unat n < 2 ^ 64"
    and "\<And>r. hotplug = Some r \<Longrightarrow> unat (mr_address r) + unat (mr_size r) < 2 ^ 64"
    and "list_all (\<lambda>r. rq_capacity r \<noteq> 0) (case need of None \<Rightarrow> [] | Some r \<Rightarrow> [r])"
  shows "hotplug_matches hotplug need \<and> (\<forall>w \<in> set (case hotplug of None \<Rightarrow> [] | Some r \<Rightarrow> [ram_window r]).
    window_ok w \<and> (\<exists>a k. w = (SpaceMmio, a, k) \<and> unat RAM + unat n \<le> unat a))"
proof (cases need)
  case None
  with assms(1) show ?thesis by (simp add: macos_hotplug_def hotplug_matches_def)
next
  case (Some q)
  with assms(1) obtain e a where e: "checked_add RAM n = Some e"
    and a: "checked_next_multiple_of e (rq_alignment q) = Some a"
    and h: "hotplug = Some \<lparr>mr_address = a, mr_size = rq_capacity q\<rparr>"
    by (auto simp: macos_hotplug_def and_then_Ok_iff split: bind_splits)
  have "unat RAM + unat n \<le> unat a" using checked_add_Some [OF e] next_multiple [OF a] by simp
  with Some h next_multiple [OF a] assms(3) [OF h] assms(4) show ?thesis
    by (simp add: hotplug_matches_def window_ok_def ram_window_def)
qed

text \<open>RAM, UART, the virtio windows and what lies above the RAM are sound and disjoint.\<close>

lemma machine_windows:
  fixes n :: u64
  assumes "virtio_regions k = Ok rs" and "n \<noteq> 0" and "unat RAM + unat n < 2 ^ 64"
    and "\<forall>w \<in> set hs. window_ok w \<and> (\<exists>a m. w = (SpaceMmio, a, m) \<and> unat RAM + unat n \<le> unat a)" and "length hs \<le> 1"
  defines "ws \<equiv> (SpaceMmio, RAM, n) # (SpaceMmio, UART, UART_SIZE) # map (io_window \<circ> virtio_io) rs @ hs"
  shows "list_all window_ok ws \<and> sorted_wrt apart ws"
proof -
  let ?v = "map (io_window \<circ> virtio_io) rs" and ?r = "(SpaceMmio, RAM, n)" and ?u = "(SpaceMmio, UART, UART_SIZE)"
  note v = virtio_windows_range [OF assms(1)] and vok = virtio_windows_ok [OF assms(1)]
  have "window_ok ?r" "window_ok ?u" using assms(2,3) by (simp_all add: window_ok_def UART_def UART_SIZE_def)
  then have ok: "list_all window_ok ws" using vok assms(4) by (auto simp: ws_def list_all_iff)
  have hb: "\<exists>a m. w = (SpaceMmio, a, m) \<and> 0x40000000 + unat n \<le> unat a" if "w \<in> set hs" for w
    using assms(4) that unfolding RAM_def by fastforce
  have rv: "apart ?r w" "apart ?u w" if "w \<in> set ?v" for w
    using v [OF that] by (auto simp: apart_def UART_def UART_SIZE_def RAM_def)
  have rh: "apart ?r w" "apart ?u w" if "w \<in> set hs" for w
    using hb [OF that] by (auto simp: apart_def UART_def UART_SIZE_def RAM_def)
  have vh: "apart x y" if "x \<in> set ?v" "y \<in> set hs" for x y
    using v [OF that(1)] hb [OF that(2)] by (auto simp: apart_def)
  have "apart ?r ?u" by (simp add: apart_def UART_def UART_SIZE_def RAM_def)
  moreover have "sorted_wrt apart ?v" using vok by blast
  moreover have "sorted_wrt apart hs" using assms(5) by (cases hs; cases "tl hs") auto
  ultimately have "sorted_wrt apart ws"
    unfolding ws_def sorted_wrt.simps sorted_wrt_append list.set(2) set_append using rv rh vh by blast
  with ok show ?thesis by blast
qed

text \<open>C23. Whatever layout the built-in platform proposes for a configuration and a set of devices, the
  runtime's validation accepts it: all windows are sound and disjoint, at any memory size, device count
  and hotplug requirement of nonzero capacity.\<close>

theorem macos_layout_accepted:
  assumes "macos_layout H kern n config needs h = (Ok l, h')" and "n < 2 ^ 64"
    and "list_all (\<lambda>r. rq_capacity r \<noteq> 0) (case rq_hotplug needs of None \<Rightarrow> [] | Some r \<Rightarrow> [r])"
  shows "validate l config needs = Ok ()"
proof -
  obtain boot regions where boot: "layout_new (memory_mib config) kern n = Ok boot"
    and vr: "virtio_regions (length (rq_devices needs)) = Ok regions" and v: "vcpu_count config \<noteq> 0"
    and ram: "ml_ram l = [\<lparr>mr_address = RAM, mr_size = word_of_nat (bl_size boot)\<rparr>]"
    and uart: "ml_uart l = \<lparr>io_space = SpaceMmio, io_address = UART, io_size = UART_SIZE, io_irq = UART_IRQ\<rparr>"
    and vl: "ml_virtio l = map virtio_io regions"
    and hp: "macos_hotplug (ml_ram l ! 0) (rq_hotplug needs) = Ok (ml_hotplug l)"
    and hend: "\<And>r. ml_hotplug l = Some r \<Longrightarrow> unat (mr_address r) + unat (mr_size r) < 2 ^ 64"
    using macos_layout_Ok [OF assms(1)] by blast
  let ?n = "word_of_nat (bl_size boot) :: u64" and ?h = "case ml_hotplug l of None \<Rightarrow> [] | Some r \<Rightarrow> [ram_window r]"
  have lay: "bl_size boot = unat (memory_mib config) * 2 ^ 20" "unat RAM + bl_size boot < 2 ^ 64" "0 < bl_size boot"
    using layout_bounds [OF boot assms(2)] by simp_all
  have sz: "unat ?n = bl_size boot" using lay(2) by (simp add: unat_of_nat take_bit_eq_mod)
  have n0: "?n \<noteq> 0" using sz lay(3) by (metis unsigned_0 less_numeral_extra(3))
  have end64: "unat RAM + unat ?n < 2 ^ 64" using lay(2) sz by simp
  have hp': "macos_hotplug \<lparr>mr_address = RAM, mr_size = ?n\<rparr> (rq_hotplug needs) = Ok (ml_hotplug l)" using hp ram by simp
  note above = hotplug_above [OF hp' end64 hend assms(3)]
  have "length ?h \<le> 1" by (simp split: option.splits)
  from machine_windows [OF vr n0 end64 conjunct2 [OF above] this]
  have "list_all window_ok (windows l) \<and> sorted_wrt apart (windows l)"
    using ram uart vl by (simp add: windows_def ram_window_def io_window_def)
  moreover have "list_all (\<lambda>r. io_space r = SpaceMmio \<and> 0x200 \<le> io_size r) (ml_virtio l)"
    using vl by (simp add: list_all_iff virtio_io_def VIRTIO_STRIDE_def)
  moreover have "length regions = length (rq_devices needs)" using vr by (auto simp: virtio_regions_def split: if_splits)
  ultimately show ?thesis
    unfolding validate_char using v ram uart vl above lay(1) end64 sz by (simp add: UART_SIZE_def)
qed

section \<open>Faults\<close>

fun faults :: "cpu_event list \<Rightarrow> PlatformError list" where
  "faults [] = []"
| "faults (Failed e # evs) = e # faults evs"
| "faults (_ # evs) = faults evs"

text \<open>Poll the channel several times; the errors it returned and what is left.\<close>

fun poll_times :: "nat \<Rightarrow> cpu_event list \<Rightarrow> bool \<Rightarrow> bool \<Rightarrow> PlatformError list \<times> cpu_event list" where
  "poll_times 0 evs closed st = ([], evs)"
| "poll_times (Suc k) evs closed st =
     (case poll_channel evs closed st of (r, rest) \<Rightarrow>
       (case poll_times k rest closed st of (es, rest') \<Rightarrow>
         ((case r of Err e \<Rightarrow> [e] | _ \<Rightarrow> []) @ es, rest')))"

lemma drain_first: "drain evs fault = (if is_ok fault then (case faults evs of [] \<Rightarrow> fault | e # _ \<Rightarrow> Err e) else fault)"
  by (induction evs fault rule: drain.induct) (auto split: list.splits)

text \<open>No fault of a vCPU is lost or reported twice: the errors returned by polling, followed by the faults
  still queued, are the faults that were sent, in order; stopping returns the first one not yet
  returned, and a second stop succeeds.\<close>

theorem faults_reported_once:
  assumes "poll_times k evs closed st = (es, rest)" and "st \<or> \<not> closed" and "mv_events v = Some rest" and "mv_cpus v = Some c"
    and "macos_stop late panicked v = (r, v')"
  shows "es @ faults rest = faults evs \<and>
    r = (case faults (rest @ late) of e # _ \<Rightarrow> Err e | [] \<Rightarrow> fst (cpus_join panicked c)) \<and>
    macos_stop [] [] v' = (Ok (), v')"
proof -
  have "es @ faults rest = faults evs"
    using assms(1)
  proof (induction k arbitrary: evs es)
    case (Suc k)
    obtain r0 rest0 where p: "poll_channel evs closed st = (r0, rest0)" by fastforce
    obtain es1 where q: "poll_times k rest0 closed st = (es1, rest)" and es: "es = (case r0 of Err e \<Rightarrow> [e] | _ \<Rightarrow> []) @ es1"
      using Suc.prems p by (auto split: prod.splits)
    have "(case r0 of Err e \<Rightarrow> [e] | _ \<Rightarrow> []) @ faults rest0 = faults evs"
      using p assms(2) by (cases evs) (auto simp: poll_channel_def split: cpu_event.splits if_splits)
    with Suc.IH [OF q] es show ?case by auto
  qed simp
  with assms(3-5) show ?thesis
    by (auto simp: macos_stop_def and_res_def drain_first Let_def split: list.splits)
qed

end
