(* ===== verification/Text.thy ===== *)
theory Text
  imports Prelude
begin

text \<open>
  The text operations of the standard library that the command line and the diagnostics of the demo
  program use: decimal numbers (\<open>Display\<close> of the unsigned integers), splitting at a separator, UTF-8 bytes
  of ASCII text. Lemmas: a decimal number determines its value; a split puts back what it took apart.
\<close>

definition digit :: "nat \<Rightarrow> char" where
  "digit n = char_of (48 + n)"

fun decimal :: "nat \<Rightarrow> string" where
  "decimal n = (if n < 10 then [digit n] else decimal (n div 10) @ [digit (n mod 10)])"

declare decimal.simps [simp del]

definition digit_value :: "char \<Rightarrow> nat" where
  "digit_value c = of_char c - 48"

lemma digit_value_digit [simp]: "n < 10 \<Longrightarrow> digit_value (digit n) = n"
  by (simp add: digit_def digit_value_def of_char_of)

lemma decimal_value: "foldl (\<lambda>a c. 10 * a + digit_value c) 0 (decimal n) = n"
proof (induction n rule: decimal.induct)
  case (1 n)
  then show ?case
  proof (cases "n < 10")
    case False
    with 1 have "foldl (\<lambda>a c. 10 * a + digit_value c) 0 (decimal (n div 10)) = n div 10" by blast
    with False show ?thesis by (simp add: decimal.simps [of n])
  qed (simp add: decimal.simps [of n])
qed

lemma decimal_inject [simp]: "decimal m = decimal n \<longleftrightarrow> m = n"
  by (metis decimal_value)

lemma decimal_not_Nil [simp]: "decimal n \<noteq> []"
  by (simp add: decimal.simps [of n])

text \<open>\<open>str::split_once\<close> at a character.\<close>

fun split_once :: "char \<Rightarrow> string \<Rightarrow> (string \<times> string) option" where
  "split_once c [] = None"
| "split_once c (x # xs) = (if x = c then Some ([], xs) else map_option (\<lambda>(a, b). (x # a, b)) (split_once c xs))"

lemma split_once_Some: "split_once c s = Some (a, b) \<longleftrightarrow> s = a @ c # b \<and> c \<notin> set a"
proof (induction s arbitrary: a)
  case (Cons x s)
  then show ?case by (cases a) (auto split: option.splits)
qed simp

lemma split_once_None: "split_once c s = None \<longleftrightarrow> c \<notin> set s"
  by (induction s) auto

text \<open>The bytes of a string of ASCII characters.\<close>

definition ascii :: "string \<Rightarrow> bytes" where
  "ascii s = map (\<lambda>c. word_of_nat (of_char c)) s"

lemma length_ascii [simp]: "length (ascii s) = length s"
  by (simp add: ascii_def)

text \<open>\<open>Display\<close> of signed integers and of booleans, and \<open>{:#x}\<close>.\<close>

definition signed_decimal :: "int \<Rightarrow> string" where
  "signed_decimal i = (if i < 0 then ''-'' else []) @ decimal (nat \<bar>i\<bar>)"

definition bool_text :: "bool \<Rightarrow> string" where
  "bool_text b = (if b then ''true'' else ''false'')"

definition lower_hex_digit :: "nat \<Rightarrow> char" where
  "lower_hex_digit n = (if n < 10 then digit n else char_of (87 + n))"

fun lower_hex_digits :: "nat \<Rightarrow> string" where
  "lower_hex_digits n = (if n < 16 then [lower_hex_digit n] else lower_hex_digits (n div 16) @ [lower_hex_digit (n mod 16)])"

declare lower_hex_digits.simps [simp del]

definition lower_hex :: "'a::len word \<Rightarrow> string" where
  "lower_hex w = ''0x'' @ lower_hex_digits (unat w)"

text \<open>\<open>Debug\<close> of text (ASCII) and of an optional text.\<close>

definition quote :: char where
  "quote = CHR 0x27"

definition debug_char :: "char \<Rightarrow> string" where
  "debug_char c =
     (if c = CHR 0x22 then [CHR 0x5c, CHR 0x22] else if c = CHR 0x5c then [CHR 0x5c, CHR 0x5c]
      else if c = CHR 0x0a then [CHR 0x5c, CHR ''n''] else if c = CHR 0x0d then [CHR 0x5c, CHR ''r'']
      else if c = CHR 0x09 then [CHR 0x5c, CHR ''t''] else if c = CHR 0x00 then [CHR 0x5c, CHR ''0'']
      else if (of_char c :: nat) < 32 \<or> c = CHR 0x7f then [CHR 0x5c, CHR ''u'', CHR 0x7b] @ lower_hex_digits (of_char c) @ [CHR 0x7d]
      else [c])"

definition debug_text :: "string \<Rightarrow> string" where
  "debug_text s = [CHR 0x22] @ concat (map debug_char s) @ [CHR 0x22]"

definition debug_option :: "string option \<Rightarrow> string" where
  "debug_option p = (case p of None \<Rightarrow> ''None'' | Some s \<Rightarrow> ''Some('' @ debug_text s @ '')'')"

end
