(* ===== verification/Messages.thy ===== *)
theory Messages
  imports Errors Text "HOL-Library.Sublist"
begin

text \<open>
  What the errors of \<open>src/src/error.rs\<close> say: for each enum the chain of messages of an error, its own \<open>Display\<close> first and then
  those of its causes (\<open>Error::source\<close>). A transparent variant shows the error it contains and has its causes. Errors of
  other crates and of the host are their rendered message; the causes they have themselves are the parameter \<open>X\<close>.
  Lemmas: a diagnostic shows every message of the chain; except for a failed rollback it repeats none of them.
\<close>

type_synonym causes = "ext_error \<Rightarrow> string list"

section \<open>Errors of the standard library\<close>

fun io_chain :: "causes \<Rightarrow> IoError \<Rightarrow> string list" where
  "io_chain X (IoError k m) = m # X m"

fun recv_message :: "RecvTimeoutError \<Rightarrow> string" where
  "recv_message RecvTimeoutError.Timeout = ''timed out waiting on channel''"
| "recv_message RecvTimeoutError.Disconnected = ''channel is empty and sending half is closed''"

section \<open>The error enums\<close>

text \<open>An error with a message of its own that ends with that of its cause.\<close>

definition caused :: "string \<Rightarrow> string list \<Rightarrow> string list" where
  "caused p cause = (p @ hd cause) # cause"

primrec storage_chain :: "causes \<Rightarrow> StorageError \<Rightarrow> string list" where
  "storage_chain X StorageError.ReadOnly = [''disk is read-only'']"
| "storage_chain X (StorageError.CapacityMismatch x y) = [''qcow2 capacity mismatch: expected '' @ decimal (unat x) @ '', got '' @
    decimal (unat y)]"
| "storage_chain X StorageError.NotRegularFile = [''disk must be a regular file'']"
| "storage_chain X (StorageError.InvalidCapacity sz) = [''disk capacity must be a positive multiple of 512 (got '' @ decimal (unat sz) @ '')'']"
| "storage_chain X (StorageError.InvalidHeaderLength l) = [''invalid header length '' @ decimal (unat l)]"
| "storage_chain X (StorageError.IncompatibleFeatures _) =
    [''qcow2 incompatible features (dirty/corrupt/external/compressed/extended) unsupported; run qemu-img check'']"
| "storage_chain X StorageError.InternalSnapshotsUnsupported = [''internal snapshots unsupported'']"
| "storage_chain X StorageError.EncryptedImagesUnsupported = [''encrypted images unsupported'']"
| "storage_chain X (StorageError.InvalidQcow2ClusterSize bits) = [''invalid qcow2 cluster size '' @ decimal (unat bits)]"
| "storage_chain X StorageError.BackingChainsUnsupported = [''backing chains unsupported'']"
| "storage_chain X (StorageError.UnsupportedVersion version) = [''only qcow2 v2/v3 supported (got '' @ decimal (unat version) @ '')'']"
| "storage_chain X StorageError.InvalidHeader = [''invalid/truncated qcow2 header'']"
| "storage_chain X (StorageError.OutOfBounds sz off n) = [''disk request out of bounds: offset '' @ decimal (unat off) @ '', length '' @
    decimal n @ '', capacity '' @ decimal (unat sz)]"
| "storage_chain X (StorageError.Backend e) = e # X e"
| "storage_chain X (StorageError.Io e) = io_chain X e"
| "storage_chain X (StorageError.Operation op file source) = caused (op @ '' '' @ debug_text file @ '': '') (io_chain X source)"

primrec net_chain :: "causes \<Rightarrow> NetError \<Rightarrow> string list" where
  "net_chain X (NetError.InvalidVmnetRxFrameSize l cap) = [''invalid vmnet RX frame size '' @ decimal l @ '', capacity '' @ decimal cap]"
| "net_chain X (NetError.InvalidVmnetRxCount n) = [''invalid vmnet RX count '' @ signed_decimal n]"
| "net_chain X (NetError.VmnetRxBufferTooSmall l cap) = [''vmnet RX buffer too small: '' @ decimal l @ '', need '' @ decimal cap]"
| "net_chain X (NetError.InvalidVmnetTxCount n) = [''invalid vmnet TX count '' @ signed_decimal n]"
| "net_chain X (NetError.InvalidVmnetTxFrameSize l cap) = [''invalid vmnet TX frame size '' @ decimal l @ '', capacity '' @ decimal cap]"
| "net_chain X NetError.CreateVmnetDescription = [''create vmnet description'']"
| "net_chain X NetError.InvalidVmnetFrameCapacity = [''invalid vmnet frame capacity'']"
| "net_chain X (NetError.UnexpectedMtu mtu) = [''vmnet returned unexpected MTU '' @ decimal (unat mtu)]"
| "net_chain X NetError.MissingVmnetInterfaceParameters = [''missing vmnet interface parameters'']"
| "net_chain X NetError.InvalidVmnetMacAddress = [''invalid vmnet MAC address'']"
| "net_chain X (NetError.Vmnet op st) = [op @ '': vmnet error '' @ decimal (unat st)]"
| "net_chain X (NetError.PermissionDenied op st) = [op @ '': vmnet permission denied ('' @ decimal (unat st) @
    ''); run with root privileges or an Apple-approved com.apple.vm.networking entitlement'']"
| "net_chain X (NetError.Backend e) = e # X e"
| "net_chain X (NetError.Integer e) = [e]"
| "net_chain X (NetError.Utf8 e) = [e]"
| "net_chain X (NetError.MacParse e) = caused ''invalid vmnet MAC address: '' [e]"
| "net_chain X (NetError.Wait op source) = caused (op @ '': '') [recv_message source]"
| "net_chain X (NetError.Start e) = caused
    ''create vmnet shared interface (requires root or an Apple-approved networking entitlement): '' (net_chain X e)"
| "net_chain X NetError.MissingMac = [''missing vmnet MAC'']"
| "net_chain X NetError.MissingInterface = [''start vmnet returned no interface (check root/networking entitlement)'']"
| "net_chain X NetError.Closed = [''vmnet interface is closed'']"

primrec boot_chain :: "causes \<Rightarrow> BootError \<Rightarrow> string list" where
  "boot_chain X BootError.LoaderLayoutDisagreement = [''loader/layout disagreement'']"
| "boot_chain X (BootError.FdtExceedsReservedSpace l) = [''FDT exceeds reserved space: '' @ decimal l]"
| "boot_chain X BootError.AtLeastOneCpuRequired = [''at least one CPU required'']"
| "boot_chain X (BootError.TooManyVirtioDevicesForGicSpis n) = [''too many virtio devices for GIC SPIs: '' @ decimal n]"
| "boot_chain X BootError.KernelInitramfsFdtOverlapOrExceedRam = [''kernel/initramfs/FDT overlap or exceed RAM'']"
| "boot_chain X BootError.ImageSizeOverflow = [''Image size overflow'']"
| "boot_chain X (BootError.InitrdTooLarge l) = [''initrd too large: '' @ decimal l]"
| "boot_chain X BootError.RamAddressOverflow = [''RAM address overflow'']"
| "boot_chain X (BootError.RamExceedsHostAllocationSize sz) = [''RAM size '' @ decimal sz @ '' exceeds host allocation size'']"
| "boot_chain X (BootError.KernelOffsetOverflow off) = [''kernel offset overflow: '' @ lower_hex off]"
| "boot_chain X (BootError.UnalignedKernelTextOffset off) = [''unaligned kernel text offset '' @ lower_hex off]"
| "boot_chain X BootError.BigEndianKernelUnsupported = [''big endian kernel unsupported'']"
| "boot_chain X BootError.LegacyImageWithoutImageSizeIsUnsupported = [''legacy Image without image_size is unsupported'']"
| "boot_chain X BootError.InvalidArm64Image = [''invalid ARM64 Image'']"
| "boot_chain X (BootError.MemoryMustBeAtLeast128Mib mib) = [''memory must be at least 128 MiB (got '' @ decimal (unat mib) @ '')'']"
| "boot_chain X (BootError.IpaRange a b bits) = [''memory range '' @ lower_hex a @ ''..'' @ lower_hex b @ '' exceeds HVF '' @ decimal (unat bits) @
    ''-bit IPA range'']"
| "boot_chain X (BootError.MemoryAddressOverflow a sz) = [''memory address overflow: start '' @ lower_hex a @ '', size '' @ decimal (unat sz)]"
| "boot_chain X (BootError.InvalidIpaWidth bits) = [''invalid HVF IPA width '' @ decimal (unat bits)]"
| "boot_chain X (BootError.MemoryCapacityConversionOverflow mib) = [''memory capacity conversion overflow: '' @ decimal (unat mib) @ '' MiB'']"
| "boot_chain X (BootError.Integer e) = [e]"
| "boot_chain X (BootError.GuestAccess e) = e # X e"
| "boot_chain X (BootError.Fdt e) = e # X e"
| "boot_chain X (BootError.Loader e) = e # X e"

primrec platform_chain :: "causes \<Rightarrow> PlatformError \<Rightarrow> string list" and memory_chain :: "causes \<Rightarrow> MemoryError \<Rightarrow> string list" where
  "platform_chain X PlatformError.NoDefaultPlatform = [''no default platform; use Vmm::run_with_platform'']"
| "platform_chain X PlatformError.HotplugLayoutMismatch = [''hotplug layout mismatch'']"
| "platform_chain X (PlatformError.InvalidHotplugCapacityAlignment addr sz cap alignment) = [''invalid hotplug capacity/alignment: address '' @
    lower_hex addr @ '', size '' @ decimal (unat sz) @ '', capacity '' @ decimal (unat cap) @ '', alignment '' @ decimal (unat alignment)]"
| "platform_chain X PlatformError.InvalidVirtioMmioRegion = [''invalid virtio MMIO region'']"
| "platform_chain X (PlatformError.RamCapacityMismatch expected_mib y) = [''RAM capacity mismatch: expected '' @ decimal (unat expected_mib) @
    '' MiB, got '' @ decimal (unat y) @ '' bytes'']"
| "platform_chain X (PlatformError.RamCapacityOverflow ttl sz) = [''RAM capacity overflow: '' @ decimal (unat ttl) @ '' + '' @
    decimal (unat sz)]"
| "platform_chain X (PlatformError.OverlappingRegions addr sz) = [''overlapping regions: address '' @ lower_hex addr @ '', size '' @ decimal (unat sz)]"
| "platform_chain X (PlatformError.PortRangeOverflow addr sz) = [''port range overflow: address '' @ lower_hex addr @ '', size '' @ decimal (unat sz)]"
| "platform_chain X (PlatformError.RegionOverflow addr sz) = [''region overflow: address '' @ lower_hex addr @ '', size '' @ decimal (unat sz)]"
| "platform_chain X PlatformError.EmptyRegion = [''empty region'']"
| "platform_chain X (PlatformError.UartRegionTooSmall sz) = [''UART region too small: '' @ decimal (unat sz)]"
| "platform_chain X (PlatformError.DeviceCountMismatch x y) = [''device count mismatch: expected '' @ decimal x @ '', got '' @ decimal y]"
| "platform_chain X PlatformError.NoBaseRam = [''no base RAM'']"
| "platform_chain X PlatformError.InvalidVcpuCount = [''vCPU count must be positive'']"
| "platform_chain X PlatformError.EventChannelDisconnected = [''all vCPU event senders disconnected'']"
| "platform_chain X PlatformError.VmNotPrepared = [''VM not prepared'']"
| "platform_chain X PlatformError.HotplugOverflow = [''hotplug overflow'']"
| "platform_chain X PlatformError.UnsupportedVcpuCount = [''vCPU count outside HVF supported range'']"
| "platform_chain X PlatformError.HvfHostPageAlignment = [''HVF host-page alignment'']"
| "platform_chain X PlatformError.GicOverlapsRam = [''GIC overlaps RAM'']"
| "platform_chain X PlatformError.CreateGicConfiguration = [''create GIC configuration'']"
| "platform_chain X (PlatformError.GicSpiRange b0 b) = [''too many devices for host GIC SPI range '' @ decimal (unat b0) @ ''..'' @
    decimal (unat b)]"
| "platform_chain X PlatformError.InvalidGicSpiRange = [''invalid GIC SPI range'']"
| "platform_chain X (PlatformError.Hypervisor op code) = [op @ '': Hypervisor.framework error '' @ lower_hex code]"
| "platform_chain X (PlatformError.UnexpectedHvfExit reason syndrome) = [''unexpected HVF exit '' @ decimal (unat reason) @ '', ESR='' @
    lower_hex syndrome]"
| "platform_chain X (PlatformError.UnhandledException syndrome addr pc) = [''unhandled HVF exception: ESR='' @ lower_hex syndrome @ '', address='' @
    lower_hex addr @ '', PC='' @ lower_hex pc]"
| "platform_chain X (PlatformError.UnsupportedSysreg sysreg esr) = [''unsupported sysreg '' @ lower_hex sysreg @ '', ESR='' @ lower_hex esr]"
| "platform_chain X (PlatformError.UnsupportedDataAbort syndrome addr) = [''unsupported data abort: ESR='' @ lower_hex syndrome @ '', address='' @
    lower_hex addr]"
| "platform_chain X PlatformError.VcpuInitializationThreadFailed = [''vCPU initialization thread failed'']"
| "platform_chain X PlatformError.VcpuThreadPanicked = [''vCPU thread panicked'']"
| "platform_chain X PlatformError.StartupCancelled = [''startup cancelled'']"
| "platform_chain X (PlatformError.MmioReplyDisconnected addr) = [''MMIO reply channel disconnected: address '' @ lower_hex addr]"
| "platform_chain X (PlatformError.MappingOverlap addr sz) = [''guest range overlaps an existing mapping: address '' @ lower_hex addr @ '', size '' @
    decimal (unat sz)]"
| "platform_chain X (PlatformError.MappingNotFound addr sz) = [''no mapping matches guest range: address '' @ lower_hex addr @ '', size '' @
    decimal (unat sz)]"
| "platform_chain X (PlatformError.MappingMismatch addr sz) = [''mapped allocation differs from region: address '' @ lower_hex addr @ '', size '' @
    decimal (unat sz)]"
| "platform_chain X (PlatformError.Backend e) = e # X e"
| "platform_chain X (PlatformError.Memory e) = memory_chain X e"
| "platform_chain X (PlatformError.Boot e) = boot_chain X e"
| "platform_chain X (PlatformError.Integer e) = [e]"
| "platform_chain X (PlatformError.Io e) = io_chain X e"
| "memory_chain X MemoryError.Stopped = [''VM has stopped'']"
| "memory_chain X (MemoryError.InvalidTarget requested cap block_size_mib) = [''requested memory '' @ decimal (unat requested) @
    '' MiB must be a multiple of '' @ decimal (unat block_size_mib) @ '' MiB within region capacity '' @ decimal (unat cap) @ '' MiB'']"
| "memory_chain X (MemoryError.CapacityOverflow mib) = [''memory capacity overflow: '' @ decimal (unat mib) @ '' MiB'']"
| "memory_chain X MemoryError.ReadableDescriptorAfterWritableDescriptor = [''readable descriptor after writable descriptor'']"
| "memory_chain X (MemoryError.InvalidVirtioMemRequestBuffers read wr) = [''invalid virtio-mem request buffers: readable '' @ decimal read @
    '', writable '' @ decimal wr]"
| "memory_chain X MemoryError.IpaOverflow = [''IPA overflow'']"
| "memory_chain X MemoryError.HotplugOverflow = [''hotplug overflow'']"
| "memory_chain X (MemoryError.HotplugAlignment addr alignment) = [''hotplug address '' @ lower_hex addr @ '' must align to '' @
    decimal (unat alignment) @ '' bytes'']"
| "memory_chain X (MemoryError.InvalidRegionSize mib alignment_mib) = [''virtio-mem region must be a positive multiple of '' @
    decimal (unat alignment_mib) @ '' MiB (got '' @ decimal (unat mib) @ '')'']"
| "memory_chain X (MemoryError.InvalidBlockSize mib) = [''virtio-mem block size must be a representable power of two MiB (got '' @
    decimal (unat mib) @ '')'']"
| "memory_chain X (MemoryError.RollbackFailed source undo) = (''memory mapping rollback failed; stopping VM: '' @ hd (memory_chain X source) @
    ''; rollback: '' @ hd (memory_chain X undo)) # memory_chain X source"
| "memory_chain X (MemoryError.Backend e) = e # X e"
| "memory_chain X (MemoryError.GuestMemory e) = e # X e"
| "memory_chain X (MemoryError.GuestAccess e) = e # X e"
| "memory_chain X (MemoryError.Slice e) = [e]"
| "memory_chain X (MemoryError.Mapping e) = caused ''memory mapping: '' (platform_chain X e)"
| "memory_chain X (MemoryError.Regions e) = e # X e"

primrec device_chain :: "causes \<Rightarrow> DeviceError \<Rightarrow> string list" where
  "device_chain X DeviceError.InvalidGetId = [''invalid GET_ID'']"
| "device_chain X DeviceError.InvalidFlush = [''invalid FLUSH'']"
| "device_chain X (DeviceError.SectorOverflow sector) = [''sector overflow: '' @ decimal (unat sector)]"
| "device_chain X DeviceError.WriteToReadOnlyDisk = [''write to read-only disk'']"
| "device_chain X (DeviceError.UnalignedBlockRequest l) = [''unaligned block request: length '' @ decimal l]"
| "device_chain X DeviceError.BlockDescriptorDirectionMismatch = [''block descriptor direction mismatch'']"
| "device_chain X DeviceError.RequestLengthOverflow = [''request length overflow'']"
| "device_chain X DeviceError.InvalidBlockHeaderStatus = [''invalid block header/status'']"
| "device_chain X DeviceError.TruncatedBlockDescriptorChain = [''truncated block descriptor chain'']"
| "device_chain X (DeviceError.InvalidBlockName _) = [''block name must be 1..20 ASCII letters, digits, '' @ [quote] @ ''.'' @ [quote] @ '', '' @
    [quote] @ ''_'' @ [quote] @ '' or '' @ [quote] @ ''-'' @ [quote]]"
| "device_chain X DeviceError.MissingBlockChain = [''missing block chain'']"
| "device_chain X DeviceError.RxLengthOverflow = [''RX length overflow'']"
| "device_chain X DeviceError.RxDescriptorMustBeWritable = [''RX descriptor must be writable'']"
| "device_chain X DeviceError.MissingRxChain = [''missing RX chain'']"
| "device_chain X (DeviceError.InvalidBackendRxPacketSize l cap) = [''invalid backend RX packet size '' @ decimal l @ '', capacity '' @
    decimal cap]"
| "device_chain X DeviceError.UnnegotiatedTxChecksumGsoOffload = [''unnegotiated TX checksum/GSO offload'']"
| "device_chain X (DeviceError.InvalidTxPacketSize l cap) = [''invalid TX packet size '' @ decimal l @ '', capacity '' @ decimal cap]"
| "device_chain X DeviceError.TxLengthOverflow = [''TX length overflow'']"
| "device_chain X DeviceError.TxDescriptorMustBeReadable = [''TX descriptor must be readable'']"
| "device_chain X DeviceError.NetworkMacMustBeNonzeroUnicast = [''network MAC must be nonzero unicast'']"
| "device_chain X (DeviceError.InvalidNetworkMtuFrameCapacity mtu cap) = [''invalid network MTU/frame capacity: '' @ decimal (unat mtu) @ ''/'' @
    decimal cap]"
| "device_chain X DeviceError.InvalidQueueMemory = [''invalid queue memory'']"
| "device_chain X (DeviceError.InvalidQueueReady value) = [''invalid QueueReady: '' @ decimal (unat value)]"
| "device_chain X (DeviceError.QueueTooLarge sz m) = [''queue too large: '' @ decimal (unat sz) @ '', maximum '' @ decimal (unat m)]"
| "device_chain X DeviceError.QueueConfigurationWhileReady = [''queue configuration while ready'']"
| "device_chain X DeviceError.QueueConfigurationAfterDriverOk = [''queue configuration after DRIVER_OK'']"
| "device_chain X DeviceError.DriverNotReady = [''virtio DRIVER_OK before valid negotiation/queues'']"
| "device_chain X DeviceError.StatusBitsCleared = [''virtio status bits cannot be cleared without reset'']"
| "device_chain X DeviceError.CyclicDescriptorChain = [''cyclic descriptor chain'']"
| "device_chain X (DeviceError.InvalidDescriptorFlagsRange addr l flags) = [''invalid descriptor flags/range: address '' @ lower_hex addr @
    '', length '' @ decimal (unat l) @ '', flags '' @ lower_hex flags]"
| "device_chain X DeviceError.UnnegotiatedIndirectDescriptor = [''unnegotiated indirect descriptor'']"
| "device_chain X (DeviceError.DescriptorIndexOutOfRange i sz) = [''descriptor index out of range: '' @ decimal (unat i) @ '', queue size '' @
    decimal (unat sz)]"
| "device_chain X DeviceError.InvalidAvailableDescriptor = [''invalid available descriptor'']"
| "device_chain X (DeviceError.AvailableRingOverrun n sz) = [''available ring overrun: '' @ decimal (unat n) @ '' entries, queue size '' @
    decimal (unat sz)]"
| "device_chain X DeviceError.InvalidVirtqueue = [''invalid virtqueue'']"
| "device_chain X DeviceError.CyclicPendingDescriptorChain = [''cyclic pending descriptor chain'']"
| "device_chain X (DeviceError.InvalidPendingDescriptor addr l flags) = [''invalid pending descriptor: address '' @ lower_hex addr @ '', length '' @
    decimal (unat l) @ '', flags '' @ lower_hex flags]"
| "device_chain X DeviceError.InvalidLiveQueue = [''invalid live queue'']"
| "device_chain X (DeviceError.Storage e) = storage_chain X e"
| "device_chain X (DeviceError.Net e) = net_chain X e"
| "device_chain X (DeviceError.Memory e) = memory_chain X e"
| "device_chain X (DeviceError.GuestAccess e) = e # X e"
| "device_chain X (DeviceError.Queue e) = e # X e"
| "device_chain X (DeviceError.Slice e) = [e]"

primrec control_chain :: "causes \<Rightarrow> ControlError \<Rightarrow> string list" where
  "control_chain X ControlError.Cancelled = [''VM was cancelled before run'']"
| "control_chain X ControlError.OwnerThread = [''blocking VM control on the VMM thread'']"
| "control_chain X ControlError.Disconnected = [''VM control disconnected'']"
| "control_chain X ControlError.NotRunning = [''VM is not running'']"
| "control_chain X ControlError.MemoryNotConfigured = [''virtio-mem is not configured'']"
| "control_chain X (ControlError.CleanupFailed m) = [m]"
| "control_chain X (ControlError.Memory e) = memory_chain X e"
| "control_chain X (ControlError.ReplyFailed e) = [e]"

primrec runtime_chain :: "RuntimeError \<Rightarrow> string list" where
  "runtime_chain RuntimeError.VmmThreadPanicked = [''VMM thread panicked'']"
| "runtime_chain (RuntimeError.UnmappedIo addr width) = [''unmapped I/O '' @ lower_hex addr @ '', size '' @ decimal width]"
| "runtime_chain (RuntimeError.InvalidAccess addr width wr) = [''invalid guest access '' @ lower_hex addr @ '', size '' @ decimal width @
    '', write '' @ bool_text wr]"

primrec serial_chain :: "causes \<Rightarrow> SerialError \<Rightarrow> string list" where
  "serial_chain X (SerialError.InvalidReceiveLength n cap) = [''serial recv returned '' @ decimal n @ '' bytes, exceeding buffer capacity '' @
    decimal cap]"
| "serial_chain X (SerialError.Io e) = caused ''serial I/O: '' (io_chain X e)"
| "serial_chain X (SerialError.Uart e) = caused ''UART: '' (e # X e)"

primrec vmm_chain :: "causes \<Rightarrow> VmmError \<Rightarrow> string list" where
  "vmm_chain X (VmmError.Storage e) = storage_chain X e"
| "vmm_chain X (VmmError.Memory e) = memory_chain X e"
| "vmm_chain X (VmmError.Net e) = net_chain X e"
| "vmm_chain X (VmmError.Platform e) = platform_chain X e"
| "vmm_chain X (VmmError.Boot e) = boot_chain X e"
| "vmm_chain X (VmmError.Device e) = device_chain X e"
| "vmm_chain X (VmmError.Control e) = control_chain X e"
| "vmm_chain X (VmmError.Runtime e) = runtime_chain e"
| "vmm_chain X (VmmError.Serial e) = serial_chain X e"

section \<open>Diagnostics of these errors\<close>

text \<open>A chain whose first message ends with every cause.\<close>

fun tidy :: "string list \<Rightarrow> bool" where
  "tidy [] = False"
| "tidy (m # cs) = (\<forall>c \<in> set cs. suffix c m)"

lemma ends_with_suffix: "ends_with m c \<longleftrightarrow> suffix c m"
  by (auto simp: ends_with_def suffix_def) (metis append_take_drop_id)

lemma tidy_diagnostic: "tidy ms \<Longrightarrow> diagnostic ms = hd ms"
proof (cases ms)
  case (Cons m cs)
  moreover have "diagnostic_causes m cs = m" if "\<forall>c \<in> set cs. suffix c m"
    using that by (induction cs) (auto simp: ends_with_suffix)
  ultimately show "tidy ms \<Longrightarrow> ?thesis" by simp
qed simp

text \<open>Errors of other crates whose message ends with each of their causes, as those without causes.\<close>

definition tidy_causes :: "causes \<Rightarrow> bool" where
  "tidy_causes X \<longleftrightarrow> (\<forall>m. tidy (m # X m))"

declare tidy.simps [simp del]

lemma tidy_one [simp]: "tidy [m]"
  by (simp add: tidy.simps)

lemma tidy_external [simp]: "tidy_causes X \<Longrightarrow> tidy (m # X m)"
  by (simp add: tidy_causes_def)

lemma tidy_io [simp]: "tidy_causes X \<Longrightarrow> tidy (io_chain X e)"
  by (cases e) simp

lemma tidy_caused [simp]: "tidy ms \<Longrightarrow> tidy (caused p ms)"
  by (cases ms) (auto simp: caused_def suffix_append tidy.simps)

text \<open>Nothing of a chain is lost.\<close>

lemma diagnostic_causes_shows: "sublist m s \<or> m \<in> set cs \<Longrightarrow> sublist m (diagnostic_causes s cs)"
proof (induction cs arbitrary: s)
  case (Cons c cs)
  have ends: "ends_with s c \<Longrightarrow> sublist c s"
    by (simp add: ends_with_suffix suffix_imp_sublist)
  have grows: "sublist m (s @ t @ c)" if "sublist m s \<or> m = c" for t
    using that by (metis append.assoc sublist_append_leftI sublist_append_rightI sublist_order.order_trans)
  show ?case
  proof (cases "ends_with s c")
    case True
    then show ?thesis using Cons.IH [of s] Cons.prems ends by auto
  next
    case False
    then have "sublist m (diagnostic_causes (s @ '': '' @ c) cs)"
      using Cons.IH [of "s @ '': '' @ c"] Cons.prems grows [of "'': ''"] by (metis set_ConsD)
    with False show ?thesis by simp
  qed
qed simp

lemma diagnostic_shows: "m \<in> set ms \<Longrightarrow> sublist m (diagnostic ms)"
  by (cases ms) (auto intro: diagnostic_causes_shows)

text \<open>Errors without a failed rollback inside.\<close>

function (sequential) plain_platform :: "PlatformError \<Rightarrow> bool" and plain_memory :: "MemoryError \<Rightarrow> bool" where
  "plain_platform (PlatformError.Memory m) = plain_memory m"
| "plain_platform _ = True"
| "plain_memory (MemoryError.RollbackFailed _ _) = False"
| "plain_memory (MemoryError.Mapping p) = plain_platform p"
| "plain_memory _ = True"
  by pat_completeness auto
termination
  by (relation "measure (case_sum (\<lambda>p. 2 * length (platform_chain (\<lambda>e. []) p) + 1) (\<lambda>m. 2 * length (memory_chain (\<lambda>e. []) m)))") (auto simp: caused_def)

fun plain_device :: "DeviceError \<Rightarrow> bool" where
  "plain_device (DeviceError.Memory m) = plain_memory m"
| "plain_device _ = True"

fun plain_control :: "ControlError \<Rightarrow> bool" where
  "plain_control (ControlError.Memory m) = plain_memory m"
| "plain_control _ = True"

fun plain_error :: "VmmError \<Rightarrow> bool" where
  "plain_error (VmmError.Memory m) = plain_memory m"
| "plain_error (VmmError.Platform p) = plain_platform p"
| "plain_error (VmmError.Device d) = plain_device d"
| "plain_error (VmmError.Control c) = plain_control c"
| "plain_error _ = True"

lemma tidy_storage: "tidy_causes X \<Longrightarrow> tidy (storage_chain X e)"
  by (cases e) simp_all

lemma tidy_boot: "tidy_causes X \<Longrightarrow> tidy (boot_chain X e)"
  by (cases e) simp_all

lemma tidy_net: "tidy_causes X \<Longrightarrow> tidy (net_chain X e)"
  by (induction e) simp_all

lemma tidy_platform_memory:
  "tidy_causes X \<Longrightarrow> plain_platform p \<Longrightarrow> tidy (platform_chain X p)"
  "tidy_causes X \<Longrightarrow> plain_memory m \<Longrightarrow> tidy (memory_chain X m)"
  by (induction p and m rule: plain_platform_plain_memory.induct) (simp_all add: tidy_boot)

lemma tidy_device: "tidy_causes X \<Longrightarrow> plain_device e \<Longrightarrow> tidy (device_chain X e)"
  by (cases e) (simp_all add: tidy_storage tidy_net tidy_platform_memory)

lemma tidy_control: "tidy_causes X \<Longrightarrow> plain_control e \<Longrightarrow> tidy (control_chain X e)"
  by (cases e) (simp_all add: tidy_platform_memory)

lemma tidy_runtime: "tidy (runtime_chain e)"
  by (cases e) simp_all

lemma tidy_serial: "tidy_causes X \<Longrightarrow> tidy (serial_chain X e)"
  by (cases e) simp_all

lemma tidy_vmm: "tidy_causes X \<Longrightarrow> plain_error e \<Longrightarrow> tidy (vmm_chain X e)"
  by (cases e) (simp_all add: tidy_storage tidy_boot tidy_net tidy_platform_memory tidy_device tidy_control tidy_runtime tidy_serial)

text \<open>C30. The diagnostic of an error shows the messages of the error and of all its causes, and unless a failed rollback is
  among them, or an error of another crate whose own message leaves its causes out, it is exactly the error's own message, so that no cause is printed twice.\<close>

theorem diagnostic_exact:
  "(\<forall>m \<in> set (vmm_chain X e). sublist m (diagnostic (vmm_chain X e))) \<and>
   (tidy_causes X \<and> plain_error e \<longrightarrow> diagnostic (vmm_chain X e) = hd (vmm_chain X e))"
  using diagnostic_shows tidy_diagnostic [OF tidy_vmm] by blast

text \<open>A failed rollback does print its cause twice: the message ends with the rollback's error.\<close>

lemma rollback_repeats:
  "diagnostic (memory_chain X (MemoryError.RollbackFailed MemoryError.IpaOverflow MemoryError.HotplugOverflow)) =
    ''memory mapping rollback failed; stopping VM: IPA overflow; rollback: hotplug overflow: IPA overflow''"
  by (simp add: ends_with_def)

end
