(* ===== verification/Runtime.thy ===== *)
theory Runtime
  imports Devices Platform Control Messages
begin

text \<open>
  The architecture-independent runtime (\<open>src/src/runtime.rs\<close>), the serial input it polls
  (\<open>src/src/serial.rs\<close>). It is generic in the platform: a
  virtual machine is a record \<open>vm_ops\<close> over its state \<open>'v\<close>. The UART model is another crate's and a
  parameter. The lifecycle shared with other threads is part of the state: before every access the
  runtime makes to it, \<open>others\<close> says what the other threads did.
  Lemmas: guest memory is remapped only while the VM is paused, an access is completed only after its
  interrupt line is set, an undecodable access has no effect in lenient mode, and cleanup runs every step.
\<close>

section \<open>Serial input\<close>

text \<open>The UART of \<open>vm_superio\<close> with the host's \<open>SerialIo\<close> behind it.\<close>

record 'u uart_ops =
  ua_fifo_capacity :: "'u \<Rightarrow> usize"
  ua_recv :: "usize \<Rightarrow> 'u \<Rightarrow> (IoError + usize \<times> bytes) \<times> 'u"
  ua_enqueue :: "bytes \<Rightarrow> 'u \<Rightarrow> (ext_error + unit) \<times> 'u"
  ua_read :: "u8 \<Rightarrow> 'u \<Rightarrow> u8 \<times> 'u"
  ua_write :: "u8 \<Rightarrow> u8 \<Rightarrow> 'u \<Rightarrow> (ext_error + unit) \<times> 'u"
  ua_interrupt_identification :: "'u \<Rightarrow> u8"

definition poll_input :: "'u uart_ops \<Rightarrow> ('u, unit, SerialError) prog" where
  "poll_input U =
     bnd get_state (\<lambda>u.
     let capacity = ua_fifo_capacity U u in
     if capacity = 0 then ret ()
     else
     bnd (\<lambda>u. case ua_recv U capacity u of
            (Inr (cnt, buffer), u') \<Rightarrow> (Ok (cnt, buffer), u')
          | (Inl e, u') \<Rightarrow> (if io_kind e \<in> {WouldBlock, Interrupted} then Ok (0, replicate capacity 0) else Err (SerialError.Io e), u'))
     (\<lambda>(cnt, buffer).
     if capacity < cnt then throw (SerialError.InvalidReceiveLength cnt capacity)
     else if cnt \<noteq> 0 then call_ext SerialError.Uart (ua_enqueue U (take cnt buffer))
     else ret ()))"

definition uart_level :: "'u uart_ops \<Rightarrow> 'u \<Rightarrow> bool" where
  "uart_level U u = (ua_interrupt_identification U u AND 1 = 0)"

section \<open>State\<close>

record ('v, 's, 'n, 'q) runtime =
  rt_vm :: "'v option"
  rt_layout :: MachineLayout
  rt_devices :: "(('s, 'n) Device, 'q) mmio list"
  rt_base :: "region list"
  rt_mapped :: usize
  rt_has_memory :: bool
  rt_strict :: bool

text \<open>The runtime with what its functions borrow: the guest memory view, the UART, the shared lifecycle.\<close>

record ('v, 's, 'n, 'q, 'm, 'u) world =
  w_rt :: "('v, 's, 'n, 'q) runtime"
  w_view :: 'm
  w_uart :: 'u
  w_control :: vm_control
  w_clock :: nat

text \<open>Everything the runtime calls that is not its own: the crates, the backends, the platform, the UART, the
  host's memory, the other threads, and how an error is rendered.\<close>

record ('v, 's, 'n, 'q, 'm, 'u, 'c) env =
  e_crates :: "('q, 'm) crates"
  e_block :: "('s, 'm) block_ops"
  e_net :: "('n, 'm) net_ops"
  e_platform :: "'v platform_ops"
  e_vm :: "('v, 'm, 'c) vm_ops"
  e_uart :: "'u uart_ops"
  e_alloc :: "nat \<Rightarrow> alloc"
  e_from_regions :: "region list \<Rightarrow> ext_error + 'm"
  e_others :: "nat \<Rightarrow> vm_control \<Rightarrow> vm_control"
  e_causes :: causes

definition e_devices :: "('v, 's, 'n, 'q, 'm, 'u, 'c) env \<Rightarrow> (('s, 'n) Device, 'q, 'm) virtio_ops" where
  "e_devices E = device_ops (e_crates E) (e_block E) (e_net E)"

text \<open>The dynamic memory status is one object behind two handles: the memory device's and the lifecycle's.\<close>

fun status_of :: "(('s, 'n) Device, 'q) mmio list \<Rightarrow> MemoryStatus option" where
  "status_of [] = None"
| "status_of (t # ts) = (case device t of DevMem m \<Rightarrow> Some (control m) | _ \<Rightarrow> status_of ts)"

definition set_status :: "MemoryStatus option \<Rightarrow> (('s, 'n) Device, 'q) mmio \<Rightarrow> (('s, 'n) Device, 'q) mmio" where
  "set_status st t = (case (st, device t) of (Some x, DevMem m) \<Rightarrow> t\<lparr>device := DevMem (m\<lparr>control := x\<rparr>)\<rparr> | _ \<Rightarrow> t)"

definition put_status :: "MemoryStatus option \<Rightarrow> vm_control \<Rightarrow> vm_control" where
  "put_status st c = (if st = None then c else c\<lparr>vm_memory := st\<rparr>)"

text \<open>An access to the shared lifecycle, after the other threads took their turn.\<close>

definition on_control ::
  "('v, 's, 'n, 'q, 'm, 'u, 'c) env \<Rightarrow> (vm_control \<Rightarrow> 'a \<times> vm_control) \<Rightarrow> (('v, 's, 'n, 'q, 'm, 'u) world, 'a, VmmError) prog" where
  "on_control E f = (\<lambda>w.
     case f (e_others E (w_clock w) (put_status (status_of (rt_devices (w_rt w))) (w_control w))) of
       (x, c) \<Rightarrow> (Ok x, w\<lparr>w_control := c, w_clock := w_clock w + 1,
         w_rt := (w_rt w)\<lparr>rt_devices := map (set_status (vm_memory c)) (rt_devices (w_rt w))\<rparr>\<rparr>))"

definition update_control ::
  "('v, 's, 'n, 'q, 'm, 'u, 'c) env \<Rightarrow> (vm_control \<Rightarrow> vm_control) \<Rightarrow> (('v, 's, 'n, 'q, 'm, 'u) world, unit, VmmError) prog" where
  "update_control E f = on_control E (\<lambda>c. ((), f c))"

definition is_stopping :: "('v, 's, 'n, 'q, 'm, 'u, 'c) env \<Rightarrow> (('v, 's, 'n, 'q, 'm, 'u) world, bool, VmmError) prog" where
  "is_stopping E = on_control E (\<lambda>c. (stopping c, c))"

text \<open>\<open>self.vm.as_mut().unwrap()\<close> and a call on it.\<close>

definition on_vm :: "('e \<Rightarrow> VmmError) \<Rightarrow> ('v, 'a, 'e) prog \<Rightarrow> (('v, 's, 'n, 'q, 'm, 'u) world, 'a, VmmError) prog" where
  "on_vm conv f = (\<lambda>w. case rt_vm (w_rt w) of
     None \<Rightarrow> (Panic, w)
   | Some v \<Rightarrow> (case f v of (r, v') \<Rightarrow> (map_err conv r, w\<lparr>w_rt := (w_rt w)\<lparr>rt_vm := Some v'\<rparr>\<rparr>)))"

definition set_device :: "nat \<Rightarrow> (('s, 'n) Device, 'q) mmio \<Rightarrow> ('v, 's, 'n, 'q, 'm, 'u) world \<Rightarrow> ('v, 's, 'n, 'q, 'm, 'u) world" where
  "set_device i d w = w\<lparr>w_rt := (w_rt w)\<lparr>rt_devices := (rt_devices (w_rt w))[i := d]\<rparr>\<rparr>"

text \<open>An operation of the device at a slot on guest memory; indexing past the devices panics.\<close>

definition on_slot ::
  "nat \<Rightarrow> ((('s, 'n) Device, 'q) mmio \<times> 'm, 'a, DeviceError) prog \<Rightarrow> (('v, 's, 'n, 'q, 'm, 'u) world, 'a, VmmError) prog" where
  "on_slot i f = (\<lambda>w. if \<not> i < length (rt_devices (w_rt w)) then (Panic, w)
     else (case f (rt_devices (w_rt w) ! i, w_view w) of
       (r, d, m) \<Rightarrow> (map_err VmmError.Device r, (set_device i d w)\<lparr>w_view := m\<rparr>)))"

section \<open>Construction\<close>

definition requirements ::
  "(string \<times> 's) list \<Rightarrow> 'n option \<Rightarrow> virtio_mem option \<Rightarrow> DeviceRequirements" where
  "requirements disks nic mem =
     \<lparr>rq_devices = map (KindBlock \<circ> fst) disks @ (if nic \<noteq> None then [KindNet] else []) @
        (if mem \<noteq> None then [KindMemory] else []),
      rq_hotplug = map_option (\<lambda>m. \<lparr>rq_capacity = region_size_mib (control m) * MIB, rq_alignment = alignment m\<rparr>) mem\<rparr>"

text \<open>The devices in order: disks, network, dynamic memory; the first error ends the construction.\<close>

definition device_list ::
  "('v, 's, 'n, 'q, 'm, 'u, 'c) env \<Rightarrow> (string \<times> 's) list \<Rightarrow> 'n option \<Rightarrow> virtio_mem option \<Rightarrow> (('s, 'n) Device, DeviceError) result list" where
  "device_list E disks nic mem =
     map (\<lambda>(name, b). and_then (block_new name b) (\<lambda>d. Ok (DevBlock d))) disks @
     (case nic of None \<Rightarrow> [] | Some n \<Rightarrow> [and_then (net_new (e_net E) n) (\<lambda>d. Ok (DevNet d))]) @
     (case mem of None \<Rightarrow> [] | Some m \<Rightarrow> [Ok (DevMem m)])"

fun build_devices ::
  "('v, 's, 'n, 'q, 'm, 'u, 'c) env \<Rightarrow> bool \<Rightarrow> (('s, 'n) Device, DeviceError) result list \<Rightarrow> ((('s, 'n) Device, 'q) mmio list, DeviceError) result" where
  "build_devices E str [] = Ok []"
| "build_devices E str (d # ds) =
     and_then d (\<lambda>d. and_then (mmio_new (e_crates E) (e_devices E) d) (\<lambda>t.
     and_then (build_devices E str ds) (\<lambda>ts. Ok (with_strict str t # ts))))"

definition attach_memory :: "MachineLayout \<Rightarrow> virtio_mem option \<Rightarrow> (virtio_mem option, VmmError) result" where
  "attach_memory lay mem = (case mem of
     None \<Rightarrow> Ok None
   | Some m \<Rightarrow> (case ml_hotplug lay of
        None \<Rightarrow> Panic
      | Some r \<Rightarrow> (case attach_at (mr_address r) m of
           (Ok _, m') \<Rightarrow> Ok (Some m') | (Err e, m') \<Rightarrow> Err (VmmError.Memory e) | (Panic, m') \<Rightarrow> Panic)))"

definition runtime_new ::
  "('v, 's, 'n, 'q, 'm, 'u, 'c) env \<Rightarrow> VmConfig \<Rightarrow> (string \<times> 's) list \<Rightarrow> 'n option \<Rightarrow> virtio_mem option \<Rightarrow>
    (('v, 's, 'n, 'q) runtime, VmmError) result" where
  "runtime_new E config disks nic mem =
     (let needs = requirements disks nic mem in
      and_then (map_err VmmError.Platform (pl_layout (e_platform E) config needs)) (\<lambda>lay.
      and_then (map_err VmmError.Platform (validate lay config needs)) (\<lambda>_.
      and_then (attach_memory lay mem) (\<lambda>mem.
      and_then (map_err VmmError.Device (build_devices E (strict_mode config) (device_list E disks nic mem))) (\<lambda>devices.
      Ok \<lparr>rt_vm = None, rt_layout = lay, rt_devices = devices, rt_base = [], rt_mapped = 0,
          rt_has_memory = (mem \<noteq> None), rt_strict = strict_mode config\<rparr>)))))"

section \<open>Start\<close>

fun allocate_base :: "alloc \<Rightarrow> MemoryRange list \<Rightarrow> region list \<Rightarrow> (region list, VmmError) result" where
  "allocate_base A [] base = Ok base"
| "allocate_base A (r # rs) base =
     and_then (of_sum (VmmError.Memory \<circ> MemoryError.GuestMemory) (A (mr_address r) (unat (mr_size r)))) (\<lambda>x. allocate_base A rs (base @ [x]))"

text \<open>Map the base regions; \<open>False\<close>: the VM began stopping meanwhile.\<close>

fun map_base ::
  "('v, 's, 'n, 'q, 'm, 'u, 'c) env \<Rightarrow> region list \<Rightarrow> (('v, 's, 'n, 'q, 'm, 'u) world, bool, VmmError) prog" where
  "map_base E [] = ret True"
| "map_base E (r # rs) =
     bnd (is_stopping E) (\<lambda>st.
     if st then ret False
     else
     bnd (on_vm VmmError.Memory (mp_map (vm_mapper (e_vm E)) r)) (\<lambda>_.
     bnd (modify (\<lambda>w. w\<lparr>w_rt := (w_rt w)\<lparr>rt_mapped := rt_mapped (w_rt w) + 1\<rparr>\<rparr>)) (\<lambda>_.
     map_base E rs)))"

definition start_memory :: "(('s, 'n) Device, 'q) mmio \<Rightarrow> (('s, 'n) Device, 'q) mmio" where
  "start_memory t = (case device t of DevMem m \<Rightarrow> t\<lparr>device := DevMem (memory_start m)\<rparr> | _ \<Rightarrow> t)"

definition prepare_vm ::
  "('v, 's, 'n, 'q, 'm, 'u, 'c) env \<Rightarrow> (('v, 's, 'n, 'q, 'm, 'u) world, unit, VmmError) prog" where
  "prepare_vm E = (\<lambda>w. case rt_vm (w_rt w) of
     None \<Rightarrow> (Panic, w)
   | Some v \<Rightarrow> (case vm_prepare (e_vm E) (rt_layout (w_rt w)) (v, w_view w) of
       (r, v', m) \<Rightarrow> (map_err VmmError.Platform r, w\<lparr>w_rt := (w_rt w)\<lparr>rt_vm := Some v'\<rparr>, w_view := m\<rparr>)))"

definition runtime_init ::
  "('v, 's, 'n, 'q, 'm, 'u, 'c) env \<Rightarrow> VmConfig \<Rightarrow> (('v, 's, 'n, 'q, 'm, 'u) world, unit, VmmError) prog" where
  "runtime_init E config =
     bnd get_state (\<lambda>w.
     bnd (pure_res (allocate_base (e_alloc E (w_clock w)) (ml_ram (rt_layout (w_rt w))) (rt_base (w_rt w)))) (\<lambda>base.
     bnd (modify (\<lambda>w. w\<lparr>w_rt := (w_rt w)\<lparr>rt_base := base\<rparr>\<rparr>)) (\<lambda>_.
     bnd (pure_res (of_sum (VmmError.Memory \<circ> MemoryError.Regions) (e_from_regions E base))) (\<lambda>view.
     bnd (modify (\<lambda>w. w\<lparr>w_view := view\<rparr>)) (\<lambda>_.
     bnd (is_stopping E) (\<lambda>st. if st then ret () else
     bnd (pure_res (map_err VmmError.Platform (pl_create (e_platform E) config))) (\<lambda>v.
     bnd (modify (\<lambda>w. w\<lparr>w_rt := (w_rt w)\<lparr>rt_vm := Some v\<rparr>\<rparr>)) (\<lambda>_.
     bnd (map_base E base) (\<lambda>go. if \<not> go then ret () else
     bnd (is_stopping E) (\<lambda>st. if st then ret () else
     bnd (prepare_vm E) (\<lambda>_.
     bnd (is_stopping E) (\<lambda>st. if st then ret () else
     bnd (on_vm VmmError.Platform (vm_start (e_vm E))) (\<lambda>_.
     modify (\<lambda>w. w\<lparr>w_rt := (w_rt w)\<lparr>rt_devices := map start_memory (rt_devices (w_rt w))\<rparr>\<rparr>))))))))))))))"

section \<open>Guest accesses\<close>

text \<open>\<open>Iterator::position\<close>.\<close>

fun position :: "('a \<Rightarrow> bool) \<Rightarrow> 'a list \<Rightarrow> nat option" where
  "position P [] = None"
| "position P (x # xs) = (if P x then Some 0 else map_option Suc (position P xs))"

definition within :: "'c IoAccess \<Rightarrow> IoRegion \<Rightarrow> bool" where
  "within a r \<longleftrightarrow> a_space a = io_space r \<and>
     (case checked_sub (a_address a) (io_address r) of None \<Rightarrow> False | Some off \<Rightarrow> off < io_size r)"

definition fits :: "'c IoAccess \<Rightarrow> IoRegion \<Rightarrow> bool" where
  "fits a r \<longleftrightarrow> a_width a \<in> {1, 2, 4, 8} \<and>
     (case checked_add (a_address a - io_address r) (word_of_nat (a_width a)) of None \<Rightarrow> False | Some e \<Rightarrow> e \<le> io_size r)"

definition on_uart :: "('u, 'a, SerialError) prog \<Rightarrow> (('v, 's, 'n, 'q, 'm, 'u) world, 'a, VmmError) prog" where
  "on_uart f = (\<lambda>w. case f (w_uart w) of (r, u) \<Rightarrow> (map_err VmmError.Serial r, w\<lparr>w_uart := u\<rparr>))"

text \<open>The value of an access inside a window; nothing: it decodes to no register.\<close>

definition uart_access ::
  "('v, 's, 'n, 'q, 'm, 'u, 'c) env \<Rightarrow> 'c IoAccess \<Rightarrow> u64 \<Rightarrow> (('v, 's, 'n, 'q, 'm, 'u) world, u64 option, VmmError) prog" where
  "uart_access E a offset =
     (if offset < 8 \<and> a_width a = 1 then
        (if a_write a then
           bnd (on_uart (call_ext SerialError.Uart (ua_write (e_uart E) (ucast offset) (ucast (a_value a))))) (\<lambda>_. ret (Some 0))
         else bnd (on_uart (\<lambda>u. case ua_read (e_uart E) (ucast offset) u of (x, u') \<Rightarrow> (Ok x, u'))) (\<lambda>x. ret (Some (ucast x))))
      else ret None)"

definition device_access ::
  "('v, 's, 'n, 'q, 'm, 'u, 'c) env \<Rightarrow> nat \<Rightarrow> IoRegion \<Rightarrow> 'c IoAccess \<Rightarrow> u64 \<Rightarrow>
    (('v, 's, 'n, 'q, 'm, 'u) world, u64 option, VmmError) prog" where
  "device_access E slot reg a offset =
     (if \<not> fits a reg then ret None
      else if \<not> a_write a then
        on_slot slot (\<lambda>(t, m). (Ok (mmio_read (e_crates E) (e_devices E) t offset (a_width a)), t, m))
      else if a_width a = 4 then
        bnd (on_slot slot (mmio_write (e_crates E) (e_devices E) offset (ucast (a_value a)))) (\<lambda>_. ret (Some 0))
      else ret None)"

text \<open>What an access that decodes to no register sees.\<close>

definition unclaimed :: "'c IoAccess \<Rightarrow> u64" where
  "unclaimed a = (if a_write a then 0 else if 8 \<le> a_width a then u64_max else push_bit (8 * a_width a) 1 - 1)"

definition access_value ::
  "bool \<Rightarrow> 'c IoAccess \<Rightarrow> u64 option \<Rightarrow> (('v, 's, 'n, 'q, 'm, 'u) world, u64, VmmError) prog" where
  "access_value str a value = (case value of
     Some x \<Rightarrow> ret x
   | None \<Rightarrow> if str then throw (VmmError.Runtime (RuntimeError.InvalidAccess (a_address a) (a_width a) (a_write a)))
             else ret (unclaimed a))"

text \<open>The device's line is set before the vCPU goes on.\<close>

definition finish_io ::
  "('v, 's, 'n, 'q, 'm, 'u, 'c) env \<Rightarrow> 'c IoAccess \<Rightarrow> u64 option \<Rightarrow> u32 \<Rightarrow> bool \<Rightarrow> (('v, 's, 'n, 'q, 'm, 'u) world, unit, VmmError) prog" where
  "finish_io E a value line level =
     bnd get_state (\<lambda>w.
     bnd (access_value (rt_strict (w_rt w)) a value) (\<lambda>x.
     bnd (on_vm VmmError.Platform (vm_set_irq (e_vm E) line level)) (\<lambda>_.
     on_vm VmmError.Platform (vm_complete_io (e_vm E) (a_completion a) x))))"

definition slot_level :: "nat \<Rightarrow> (('v, 's, 'n, 'q, 'm, 'u) world, bool, VmmError) prog" where
  "slot_level i = on_slot i (\<lambda>(t, m). (Ok (interrupt_pending t), t, m))"

definition handle_io ::
  "('v, 's, 'n, 'q, 'm, 'u, 'c) env \<Rightarrow> 'c IoAccess \<Rightarrow> (('v, 's, 'n, 'q, 'm, 'u) world, unit, VmmError) prog" where
  "handle_io E a =
     bnd get_state (\<lambda>w.
     let lay = rt_layout (w_rt w) in
     if within a (ml_uart lay) then
       bnd (uart_access E a (a_address a - io_address (ml_uart lay))) (\<lambda>value.
       bnd get_state (\<lambda>w.
       finish_io E a value (io_irq (ml_uart lay)) (uart_level (e_uart E) (w_uart w))))
     else case position (within a) (ml_virtio lay) of
       Some slot \<Rightarrow>
         let reg = ml_virtio lay ! slot in
         if \<not> slot < length (rt_devices (w_rt w)) then panic
         else
         bnd (device_access E slot reg a (a_address a - io_address reg)) (\<lambda>value.
         bnd (slot_level slot) (\<lambda>level.
         finish_io E a value (io_irq reg) level))
     | None \<Rightarrow> throw (VmmError.Runtime (RuntimeError.UnmappedIo (a_address a) (a_width a))))"

section \<open>Dynamic memory\<close>

text \<open>An operation on a device's queues, its result passed through \<open>contain\<close>.\<close>

definition contained ::
  "('q queues \<times> 'm, 'a, DeviceError) prog \<Rightarrow> (('d, 'q) mmio \<times> 'm, 'a option, DeviceError) prog" where
  "contained f = (\<lambda>(t, m). case f (queues t, m) of (r, qs, m') \<Rightarrow>
     (case contain r (t\<lparr>queues := qs\<rparr>) of (r', t') \<Rightarrow> (r', t', m')))"

fun scan_pins ::
  "('v, 's, 'n, 'q, 'm, 'u, 'c) env \<Rightarrow> nat list \<Rightarrow> (u64 \<times> u64) list \<Rightarrow> (('v, 's, 'n, 'q, 'm, 'u) world, (u64 \<times> u64) list, VmmError) prog" where
  "scan_pins E [] pins = ret pins"
| "scan_pins E (i # is) pins =
     bnd get_state (\<lambda>w.
     if needs_reset (rt_devices (w_rt w) ! i) then scan_pins E is pins
     else
     bnd (on_slot i (contained (\<lambda>(qs, m). case pinned (e_crates E) qs m of (r, m') \<Rightarrow> (r, qs, m')))) (\<lambda>found.
     scan_pins E is (pins @ (case found of None \<Rightarrow> [] | Some ps \<Rightarrow> ps))))"

text \<open>\<open>sync_target\<close> on the memory device, with its configuration interrupt.\<close>

definition sync_memory :: "nat \<Rightarrow> bool \<Rightarrow> ('v, 's, 'n, 'q, 'm, 'u) world \<Rightarrow> ('v, 's, 'n, 'q, 'm, 'u) world" where
  "sync_memory i ready w =
     (let t = rt_devices (w_rt w) ! i in case device t of
        DevMem v \<Rightarrow> (case sync_target ready v of (moved, v') \<Rightarrow>
          let t = t\<lparr>device := DevMem v'\<rparr> in set_device i (if moved then config_changed t else t) w)
      | _ \<Rightarrow> w)"

text \<open>Process the memory device's requests with the VM as its mapper.\<close>

definition process_requests ::
  "('v, 's, 'n, 'q, 'm, 'u, 'c) env \<Rightarrow> nat \<Rightarrow> (u64 \<times> u64) list \<Rightarrow> (('v, 's, 'n, 'q, 'm, 'u) world, unit, VmmError) prog" where
  "process_requests E i pins = (\<lambda>w.
     let t = rt_devices (w_rt w) ! i in
     if needs_reset t then (Ok (), w)
     else (case (device t, rt_vm (w_rt w)) of
       (DevMem v, Some p) \<Rightarrow>
         (case memory_process (e_crates E) (vm_mapper (e_vm E)) (e_alloc E (w_clock w)) pins (v, queues t, p, w_view w) of
            (r, v', qs', p', m') \<Rightarrow>
              (case contain r (t\<lparr>device := DevMem v', queues := qs'\<rparr>) of
                 (r', t') \<Rightarrow> (map_err VmmError.Device (and_then r' (\<lambda>_. Ok ())),
                   (set_device i t' (w\<lparr>w_rt := (w_rt w)\<lparr>rt_vm := Some p'\<rparr>\<rparr>))\<lparr>w_view := m'\<rparr>)))
     | _ \<Rightarrow> (Panic, w)))"

text \<open>\<open>False\<close> is \<open>ControlFlow::Break\<close>.\<close>

definition process_memory ::
  "('v, 's, 'n, 'q, 'm, 'u, 'c) env \<Rightarrow> (('v, 's, 'n, 'q, 'm, 'u) world, bool, VmmError) prog" where
  "process_memory E =
     bnd get_state (\<lambda>w.
     if \<not> rt_has_memory (w_rt w) then ret True
     else if rt_vm (w_rt w) = None \<or> rt_devices (w_rt w) = [] then panic
     else
     let late = length (rt_devices (w_rt w)) - 1; act = active (rt_devices (w_rt w) ! late) in
     bnd (update_control E (\<lambda>c. c)) (\<lambda>_.
     bnd (modify (sync_memory late act)) (\<lambda>_.
     if \<not> act then ret True
     else
     bnd (on_slot late (contained (available (e_crates E) 0))) (\<lambda>n.
     if n = None \<or> n = Some 0 then ret True
     else
     bnd (on_vm VmmError.Platform (vm_pause (e_vm E))) (\<lambda>outcome.
     if outcome = OutcomeStopping then ret False
     else
     bnd (scan_pins E [0 ..< length (rt_devices (w_rt w))] []) (\<lambda>pins.
     bnd (process_requests E late pins) (\<lambda>_.
     bnd (on_vm VmmError.Platform (vm_resume (e_vm E))) (\<lambda>_.
     ret True))))))))"

section \<open>The event loop\<close>

text \<open>Serve a request; \<open>None\<close>: the VM is already stopping, otherwise whether it is now paused.\<close>

definition serve ::
  "('v, 's, 'n, 'q, 'm, 'u, 'c) env \<Rightarrow> bool \<Rightarrow> request \<Rightarrow> (('v, 's, 'n, 'q, 'm, 'u) world, bool option, VmmError) prog" where
  "serve E susp r = (\<lambda>w.
     let act = (if operation r = OpPause \<and> \<not> susp then
                  bnd (on_vm VmmError.Platform (vm_pause (e_vm E))) (\<lambda>outcome. ret (outcome = OutcomeStopping))
                else if operation r = OpResume \<and> susp then
                  bnd (on_vm VmmError.Platform (vm_resume (e_vm E))) (\<lambda>_. ret False)
                else ret False)
     in if rt_vm (w_rt w) = None then (Panic, w)
     else case act w of
       (Ok True, w') \<Rightarrow> bnd (update_control E (reject_stopping r)) (\<lambda>_. ret None) w'
     | (Ok False, w') \<Rightarrow> bnd (update_control E (complete_request r None)) (\<lambda>_. ret (Some (operation r = OpPause))) w'
     | (Err e, w') \<Rightarrow> bnd (update_control E (complete_request r (Some (vmm_chain (e_causes E) e)))) (\<lambda>_. throw e) w'
     | (Panic, w') \<Rightarrow> (Panic, w'))"

fun for_each :: "('a \<Rightarrow> ('s, unit, 'e) prog) \<Rightarrow> 'a list \<Rightarrow> ('s, unit, 'e) prog" where
  "for_each f [] = ret ()"
| "for_each f (x # xs) = bnd (f x) (\<lambda>_. for_each f xs)"

definition raise_line ::
  "('v, 's, 'n, 'q, 'm, 'u, 'c) env \<Rightarrow> nat \<times> IoRegion \<Rightarrow> (('v, 's, 'n, 'q, 'm, 'u) world, unit, VmmError) prog" where
  "raise_line E = (\<lambda>(i, reg). bnd (slot_level i) (\<lambda>level. on_vm VmmError.Platform (vm_set_irq (e_vm E) (io_irq reg) level)))"

text \<open>The devices' work between two requests; \<open>False\<close> ends the loop.\<close>

definition turn ::
  "('v, 's, 'n, 'q, 'm, 'u, 'c) env \<Rightarrow> (('v, 's, 'n, 'q, 'm, 'u) world, bool, VmmError) prog" where
  "turn E =
     bnd (on_uart (poll_input (e_uart E))) (\<lambda>_.
     bnd get_state (\<lambda>w.
     bnd (on_vm VmmError.Platform (vm_set_irq (e_vm E) (io_irq (ml_uart (rt_layout (w_rt w)))) (uart_level (e_uart E) (w_uart w)))) (\<lambda>_.
     bnd (for_each (\<lambda>i. on_slot i (mmio_poll (e_devices E))) [0 ..< length (rt_devices (w_rt w))]) (\<lambda>_.
     bnd (process_memory E) (\<lambda>go.
     if \<not> go then ret False
     else
     bnd get_state (\<lambda>w.
     bnd (for_each (raise_line E) (zip [0 ..< length (rt_devices (w_rt w))] (ml_virtio (rt_layout (w_rt w))))) (\<lambda>_.
     bnd (on_vm VmmError.Platform (vm_poll_event (e_vm E))) (\<lambda>event.
     case event of
       Some Shutdown \<Rightarrow> ret False
     | None \<Rightarrow> ret True
     | Some (Io a) \<Rightarrow> bnd (handle_io E a) (\<lambda>_. ret True)))))))))"

text \<open>One pass of the loop; \<open>None\<close> is \<open>break\<close>, otherwise the new value of \<open>paused\<close>. A wait that is not over is
  another pass: the VM is then paused without a request and the pass changes nothing.\<close>

definition loop_pass ::
  "('v, 's, 'n, 'q, 'm, 'u, 'c) env \<Rightarrow> bool \<Rightarrow> (('v, 's, 'n, 'q, 'm, 'u) world, bool option, VmmError) prog" where
  "loop_pass E susp =
     bnd (is_stopping E) (\<lambda>st.
     if st then ret None
     else
     bnd (on_control E next_request) (\<lambda>request.
     case request of
       Some r \<Rightarrow> serve E susp r
     | None \<Rightarrow>
         if susp then bnd (update_control E (\<lambda>c. c)) (\<lambda>_. ret (Some True))
         else bnd (turn E) (\<lambda>go. ret (if go then Some False else None))))"

partial_function (option) run_loop ::
  "('v, 's, 'n, 'q, 'm, 'u, 'c) env \<Rightarrow> bool \<Rightarrow> ('v, 's, 'n, 'q, 'm, 'u) world \<Rightarrow>
    ((unit, VmmError) result \<times> ('v, 's, 'n, 'q, 'm, 'u) world) option" where
  "run_loop E susp w = (case loop_pass E susp w of
     (Ok (Some p), w') \<Rightarrow> run_loop E p w'
   | (Ok None, w') \<Rightarrow> Some (Ok (), w')
   | (Err e, w') \<Rightarrow> Some (Err e, w')
   | (Panic, w') \<Rightarrow> Some (Panic, w'))"

section \<open>Cleanup\<close>

text \<open>A step whose error does not stop the cleanup; the first one is kept.\<close>

definition attempt :: "('s, 'a, 'e) prog \<Rightarrow> (unit, 'e) result \<Rightarrow> ('s, (unit, 'e) result, 'e) prog" where
  "attempt f acc = (\<lambda>s. case f s of
     (Ok _, s') \<Rightarrow> (Ok acc, s')
   | (Err e, s') \<Rightarrow> (Ok (if is_ok acc then Err e else acc), s')
   | (Panic, s') \<Rightarrow> (Panic, s'))"

fun attempt_all :: "('s, 'a, 'e) prog list \<Rightarrow> (unit, 'e) result \<Rightarrow> ('s, (unit, 'e) result, 'e) prog" where
  "attempt_all [] acc = ret acc"
| "attempt_all (f # fs) acc = bnd (attempt f acc) (\<lambda>acc. attempt_all fs acc)"

text \<open>\<open>stop\<close> of the memory device at a slot, if that is what the slot holds.\<close>

definition stop_slot ::
  "('v, 's, 'n, 'q, 'm, 'u, 'c) env \<Rightarrow> nat \<Rightarrow> (('v, 's, 'n, 'q, 'm, 'u) world, unit, VmmError) prog" where
  "stop_slot E i = (\<lambda>w. let t = rt_devices (w_rt w) ! i in case (device t, rt_vm (w_rt w)) of
     (DevMem v, Some p) \<Rightarrow> (case memory_stop (vm_mapper (e_vm E)) (v, p) of
        (r, v', p') \<Rightarrow> (map_err VmmError.Memory r,
          set_device i (t\<lparr>device := DevMem v'\<rparr>) (w\<lparr>w_rt := (w_rt w)\<lparr>rt_vm := Some p'\<rparr>\<rparr>)))
   | _ \<Rightarrow> (Ok (), w))"

definition flush_slot ::
  "('v, 's, 'n, 'q, 'm, 'u, 'c) env \<Rightarrow> nat \<Rightarrow> (('v, 's, 'n, 'q, 'm, 'u) world, unit, VmmError) prog" where
  "flush_slot E i = on_slot i (\<lambda>(t, m). case mmio_flush (e_devices E) t of (r, t') \<Rightarrow> (r, t', m))"

definition unmap_base ::
  "('v, 's, 'n, 'q, 'm, 'u, 'c) env \<Rightarrow> region \<Rightarrow> (('v, 's, 'n, 'q, 'm, 'u) world, unit, VmmError) prog" where
  "unmap_base E r = on_vm VmmError.Memory (mp_unmap (vm_mapper (e_vm E)) r)"

definition stop_vm ::
  "('v, 's, 'n, 'q, 'm, 'u, 'c) env \<Rightarrow> (('v, 's, 'n, 'q, 'm, 'u) world, (unit, VmmError) result, VmmError) prog" where
  "stop_vm E = (\<lambda>w. if rt_vm (w_rt w) = None then (Ok (Ok ()), w) else attempt (on_vm VmmError.Platform (vm_stop (e_vm E))) (Ok ()) w)"

text \<open>Everything before the drops: the fault that \<open>stop\<close> reports and the first cleanup error.\<close>

definition release ::
  "('v, 's, 'n, 'q, 'm, 'u, 'c) env \<Rightarrow> (('v, 's, 'n, 'q, 'm, 'u) world, (unit, VmmError) result \<times> (unit, VmmError) result, VmmError) prog" where
  "release E =
     bnd (stop_vm E) (\<lambda>fault.
     bnd get_state (\<lambda>w.
     let slots = [0 ..< length (rt_devices (w_rt w))] in
     bnd (attempt_all (map (flush_slot E) slots) (Ok ())) (\<lambda>res.
     bnd (if rt_vm (w_rt w) = None then ret res
          else attempt_all (map (stop_slot E) slots @ map (unmap_base E) (take (rt_mapped (w_rt w)) (rt_base (w_rt w)))) res) (\<lambda>res.
     ret (fault, res)))))"

text \<open>Dropping a memory device stops its status.\<close>

definition drop_device :: "(('s, 'n) Device, 'q) mmio \<Rightarrow> (('s, 'n) Device, 'q) mmio" where
  "drop_device t = (case device t of DevMem m \<Rightarrow> t\<lparr>device := DevMem (memory_drop m)\<rparr> | _ \<Rightarrow> t)"

definition cleanup ::
  "('v, 's, 'n, 'q, 'm, 'u, 'c) env \<Rightarrow> (('v, 's, 'n, 'q, 'm, 'u) world, (unit, VmmError) result \<times> (unit, VmmError) result, VmmError) prog" where
  "cleanup E =
     bnd (release E) (\<lambda>outcome.
     bnd (modify (\<lambda>w. w\<lparr>w_rt := (w_rt w)\<lparr>rt_vm := None, rt_base := [], rt_devices := map drop_device (rt_devices (w_rt w))\<rparr>\<rparr>)) (\<lambda>_.
     ret outcome))"

section \<open>A whole run\<close>

text \<open>\<open>Result::and\<close>.\<close>

definition and_result :: "(unit, 'e) result \<Rightarrow> (unit, 'e) result \<Rightarrow> (unit, 'e) result" where
  "and_result r s = and_then r (\<lambda>_. s)"

text \<open>The messages of an outcome, as the lifecycle keeps them.\<close>

definition outcome_of :: "('v, 's, 'n, 'q, 'm, 'u, 'c) env \<Rightarrow> (unit, VmmError) result \<Rightarrow> outcome" where
  "outcome_of E r = (case r of Err e \<Rightarrow> Some (vmm_chain (e_causes E) e) | _ \<Rightarrow> None)"

text \<open>From \<open>init\<close> to the end of the event loop.\<close>

definition main_part ::
  "('v, 's, 'n, 'q, 'm, 'u, 'c) env \<Rightarrow> VmConfig \<Rightarrow> ('v, 's, 'n, 'q, 'm, 'u) world \<Rightarrow>
    ((unit, VmmError) result \<times> ('v, 's, 'n, 'q, 'm, 'u) world) option" where
  "main_part E config w = (case is_stopping E w of
     (Ok False, w) \<Rightarrow> (case bnd (runtime_init E config) (\<lambda>_. update_control E running) w of
        (Ok _, w) \<Rightarrow> run_loop E False w
      | (Err e, w) \<Rightarrow> Some (Err e, w)
      | (Panic, w) \<Rightarrow> Some (Panic, w))
   | (_, w) \<Rightarrow> Some (Ok (), w))"

text \<open>After the main part: cleanup on every path that did not panic.\<close>

definition wind_down ::
  "('v, 's, 'n, 'q, 'm, 'u, 'c) env \<Rightarrow> (unit, VmmError) result \<Rightarrow> (('v, 's, 'n, 'q, 'm, 'u) world, unit, VmmError) prog" where
  "wind_down E res =
     (if res = Panic then panic
      else
      bnd (update_control E cleaning) (\<lambda>_.
      bnd (cleanup E) (\<lambda>(fault, cleaned).
      bnd (update_control E (cleanup_result (outcome_of E cleaned))) (\<lambda>_.
      pure_res (and_result (and_result res fault) cleaned)))))"

text \<open>A memory device not yet handed to a runtime reads the shared status too.\<close>

definition share_status :: "vm_control \<Rightarrow> virtio_mem option \<Rightarrow> virtio_mem option" where
  "share_status c mem = map_option (\<lambda>m. m\<lparr>control := (case vm_memory c of Some st \<Rightarrow> st | None \<Rightarrow> control m)\<rparr>) mem"

text \<open>\<open>runtime::run\<close> over a world with the lifecycle, the UART and an unused runtime.\<close>

definition runtime_run ::
  "('v, 's, 'n, 'q, 'm, 'u, 'c) env \<Rightarrow> VmConfig \<Rightarrow> (string \<times> 's) list \<Rightarrow> 'n option \<Rightarrow> virtio_mem option \<Rightarrow>
    ('v, 's, 'n, 'q, 'm, 'u) world \<Rightarrow> ((unit, VmmError) result \<times> ('v, 's, 'n, 'q, 'm, 'u) world) option" where
  "runtime_run E config disks nic mem w = (case runtime_new E config disks nic (share_status (w_control w) mem) of
     Ok rt \<Rightarrow> (case main_part E config (w\<lparr>w_rt := rt\<rparr>) of
        None \<Rightarrow> None
      | Some (res, w) \<Rightarrow> Some (wind_down E res w))
   | Err e \<Rightarrow> Some (Err e, w)
   | Panic \<Rightarrow> Some (Panic, w))"

section \<open>Accesses\<close>

text \<open>The interrupt line of the window an access falls in, and its device's present level.\<close>

definition line_of :: "('v, 's, 'n, 'q, 'm, 'u, 'c) env \<Rightarrow> 'c IoAccess \<Rightarrow> ('v, 's, 'n, 'q, 'm, 'u) world \<Rightarrow> (u32 \<times> bool) option" where
  "line_of E a w =
     (let lay = rt_layout (w_rt w) in
      if within a (ml_uart lay) then Some (io_irq (ml_uart lay), uart_level (e_uart E) (w_uart w))
      else map_option (\<lambda>slot. (io_irq (ml_virtio lay ! slot), interrupt_pending (rt_devices (w_rt w) ! slot)))
             (position (within a) (ml_virtio lay)))"

text \<open>An access inside a window that decodes to no register.\<close>

definition undecodable :: "('v, 's, 'n, 'q, 'm, 'u, 'c) env \<Rightarrow> 'c IoAccess \<Rightarrow> ('v, 's, 'n, 'q, 'm, 'u) world \<Rightarrow> bool" where
  "undecodable E a w =
     (let lay = rt_layout (w_rt w) in
      if within a (ml_uart lay) then \<not> (a_address a - io_address (ml_uart lay) < 8 \<and> a_width a = 1)
      else (case position (within a) (ml_virtio lay) of
        None \<Rightarrow> False
      | Some slot \<Rightarrow> let reg = ml_virtio lay ! slot in slot < length (rt_devices (w_rt w)) \<and>
          (\<not> fits a reg \<or> (if a_write a then a_width a \<noteq> 4
             else mmio_read (e_crates E) (e_devices E) (rt_devices (w_rt w) ! slot) (a_address a - io_address reg) (a_width a) = None))))"

text \<open>Replace the virtual machine of a world.\<close>

definition put_vm :: "'v option \<Rightarrow> ('v, 's, 'n, 'q, 'm, 'u) world \<Rightarrow> ('v, 's, 'n, 'q, 'm, 'u) world" where
  "put_vm v w = w\<lparr>w_rt := (w_rt w)\<lparr>rt_vm := v\<rparr>\<rparr>"

lemma put_vm_simps [simp]:
  "rt_vm (w_rt (put_vm v w)) = v" "rt_devices (w_rt (put_vm v w)) = rt_devices (w_rt w)"
  "rt_layout (w_rt (put_vm v w)) = rt_layout (w_rt w)" "w_uart (put_vm v w) = w_uart w" "w_view (put_vm v w) = w_view w"
  "rt_strict (w_rt (put_vm v w)) = rt_strict (w_rt w)" "put_vm v (put_vm v' w) = put_vm v w" "put_vm (rt_vm (w_rt w)) w = w"
  "rt_base (w_rt (put_vm v w)) = rt_base (w_rt w)" "rt_mapped (w_rt (put_vm v w)) = rt_mapped (w_rt w)"
  by (simp_all add: put_vm_def)

lemma on_vm_iff:
  "on_vm conv f w = (r, w') \<longleftrightarrow> (case rt_vm (w_rt w) of None \<Rightarrow> r = Panic \<and> w' = w
     | Some v \<Rightarrow> (\<exists>r0 v'. f v = (r0, v') \<and> r = map_err conv r0 \<and> w' = put_vm (Some v') w))"
  by (auto simp: on_vm_def put_vm_def split: option.splits prod.splits)

lemma on_vm_Ok:
  "on_vm conv f w = (Ok x, w') \<longleftrightarrow> (\<exists>v v'. rt_vm (w_rt w) = Some v \<and> f v = (Ok x, v') \<and> w' = put_vm (Some v') w)"
  by (auto simp: on_vm_iff split: option.splits dest!: sym [of "Ok x"]) 

lemma bnd_Ok: "bnd f g s = (Ok y, s') \<longleftrightarrow> (\<exists>x s1. f s = (Ok x, s1) \<and> g x s1 = (Ok y, s'))"
  by (auto simp: bnd_def split: prod.splits result.splits)

lemma bnd_get: "bnd get_state g s = g s s"
  by (simp add: bnd_def get_state_def)

text \<open>The tail of an access: the value, the line, then the completion.\<close>

lemma finish_io_Ok:
  assumes "finish_io E a value line level w = (Ok (), w')"
  shows "\<exists>v x v1 v2. rt_vm (w_rt w) = Some v \<and> x = (case value of Some y \<Rightarrow> y | None \<Rightarrow> unclaimed a) \<and>
    vm_set_irq (e_vm E) line level v = (Ok (), v1) \<and> vm_complete_io (e_vm E) (a_completion a) x v1 = (Ok (), v2) \<and>
    w' = put_vm (Some v2) w"
proof -
  have "\<exists>x. access_value (rt_strict (w_rt w)) a value w = (Ok x, w) \<and> x = (case value of Some y \<Rightarrow> y | None \<Rightarrow> unclaimed a)"
    using assms by (auto simp: finish_io_def bnd_get bnd_Ok access_value_def ret_def throw_def split: option.splits if_splits)
  with assms show ?thesis
    by (auto simp: finish_io_def bnd_get bnd_Ok on_vm_Ok)
qed

lemma finish_io_put_vm: "\<exists>v. snd (finish_io E a value line level w) = put_vm v w"
proof -
  have val: "snd (access_value str a value w) = w" for str
    by (simp add: access_value_def ret_def throw_def split: option.splits)
  have vm: "\<exists>v. snd (on_vm conv f x) = put_vm v x" for conv :: "PlatformError \<Rightarrow> VmmError" and f :: "('v, unit, PlatformError) prog" and x
    by (auto simp: on_vm_def put_vm_def split: option.splits prod.splits) (metis put_vm_def put_vm_simps(8))
  obtain r where r: "access_value (rt_strict (w_rt w)) a value w = (r, w)" using val by (metis prod.collapse)
  obtain r1 w1 where s: "on_vm VmmError.Platform (vm_set_irq (e_vm E) line level) w = (r1, w1)" by fastforce
  obtain v1 where w1: "w1 = put_vm v1 w" using vm s by (metis snd_conv)
  show ?thesis
  proof (cases r)
    case (Ok x)
    show ?thesis
    proof (cases r1)
      case (Ok u)
      obtain v2 where "snd (on_vm VmmError.Platform (vm_complete_io (e_vm E) (a_completion a) x) w1) = put_vm v2 w1"
        using vm by blast
      with Ok \<open>r = Ok x\<close> r s w1 show ?thesis by (auto simp: finish_io_def get_state_def bnd_def)
    qed (use \<open>r = Ok x\<close> r s w1 in \<open>auto simp: finish_io_def get_state_def bnd_def\<close>)
  qed (use r in \<open>auto simp: finish_io_def get_state_def bnd_def intro: exI [of _ "rt_vm (w_rt w)"]\<close>)
qed

lemma slot_level_iff: "slot_level i w = (if i < length (rt_devices (w_rt w)) then (Ok (interrupt_pending (rt_devices (w_rt w) ! i)), w) else (Panic, w))"
  by (simp add: slot_level_def on_slot_def set_device_def)

text \<open>An access changes neither the layout nor the virtual machine before its tail.\<close>

definition same_machine :: "('v, 's, 'n, 'q, 'm, 'u) world \<Rightarrow> ('v, 's, 'n, 'q, 'm, 'u) world \<Rightarrow> bool" where
  "same_machine w w' \<longleftrightarrow> rt_vm (w_rt w') = rt_vm (w_rt w) \<and> rt_layout (w_rt w') = rt_layout (w_rt w) \<and>
     length (rt_devices (w_rt w')) = length (rt_devices (w_rt w))"

lemma same_machine_order [simp]: "reflp same_machine" "transp same_machine"
  by (auto simp: reflp_def transp_def same_machine_def)

lemma on_uart_keeps [keeps_intros]: "keeps same_machine (on_uart f)"
  by (auto simp: keeps_def on_uart_def same_machine_def split: prod.splits)

lemma on_slot_keeps [keeps_intros]: "keeps same_machine (on_slot i f)"
  by (auto simp: keeps_def on_slot_def same_machine_def set_device_def split: prod.splits)

lemma uart_access_keeps: "keeps same_machine (uart_access E a offset)"
  unfolding uart_access_def by (intro keeps_intros same_machine_order)

lemma device_access_keeps: "keeps same_machine (device_access E slot reg a offset)"
  unfolding device_access_def by (intro keeps_intros same_machine_order)

lemma position_Some: "position P xs = Some i \<Longrightarrow> i < length xs \<and> P (xs ! i)"
  by (induction xs arbitrary: i) (auto split: if_splits)

text \<open>C4. The virtual machine sees a guest access complete only after the interrupt line of the accessed window
  was set to the level the device has after the access: the line is set and the access completed, in
  this order, and nothing else is done to the machine.\<close>

theorem access_completed_after_line:
  assumes "handle_io E a w = (Ok (), w')"
  shows "\<exists>v line level v1 x. rt_vm (w_rt w) = Some v \<and> line_of E a w' = Some (line, level) \<and>
    vm_set_irq (e_vm E) line level v = (Ok (), v1) \<and>
    (\<exists>v2. vm_complete_io (e_vm E) (a_completion a) x v1 = (Ok (), v2) \<and> rt_vm (w_rt w') = Some v2)"
proof (cases "within a (ml_uart (rt_layout (w_rt w)))")
  case True
  with assms obtain got w1 where ua: "uart_access E a (a_address a - io_address (ml_uart (rt_layout (w_rt w)))) w = (Ok got, w1)"
    and fin: "finish_io E a got (io_irq (ml_uart (rt_layout (w_rt w)))) (uart_level (e_uart E) (w_uart w1)) w1 = (Ok (), w')"
    by (auto simp: handle_io_def bnd_get bnd_Ok Let_def)
  have "same_machine w w1" using keepsD [OF uart_access_keeps ua] .
  with True finish_io_Ok [OF fin] show ?thesis
    by (auto simp: same_machine_def line_of_def)
next
  case False
  with assms obtain slot where slot: "position (within a) (ml_virtio (rt_layout (w_rt w))) = Some slot"
    by (cases "position (within a) (ml_virtio (rt_layout (w_rt w)))") (auto simp: handle_io_def bnd_get throw_def Let_def)
  let ?reg = "ml_virtio (rt_layout (w_rt w)) ! slot"
  from False slot assms obtain got w1 where da: "device_access E slot ?reg a (a_address a - io_address ?reg) w = (Ok got, w1)"
    and fin: "finish_io E a got (io_irq ?reg) (interrupt_pending (rt_devices (w_rt w1) ! slot)) w1 = (Ok (), w')"
    by (auto simp: handle_io_def bnd_get bnd_Ok slot_level_iff panic_def Let_def split: if_splits)
  have "same_machine w w1" using keepsD [OF device_access_keeps da] .
  with False slot finish_io_Ok [OF fin] show ?thesis
    by (auto simp: same_machine_def line_of_def)
qed

text \<open>An access that starts inside a device window but decodes to no register never reaches a device: in
  strict mode the run ends with \<open>InvalidAccess\<close> and nothing has changed; otherwise only the virtual
  machine changes, and it completes the access with zero for a write and all ones for a read.\<close>

theorem undecodable_access:
  assumes "undecodable E a w" and "handle_io E a w = (r, w')"
  shows "(rt_strict (w_rt w) \<longrightarrow> w' = w \<and>
      r = Err (VmmError.Runtime (RuntimeError.InvalidAccess (a_address a) (a_width a) (a_write a)))) \<and>
    (\<not> rt_strict (w_rt w) \<longrightarrow> w' = put_vm (rt_vm (w_rt w')) w \<and>
      (r = Ok () \<longrightarrow> (\<exists>v v1 v2 line level. rt_vm (w_rt w) = Some v \<and> line_of E a w = Some (line, level) \<and>
        vm_set_irq (e_vm E) line level v = (Ok (), v1) \<and>
        vm_complete_io (e_vm E) (a_completion a) (if a_write a then 0 else word_of_nat (256 ^ min 8 (a_width a) - 1)) v1 = (Ok (), v2) \<and>
        rt_vm (w_rt w') = Some v2)))"
proof -
  have val: "unclaimed a = (if a_write a then 0 else word_of_nat (256 ^ min 8 (a_width a) - 1))"
  proof (cases "8 \<le> a_width a")
    case True
    then show ?thesis by (simp add: unclaimed_def u64_max_def)
  next
    case False
    then have "(push_bit (8 * a_width a) 1 :: u64) = word_of_nat (256 ^ a_width a)"
      by (simp add: push_bit_eq_mult power_mult)
    with False show ?thesis by (simp add: unclaimed_def of_nat_diff)
  qed
  obtain line level where ln: "line_of E a w = Some (line, level)" and fin: "handle_io E a w = finish_io E a None line level w"
  proof (cases "within a (ml_uart (rt_layout (w_rt w)))")
    case True
    with assms(1) show ?thesis
      by (intro that [of "io_irq (ml_uart (rt_layout (w_rt w)))" "uart_level (e_uart E) (w_uart w)"])
        (auto simp: undecodable_def line_of_def handle_io_def bnd_get uart_access_def bnd_def ret_def get_state_def Let_def)
  next
    case False
    with assms(1) obtain slot where "position (within a) (ml_virtio (rt_layout (w_rt w))) = Some slot" "slot < length (rt_devices (w_rt w))"
      by (auto simp: undecodable_def Let_def split: option.splits)
    with False assms(1) show ?thesis
      by (intro that [of "io_irq (ml_virtio (rt_layout (w_rt w)) ! slot)" "interrupt_pending (rt_devices (w_rt w) ! slot)"])
        (auto simp: undecodable_def line_of_def handle_io_def device_access_def bnd_def get_state_def ret_def slot_level_iff
          on_slot_def set_device_def Let_def split: if_splits)
  qed
  have str: "rt_strict (w_rt w) \<Longrightarrow> finish_io E a None line level w =
      (Err (VmmError.Runtime (RuntimeError.InvalidAccess (a_address a) (a_width a) (a_write a))), w)"
    by (simp add: finish_io_def access_value_def bnd_def get_state_def throw_def)
  have tail: "finish_io E a None line level w = (r, w')" using fin assms(2) by simp
  have put: "w' = put_vm (rt_vm (w_rt w')) w"
    using finish_io_put_vm [of E a None line level w] unfolding tail by auto
  have "\<exists>v v1 v2. rt_vm (w_rt w) = Some v \<and> vm_set_irq (e_vm E) line level v = (Ok (), v1) \<and>
      vm_complete_io (e_vm E) (a_completion a) (unclaimed a) v1 = (Ok (), v2) \<and> rt_vm (w_rt w') = Some v2" if "r = Ok ()"
    using finish_io_Ok [of E a None line level w w'] fin assms(2) that by auto
  with put ln str fin assms(2) show ?thesis unfolding val by auto
qed

section \<open>A stop from another thread ends the loop\<close>

text \<open>What other threads may do through their handles.\<close>

datatype host_call = CallSubmit nat Operation | CallStop nat | CallTarget u64

fun call_handle :: "host_call \<Rightarrow> vm_control \<Rightarrow> vm_control" where
  "call_handle (CallSubmit thread op) c = snd (submit thread op c)"
| "call_handle (CallStop thread) c = snd (stop thread c)"
| "call_handle (CallTarget target) c = snd (control_set_requested target c)"

definition call_handles :: "host_call list \<Rightarrow> vm_control \<Rightarrow> vm_control" where
  "call_handles cs c = fold call_handle cs c"

text \<open>The lifecycle while its owner runs: not yet stopped, and begun.\<close>

definition owned :: "nat \<Rightarrow> vm_control \<Rightarrow> bool" where
  "owned me c \<longleftrightarrow> owner c = Some me \<and> vm_lifecycle c \<notin> {VmCreated, VmStopped}"

definition forward :: "nat \<Rightarrow> vm_control \<Rightarrow> vm_control \<Rightarrow> bool" where
  "forward me c c' \<longleftrightarrow> (owned me c \<longrightarrow> owned me c') \<and> (owned me c \<and> stopping c \<longrightarrow> stopping c')"

lemma forward_order: "forward me c c" "forward me a b \<Longrightarrow> forward me b c \<Longrightarrow> forward me a c"
  by (auto simp: forward_def)

lemma host_call_forward: "forward me c (call_handle x c)"
  by (cases x)
    (auto simp: forward_def owned_def stopping_def submit_def stop_def cancel_def control_set_requested_def
      split: prod.splits option.splits)

lemma host_calls_forward: "forward me c (call_handles cs c)"
  unfolding call_handles_def by (induction cs arbitrary: c) (auto intro: forward_order host_call_forward)

lemma host_stop: "owned me c \<Longrightarrow> t \<noteq> me \<Longrightarrow> stopping (call_handle (CallStop t) c)"
  by (auto simp: owned_def stop_def cancel_def stopping_def)

lemma host_calls_stop:
  assumes "owned me c" and "CallStop t \<in> set cs" and "t \<noteq> me"
  shows "stopping (call_handles cs c)"
proof -
  obtain xs ys where cs: "cs = xs @ CallStop t # ys" using assms(2) by (blast dest: split_list)
  let ?c = "call_handle (CallStop t) (call_handles xs c)"
  have o: "owned me (call_handles xs c)" using host_calls_forward [of me c xs] assms(1) by (simp add: forward_def)
  have "stopping ?c" using host_stop [OF o assms(3)] .
  moreover have "owned me ?c" using host_call_forward [of me "call_handles xs c" "CallStop t"] o by (simp add: forward_def)
  moreover have "forward me ?c (call_handles cs c)"
    using host_calls_forward [of me ?c ys] cs by (simp add: call_handles_def)
  ultimately show ?thesis by (simp add: forward_def)
qed

lemma forward_status: "forward me c (put_status st c)"
  by (simp add: forward_def owned_def stopping_def put_status_def)

text \<open>The other threads act through their handles only, and one of them calls \<open>stop\<close> at each time of \<open>T\<close>.\<close>

definition only_handles :: "('v, 's, 'n, 'q, 'm, 'u, 'c) env \<Rightarrow> (nat \<Rightarrow> host_call list) \<Rightarrow> nat set \<Rightarrow> nat \<Rightarrow> bool" where
  "only_handles E calls T me \<longleftrightarrow> (\<forall>n. e_others E n = call_handles (calls n)) \<and>
     (\<forall>n \<in> T. \<exists>t. t \<noteq> me \<and> CallStop t \<in> set (calls n))"

definition stop_called :: "('v, 's, 'n, 'q, 'm, 'u, 'c) env \<Rightarrow> (nat \<Rightarrow> host_call list) \<Rightarrow> nat \<Rightarrow> nat \<Rightarrow> bool" where
  "stop_called E calls N me \<longleftrightarrow> (\<forall>n. e_others E n = call_handles (calls n)) \<and> (\<exists>t. t \<noteq> me \<and> CallStop t \<in> set (calls N))"

text \<open>What the runtime itself does to the clock and the lifecycle in its loop: a stop is not forgotten.\<close>

definition due :: "nat set \<Rightarrow> ('v, 's, 'n, 'q, 'm, 'u) world \<Rightarrow> bool" where
  "due T w \<longleftrightarrow> (\<forall>n \<in> T. w_clock w \<le> n \<or> stopping (w_control w))"

definition onward :: "nat set \<Rightarrow> nat \<Rightarrow> ('v, 's, 'n, 'q, 'm, 'u) world \<Rightarrow> ('v, 's, 'n, 'q, 'm, 'u) world \<Rightarrow> bool" where
  "onward T me w w' \<longleftrightarrow> w_clock w \<le> w_clock w' \<and> forward me (w_control w) (w_control w') \<and>
     (owned me (w_control w) \<and> due T w \<longrightarrow> due T w')"

lemma onward_order [simp]: "reflp (onward T me)" "transp (onward T me)"
  by (auto simp: reflp_def transp_def onward_def forward_def)

lemma onward_same: "w_clock w' = w_clock w \<Longrightarrow> w_control w' = w_control w \<Longrightarrow> onward T me w w'"
  by (simp add: onward_def forward_order due_def)

lemma on_control_step:
  assumes "only_handles E calls T me" and "\<And>c. forward me c (snd (f c))"
  shows "w_clock w < w_clock (snd (on_control E f w)) \<and> onward T me w (snd (on_control E f w))"
proof -
  let ?old = "put_status (status_of (rt_devices (w_rt w))) (w_control w)"
  let ?new = "call_handles (calls (w_clock w)) ?old"
  obtain x c where f: "f ?new = (x, c)" by fastforce
  have c0: "forward me (w_control w) ?old" by (rule forward_status)
  have c1: "forward me ?old ?new" by (rule host_calls_forward)
  have c2: "forward me ?new c" using assms(2) [of ?new] f by simp
  have "stopping c" if o: "owned me (w_control w)" and n: "w_clock w \<in> T"
  proof -
    obtain t where "t \<noteq> me" "CallStop t \<in> set (calls (w_clock w))" using assms(1) n by (auto simp: only_handles_def)
    moreover have "owned me ?old" using c0 o by (simp add: forward_def)
    ultimately have "stopping ?new" "owned me ?new" using host_calls_stop c1 by (auto simp: forward_def)
    then show ?thesis using c2 by (simp add: forward_def)
  qed
  moreover have "forward me (w_control w) c" using c0 c1 c2 by (blast intro: forward_order(2))
  moreover have "e_others E (w_clock w) = call_handles (calls (w_clock w))" using assms(1) by (simp add: only_handles_def)
  ultimately show ?thesis using f by (auto simp: on_control_def onward_def due_def forward_def Suc_le_eq le_less)
qed

lemma on_control_onward:
  assumes "only_handles E calls T me" and "\<And>c. forward me c (snd (f c))"
  shows "keeps (onward T me) (on_control E f)"
  using on_control_step [OF assms] by (simp add: keeps_def)

lemma vm_onward [keeps_intros]: "keeps (onward T me) (on_vm conv f)"
  by (auto simp: keeps_def on_vm_def onward_same split: prod.splits option.splits)

lemma slot_onward [keeps_intros]: "keeps (onward T me) (on_slot i f)"
  by (auto simp: keeps_def on_slot_def onward_same set_device_def split: prod.splits)

lemma uart_onward [keeps_intros]: "keeps (onward T me) (on_uart f)"
  by (auto simp: keeps_def on_uart_def onward_same split: prod.splits)

lemma requests_onward [keeps_intros]: "keeps (onward T me) (process_requests E i pins)"
  by (auto simp: keeps_def process_requests_def onward_same set_device_def Let_def
      split: prod.splits option.splits Device.splits)

lemma sync_onward [simp]: "onward T me w (sync_memory i ready w)"
  by (auto simp: sync_memory_def onward_same set_device_def Let_def split: prod.splits Device.splits)

lemma for_each_onward [keeps_intros]: "(\<And>x. keeps (onward T me) (f x)) \<Longrightarrow> keeps (onward T me) (for_each f xs)"
  by (induction xs) (auto intro!: keeps_intros)

lemma scan_onward [keeps_intros]: "keeps (onward T me) (scan_pins E is pins)"
  by (induction "is" arbitrary: pins) (auto intro!: keeps_intros)

lemma handle_io_onward [keeps_intros]: "keeps (onward T me) (handle_io E a)"
  unfolding handle_io_def uart_access_def device_access_def finish_io_def access_value_def slot_level_def Let_def
  by (intro keeps_intros onward_order)

lemma process_memory_onward:
  assumes "only_handles E calls T me"
  shows "keeps (onward T me) (process_memory E)"
  unfolding process_memory_def update_control_def Let_def
  by (intro keeps_intros onward_order on_control_onward [OF assms] sync_onward) (simp add: forward_order)

lemma turn_onward:
  assumes "only_handles E calls T me"
  shows "keeps (onward T me) (turn E)"
proof -
  have io: "keeps (onward T me) (case y of Event.Io a \<Rightarrow> bnd (handle_io E a) (\<lambda>_. ret True) | Shutdown \<Rightarrow> ret False)" for y
    by (cases y) (auto intro!: keeps_intros)
  show ?thesis unfolding turn_def raise_line_def slot_level_def Let_def
    by (intro keeps_intros onward_order process_memory_onward [OF assms] io)
qed

lemma serve_onward:
  assumes "only_handles E calls T me"
  shows "keeps (onward T me) (serve E susp r)"
proof -
  let ?act = "if operation r = OpPause \<and> \<not> susp then
      bnd (on_vm VmmError.Platform (vm_pause (e_vm E))) (\<lambda>outcome. ret (outcome = OutcomeStopping))
    else if operation r = OpResume \<and> susp then bnd (on_vm VmmError.Platform (vm_resume (e_vm E))) (\<lambda>_. ret False)
    else ret False"
  have act: "keeps (onward T me) ?act" by (intro keeps_intros onward_order)
  have ctl: "keeps (onward T me) (bnd (update_control E f) g)"
    if "\<And>c. forward me c (f c)" "\<And>x. keeps (onward T me) (g x)" for f and g :: "unit \<Rightarrow> (_, bool option, _) prog"
    unfolding update_control_def using that by (intro keeps_intros onward_order on_control_onward [OF assms]) simp_all
  have fwd: "forward me c (reject_stopping r c)" "forward me c (complete_request r out c)" for out c
    by (auto simp: forward_def owned_def stopping_def reject_stopping_def complete_request_def cancel_def Let_def
        split: Operation.splits)
  have tails: "keeps (onward T me) (bnd (update_control E (reject_stopping r)) (\<lambda>_. ret None :: (_, bool option, _) prog))"
    "keeps (onward T me) (bnd (update_control E (complete_request r out)) (\<lambda>_. ret (Some b)))"
    "keeps (onward T me) (bnd (update_control E (complete_request r out)) (\<lambda>_. throw e :: (_, bool option, _) prog))" for out e and b :: bool
    by ((rule ctl, rule fwd, intro keeps_intros onward_order))+
  have "onward T me w (snd (serve E susp r w))" for w
  proof (cases "rt_vm (w_rt w) = None")
    case True
    then show ?thesis by (simp add: serve_def Let_def onward_same)
  next
    case False
    obtain x w1 where x: "?act w = (x, w1)" by fastforce
    have w1: "onward T me w w1" using keepsD [OF act x] .
    have after: "onward T me w (snd (g w1))" if "keeps (onward T me) g" for g :: "(_, bool option, VmmError) prog"
      by (rule transpD [OF onward_order(2) w1]) (use that in \<open>simp add: keeps_def\<close>)
    have "serve E susp r w = (case x of
        Ok True \<Rightarrow> bnd (update_control E (reject_stopping r)) (\<lambda>_. ret None) w1
      | Ok False \<Rightarrow> bnd (update_control E (complete_request r None)) (\<lambda>_. ret (Some (operation r = OpPause))) w1
      | Err e \<Rightarrow> bnd (update_control E (complete_request r (Some (vmm_chain (e_causes E) e)))) (\<lambda>_. throw e) w1
      | Panic \<Rightarrow> (Panic, w1))"
      using False x unfolding serve_def Let_def by (simp only: if_False) (auto split: result.splits bool.splits)
    then show ?thesis using after [OF tails(1)] after [OF tails(2)] after [OF tails(3)] w1
      by (auto split: result.splits bool.splits)
  qed
  then show ?thesis by (simp add: keeps_def)
qed

text \<open>Every pass advances the clock, and a pass that finds the lifecycle stopping is the last.\<close>

lemma loop_pass_step:
  assumes "only_handles E calls T me" and "loop_pass E susp w = (r, w')"
  shows "w_clock w < w_clock w' \<and> onward T me w w'"
proof -
  define rest where "rest st = (if st then ret None else bnd (on_control E next_request) (\<lambda>request. case request of
       Some r \<Rightarrow> serve E susp r
     | None \<Rightarrow> if susp then bnd (update_control E (\<lambda>c. c)) (\<lambda>_. ret (Some True))
               else bnd (turn E) (\<lambda>go. ret (if go then Some False else None))))" for st
  have "forward me c (snd (next_request c))" for c
    by (auto simp: next_request_def forward_def owned_def stopping_def split: list.splits)
  then have rest: "keeps (onward T me) (rest st)" for st unfolding rest_def update_control_def
    by (intro keeps_intros onward_order on_control_onward [OF assms(1)] serve_onward [OF assms(1)] turn_onward [OF assms(1)])
      (simp_all add: forward_order)
  obtain st w1 where s: "is_stopping E w = (Ok st, w1)" by (simp add: is_stopping_def on_control_def)
  have w1: "w_clock w < w_clock w1 \<and> onward T me w w1"
    using on_control_step [OF assms(1), of "\<lambda>c. (stopping c, c)" w] s by (simp add: is_stopping_def forward_order)
  have "rest st w1 = (r, w')" using s assms(2) by (simp add: loop_pass_def bnd_def rest_def)
  from keepsD [OF rest this] have w2: "onward T me w1 w'" .
  then show ?thesis using w1 transpD [OF onward_order(2), of T me w w1 w'] by (auto simp: onward_def)
qed

lemma stopping_pass:
  assumes "only_handles E calls {N} me" and "owned me (w_control w)" and "due {N} w" and "N \<le> w_clock w"
  shows "\<exists>w'. loop_pass E susp w = (Ok None, w')"
proof -
  obtain st w1 where s: "is_stopping E w = (Ok st, w1)" by (simp add: is_stopping_def on_control_def)
  have st: "st = stopping (w_control w1)" using s by (auto simp: is_stopping_def on_control_def)
  have "w_clock w < w_clock w1 \<and> onward {N} me w w1"
    using on_control_step [OF assms(1), of "\<lambda>c. (stopping c, c)" w] s by (simp add: is_stopping_def forward_order)
  then have "stopping (w_control w1)" using assms(2-4) by (auto simp: onward_def due_def)
  with s st show ?thesis by (simp add: loop_pass_def bnd_def ret_def)
qed


section \<open>Guest memory is remapped only while the machine is paused\<close>

text \<open>A mapper that refuses to run outside the states \<open>quiet\<close>.\<close>

definition guard_mapper :: "('p \<Rightarrow> bool) \<Rightarrow> 'p mapper_ops \<Rightarrow> 'p mapper_ops" where
  "guard_mapper quiet P =
     \<lparr>mp_map = (\<lambda>r p. if quiet p then mp_map P r p else (Panic, p)),
      mp_unmap = (\<lambda>r p. if quiet p then mp_unmap P r p else (Panic, p))\<rparr>"

definition keeps_quiet :: "('p \<Rightarrow> bool) \<Rightarrow> 'p mapper_ops \<Rightarrow> bool" where
  "keeps_quiet quiet P \<longleftrightarrow> (\<forall>r p. quiet p \<longrightarrow> quiet (snd (mp_map P r p)) \<and> quiet (snd (mp_unmap P r p)))"

lemma guarded_step:
  assumes "keeps_quiet quiet P" and "quiet p"
  shows "(if plug then mp_map (guard_mapper quiet P) r else mp_unmap (guard_mapper quiet P) r) p =
      (if plug then mp_map P r else mp_unmap P r) p \<and>
    quiet (snd ((if plug then mp_map P r else mp_unmap P r) p))"
  using assms by (auto simp: guard_mapper_def keeps_quiet_def)

lemma guarded_rollback:
  assumes "keeps_quiet quiet P" and "quiet p"
  shows "rollback (guard_mapper quiet P) plug rs first p = rollback P plug rs first p \<and> quiet (snd (rollback P plug rs first p))"
  using assms(2)
proof (induction rs arbitrary: first p)
  case (Cons r rs)
  from guarded_step [OF assms(1) Cons.prems, of "\<not> plug" r] Cons.IH show ?case
    by (auto split: prod.splits result.splits if_splits)
qed simp

lemma guarded_apply:
  assumes "keeps_quiet quiet P" and "quiet p"
  shows "apply_regions (guard_mapper quiet P) plug before rs p = apply_regions P plug before rs p \<and>
    quiet (snd (apply_regions P plug before rs p))"
  using assms(2)
proof (induction rs arbitrary: before p)
  case (Cons r rs)
  let ?m = "(if plug then mp_map P r else mp_unmap P r) p"
  have m: "(if plug then mp_map (guard_mapper quiet P) r else mp_unmap (guard_mapper quiet P) r) p = ?m" "quiet (snd ?m)"
    using guarded_step [OF assms(1) Cons.prems] by blast+
  obtain u p1 where u: "?m = (u, p1)" by fastforce
  with m(2) have q: "quiet p1" by simp
  note rb = guarded_rollback [OF assms(1) q, of plug "rev before" None]
  obtain x p2 where x: "rollback P plug (rev before) None p1 = (x, p2)" by fastforce
  with rb have q2: "quiet p2" and x': "rollback (guard_mapper quiet P) plug (rev before) None p1 = (x, p2)" by simp_all
  show ?case
    unfolding apply_regions.simps m(1) u using Cons.IH [OF q] q q2
    by (cases u) (auto simp: bnd_def x x' throw_def ret_def split: result.splits option.splits)
qed simp

lemma guarded_change:
  assumes "keeps_quiet quiet P" and "quiet p"
  shows "change C (guard_mapper quiet P) A addrs plug (v, p, view) = change C P A addrs plug (v, p, view) \<and>
    quiet (fst (snd (snd (change C P A addrs plug (v, p, view)))))"
proof -
  have "apply_regions (guard_mapper quiet P) plug [] rs p = apply_regions P plug [] rs p"
    "quiet (snd (apply_regions P plug [] rs p))" for rs
    using guarded_apply [OF assms] by blast+
  then show ?thesis using assms(2)
    by (auto simp: change_def split: prod.splits result.splits) (metis snd_conv)+
qed

lemma guarded_request:
  assumes "keeps_quiet quiet P" and "quiet p"
  shows "memory_request C (guard_mapper quiet P) A req pins (v, p, view) = memory_request C P A req pins (v, p, view) \<and>
    quiet (fst (snd (snd (memory_request C P A req pins (v, p, view)))))"
proof -
  let ?k = "word_of_nat (le_nat (sub_bytes 0 2 req)) :: u16"
  let ?d = "decide v ?k (word_of_nat (le_nat (sub_bytes 8 8 req))) (word_of_nat (le_nat (sub_bytes 16 2 req))) pins"
  show ?thesis
  proof (cases ?d)
    case (Inl a)
    then show ?thesis using assms(2) by (simp add: memory_request_def bnd_def get_state_def ret_def Let_def)
  next
    case (Inr addrs)
    obtain x v' p' view' where c: "change C P A addrs (?k = 0) (v, p, view) = (x, v', p', view')"
      by (metis prod.collapse)
    with guarded_change [OF assms] have c': "change C (guard_mapper quiet P) A addrs (?k = 0) (v, p, view) = (x, v', p', view')"
      and q: "quiet p'" by (metis fst_conv snd_conv)+
    show ?thesis using Inr q
      by (simp add: memory_request_def bnd_def get_state_def ret_def modify_def Let_def c c' split: result.splits)
  qed
qed

text \<open>Two programs agree on quiet states and stay there; it composes along \<open>bnd\<close>.\<close>

definition agree :: "('s \<Rightarrow> bool) \<Rightarrow> ('s, 'a, 'e) prog \<Rightarrow> ('s, 'a, 'e) prog \<Rightarrow> bool" where
  "agree Q f g \<longleftrightarrow> (\<forall>s. Q s \<longrightarrow> f s = g s \<and> Q (snd (g s)))"

named_theorems agree_intros \<open>structural rules for programs that agree on a set of states\<close>

lemma agree_bnd [agree_intros]: "agree Q f f' \<Longrightarrow> (\<And>x. agree Q (g x) (g' x)) \<Longrightarrow> agree Q (bnd f g) (bnd f' g')"
  by (auto simp: agree_def bnd_def split: prod.splits result.splits)

lemma agree_simple [agree_intros]:
  "agree Q (ret x) (ret x)" "agree Q (throw e) (throw e)" "agree Q panic panic" "agree Q get_state get_state"
  by (simp_all add: agree_def ret_def throw_def panic_def get_state_def)

lemma agree_if [agree_intros]: "agree Q f f' \<Longrightarrow> agree Q g g' \<Longrightarrow> agree Q (if b then f else g) (if b then f' else g')"
  by simp

lemma agree_option [agree_intros]:
  "agree Q f f' \<Longrightarrow> (\<And>y. agree Q (g y) (g' y)) \<Longrightarrow> agree Q (case x of None \<Rightarrow> f | Some y \<Rightarrow> g y) (case x of None \<Rightarrow> f' | Some y \<Rightarrow> g' y)"
  by (cases x) auto

lemma agree_prod [agree_intros]:
  "(\<And>a b. agree Q (f a b) (f' a b)) \<Longrightarrow> agree Q (case p of (a, b) \<Rightarrow> f a b) (case p of (a, b) \<Rightarrow> f' a b)"
  by (cases p) simp

lemma agree_loop [agree_intros]: "agree Q f f' \<Longrightarrow> agree Q (loop_upto n f) (loop_upto n f')"
  by (induction n) (auto intro!: agree_intros)

definition quiet_state :: "('p \<Rightarrow> bool) \<Rightarrow> ('q, 'p, 'm) memory_state \<Rightarrow> bool" where
  "quiet_state quiet = (\<lambda>(v, qs, p, m). quiet p)"

lemma agree_on_queues [agree_intros]: "agree (quiet_state quiet) (on_queues f) (on_queues f)"
  by (auto simp: agree_def quiet_state_def on_queues_def split: prod.splits)

lemma agree_on_view [agree_intros]: "agree (quiet_state quiet) (on_view f) (on_view f)"
  by (auto simp: agree_def quiet_state_def on_view_def split: prod.splits)

lemma agree_on_blocks:
  assumes "keeps_quiet quiet P"
  shows "agree (quiet_state quiet) (on_blocks (memory_request C (guard_mapper quiet P) A req pins)) (on_blocks (memory_request C P A req pins))"
  using guarded_request [OF assms, of _ C A req pins]
  by (auto simp: agree_def quiet_state_def on_blocks_def split: prod.splits) (metis fst_conv snd_conv)+

lemma guarded_process:
  assumes "keeps_quiet quiet P"
  shows "agree (quiet_state quiet) (memory_process C (guard_mapper quiet P) A pins) (memory_process C P A pins)"
  unfolding memory_process_def process_step_def process_chain_def Let_def
  by (intro agree_intros agree_on_blocks [OF assms])

definition guard_env :: "('v \<Rightarrow> bool) \<Rightarrow> ('v, 's, 'n, 'q, 'm, 'u, 'c) env \<Rightarrow> ('v, 's, 'n, 'q, 'm, 'u, 'c) env" where
  "guard_env quiet E = E\<lparr>e_vm := (e_vm E)\<lparr>vm_mapper := guard_mapper quiet (vm_mapper (e_vm E))\<rparr>\<rparr>"

lemma guard_env_simps [simp]:
  "e_crates (guard_env quiet E) = e_crates E" "e_alloc (guard_env quiet E) = e_alloc E" "e_others (guard_env quiet E) = e_others E"
  "vm_mapper (e_vm (guard_env quiet E)) = guard_mapper quiet (vm_mapper (e_vm E))"
  "vm_pause (e_vm (guard_env quiet E)) = vm_pause (e_vm E)" "vm_resume (e_vm (guard_env quiet E)) = vm_resume (e_vm E)"
  by (simp_all add: guard_env_def)

definition quiet_world :: "('v \<Rightarrow> bool) \<Rightarrow> ('v, 's, 'n, 'q, 'm, 'u) world \<Rightarrow> bool" where
  "quiet_world quiet w = (case rt_vm (w_rt w) of None \<Rightarrow> False | Some v \<Rightarrow> quiet v)"

lemma agree_slot [agree_intros]: "agree (quiet_world quiet) (on_slot i f) (on_slot i f)"
  by (auto simp: agree_def quiet_world_def on_slot_def set_device_def split: prod.splits option.splits)

lemma guarded_scan: "agree (quiet_world quiet) (scan_pins (guard_env quiet E) is pins) (scan_pins E is pins)"
proof (induction "is" arbitrary: pins)
  case (Cons i "is")
  then show ?case unfolding scan_pins.simps guard_env_simps by (intro agree_intros)
qed (simp add: agree_intros)

lemma guarded_requests:
  fixes E :: "('v, 's, 'n, 'q, 'm, 'u, 'c) env"
  assumes "keeps_quiet quiet (vm_mapper (e_vm E))" and "quiet_world quiet w"
  shows "process_requests (guard_env quiet E) i pins w = process_requests E i pins w"
proof -
  obtain p where p: "rt_vm (w_rt w) = Some p" "quiet p" using assms(2) by (auto simp: quiet_world_def split: option.splits)
  have "memory_process C (guard_mapper quiet (vm_mapper (e_vm E))) A pins (v, qs, p, m) =
      memory_process C (vm_mapper (e_vm E)) A pins (v, qs, p, m)" for A v qs m and C :: "('q, 'm) crates"
    using guarded_process [OF assms(1), of C A pins] p(2) by (simp add: agree_def quiet_state_def)
  then show ?thesis by (auto simp: process_requests_def p Let_def split: Device.splits)
qed

text \<open>With \<open>quiet\<close> what a completed pause establishes and mapping keeps, the guard is never hit.\<close>

lemma remap_only_quiet:
  fixes E :: "('v, 's, 'n, 'q, 'm, 'u, 'c) env"
  assumes "\<And>v v'. vm_pause (e_vm E) v = (Ok OutcomePaused, v') \<Longrightarrow> quiet v'" and "keeps_quiet quiet (vm_mapper (e_vm E))"
  shows "process_memory (guard_env quiet E) = process_memory E"
proof -
  define body where "body F late n = bnd (scan_pins F [0 ..< n] []) (\<lambda>pins.
     bnd (process_requests F late pins) (\<lambda>_.
     bnd (on_vm VmmError.Platform (vm_resume (e_vm F))) (\<lambda>_. ret True)))" for F :: "('v, 's, 'n, 'q, 'm, 'u, 'c) env" and late n
  have body: "body (guard_env quiet E) late n w = body E late n w" if "quiet_world quiet w" for late n w
  proof -
    obtain r w1 where s: "scan_pins E [0 ..< n] [] w = (r, w1)" by fastforce
    with guarded_scan [of quiet E "[0 ..< n]" "[]"] that have "scan_pins (guard_env quiet E) [0 ..< n] [] w = (r, w1)" "quiet_world quiet w1"
      by (auto simp: agree_def)
    with s show ?thesis using guarded_requests [OF assms(2)] by (simp add: body_def bnd_def split: result.splits)
  qed
  have pause: "bnd (on_vm VmmError.Platform (vm_pause (e_vm E))) (\<lambda>outcome. if outcome = OutcomeStopping then ret False else body (guard_env quiet E) late n) =
      bnd (on_vm VmmError.Platform (vm_pause (e_vm E))) (\<lambda>outcome. if outcome = OutcomeStopping then ret False else body E late n)" for late n
  proof
    fix w
    have "body (guard_env quiet E) late n w' = body E late n w'" if "on_vm VmmError.Platform (vm_pause (e_vm E)) w = (Ok outcome, w')"
      "outcome \<noteq> OutcomeStopping" for outcome w'
    proof (rule body)
      from that have "outcome = OutcomePaused" by (cases outcome) simp_all
      with that assms(1) show "quiet_world quiet w'" by (auto simp: on_vm_Ok quiet_world_def)
    qed
    then show "bnd (on_vm VmmError.Platform (vm_pause (e_vm E))) (\<lambda>outcome. if outcome = OutcomeStopping then ret False else body (guard_env quiet E) late n) w =
        bnd (on_vm VmmError.Platform (vm_pause (e_vm E))) (\<lambda>outcome. if outcome = OutcomeStopping then ret False else body E late n) w"
      by (simp add: bnd_def split: prod.splits result.splits)
  qed
  have "process_memory (guard_env quiet E) w = process_memory E w" for w
    unfolding process_memory_def guard_env_simps on_control_def update_control_def Let_def
    unfolding pause [unfolded body_def guard_env_simps] by (rule refl)
  then show ?thesis by blast
qed

section \<open>Cleanup\<close>

lemma attempt_iff:
  "attempt f acc s = (Ok res, s') \<longleftrightarrow> (\<exists>r. f s = (r, s') \<and> r \<noteq> Panic \<and>
    res = (case r of Err e \<Rightarrow> if is_ok acc then Err e else acc | _ \<Rightarrow> acc))"
  by (auto simp: attempt_def split: prod.splits result.splits)

text \<open>Steps that only shrink a set \<open>M\<close> and, when they succeed, remove their own part \<open>U\<close> of it.\<close>

lemma attempt_all_spec:
  fixes M :: "'s \<Rightarrow> 'r set"
  assumes step: "\<And>x s r s'. x \<in> set xs \<Longrightarrow> I s \<Longrightarrow> g x s = (r, s') \<Longrightarrow>
      I s' \<and> M s' \<subseteq> M s \<and> M s - U x \<subseteq> M s' \<and> (\<forall>y. r = Ok y \<longrightarrow> M s' \<inter> U x = {})"
    and "I s" and "attempt_all (map g xs) acc s = (Ok res, s')"
  shows "I s' \<and> M s' \<subseteq> M s \<and> M s - (\<Union>x \<in> set xs. U x) \<subseteq> M s' \<and>
    (res = Ok () \<longrightarrow> acc = Ok () \<and> M s' \<inter> (\<Union>x \<in> set xs. U x) = {})"
  using assms
proof (induction xs arbitrary: s acc)
  case (Cons x xs)
  from Cons.prems(3) obtain r s1 acc1 where g: "g x s = (r, s1)" and a: "r \<noteq> Panic" "acc1 = (case r of Err e \<Rightarrow> if is_ok acc then Err e else acc | _ \<Rightarrow> acc)"
    and rest: "attempt_all (map g xs) acc1 s1 = (Ok res, s')"
    by (auto simp: bnd_Ok attempt_iff)
  have s1: "I s1" "M s1 \<subseteq> M s" "M s - U x \<subseteq> M s1" "\<forall>y. r = Ok y \<longrightarrow> M s1 \<inter> U x = {}"
    using Cons.prems(1) [OF _ Cons.prems(2) g] by auto
  have ih: "I s' \<and> M s' \<subseteq> M s1 \<and> M s1 - (\<Union>x \<in> set xs. U x) \<subseteq> M s' \<and>
      (res = Ok () \<longrightarrow> acc1 = Ok () \<and> M s' \<inter> (\<Union>x \<in> set xs. U x) = {})"
    by (rule Cons.IH [OF Cons.prems(1) s1(1) rest]) simp_all
  have "acc1 = Ok () \<Longrightarrow> acc = Ok () \<and> (\<exists>y. r = Ok y)"
    using a by (cases r; cases acc) (auto split: if_splits)
  with ih s1 show ?case by auto
qed (simp add: ret_def)

lemma attempt_all_append:
  "attempt_all (fs @ gs) acc s = (Ok res, s') \<longleftrightarrow>
    (\<exists>mid s1. attempt_all fs acc s = (Ok mid, s1) \<and> attempt_all gs mid s1 = (Ok res, s'))"
  by (induction fs arbitrary: acc s) (auto simp: bnd_Ok ret_def)

text \<open>What the runtime holds mapped: the blocks of its memory devices and the base regions it mapped.\<close>

definition slot_regions :: "('v, 's, 'n, 'q, 'm, 'u) world \<Rightarrow> nat \<Rightarrow> region set" where
  "slot_regions w i = (case device (rt_devices (w_rt w) ! i) of DevMem v \<Rightarrow> set (bt_values (blocks v)) | _ \<Rightarrow> {})"

definition base_regions :: "('v, 's, 'n, 'q, 'm, 'u) world \<Rightarrow> region set" where
  "base_regions w = set (take (rt_mapped (w_rt w)) (rt_base (w_rt w)))"

definition held_regions :: "('v, 's, 'n, 'q, 'm, 'u) world \<Rightarrow> region set" where
  "held_regions w = base_regions w \<union> (\<Union>i < length (rt_devices (w_rt w)). slot_regions w i)"

lemma slot_regions_set:
  assumes "i < length (rt_devices (w_rt w))"
    and "case device t of DevMem v \<Rightarrow> set (bt_values (blocks v)) = slot_regions w i | _ \<Rightarrow> slot_regions w i = {}"
  shows "slot_regions (set_device i t w) = slot_regions w"
proof
  fix j show "slot_regions (set_device i t w) j = slot_regions w j"
    using assms by (cases "j = i") (auto simp: slot_regions_def set_device_def split: Device.splits)
qed

lemma flush_device:
  "snd (device_flush B d) = (case d of DevBlock b \<Rightarrow> DevBlock (snd (block_flush B b)) | _ \<Rightarrow> d)"
  by (cases d) (auto simp: device_flush_def dispatch_self_def ret_def split: prod.splits)

lemma flush_slot_frame:
  assumes "flush_slot E i w = (r, w')" and "i < length (rt_devices (w_rt w))"
  shows "rt_vm (w_rt w') = rt_vm (w_rt w) \<and> length (rt_devices (w_rt w')) = length (rt_devices (w_rt w)) \<and>
    slot_regions w' = slot_regions w"
proof -
  let ?t = "rt_devices (w_rt w) ! i"
  let ?d = "snd (device_flush (e_block E) (device ?t))"
  have w': "w' = set_device i (?t\<lparr>device := ?d\<rparr>) w"
    using assms by (auto simp: flush_slot_def on_slot_def mmio_flush_def e_devices_def device_ops_def set_device_def split: prod.splits)
  have "slot_regions w' = slot_regions w" unfolding w'
    by (rule slot_regions_set [OF assms(2)]) (simp add: flush_device slot_regions_def split: Device.splits)
  with w' show ?thesis by (simp add: set_device_def)
qed

lemma stop_vm_Ok:
  "stop_vm E w = (Ok fault, w1) \<Longrightarrow> rt_vm (w_rt w) = Some v \<Longrightarrow> \<exists>r v1. vm_stop (e_vm E) v = (r, v1) \<and> w1 = put_vm (Some v1) w"
  by (auto simp: stop_vm_def attempt_iff on_vm_iff)

context mapper
begin

text \<open>A running world, seen through the regions its virtual machine has mapped.\<close>

definition alive :: "nat \<Rightarrow> (nat \<Rightarrow> region set) \<Rightarrow> ('p, 's, 'n, 'q, 'm, 'u) world \<Rightarrow> bool" where
  "alive n F w \<longleftrightarrow> (\<exists>v. rt_vm (w_rt w) = Some v \<and> ok v) \<and> length (rt_devices (w_rt w)) = n \<and> slot_regions w = F"

definition mapped_in :: "('p, 's, 'n, 'q, 'm, 'u) world \<Rightarrow> region set" where
  "mapped_in w = mapped (the (rt_vm (w_rt w)))"

lemma flush_step:
  assumes "i < n" and "alive n F w" and "flush_slot E i w = (r, w')"
  shows "alive n F w' \<and> mapped_in w' = mapped_in w"
  using flush_slot_frame [OF assms(3)] assms(1,2) by (auto simp: alive_def mapped_in_def)

lemma stop_step:
  assumes "vm_mapper (e_vm E) = P" and "i < n" and "alive n F w" and "stop_slot E i w = (r, w')" and "\<forall>x \<in> F i. valid x"
  shows "alive n F w' \<and> mapped_in w' \<subseteq> mapped_in w \<and> mapped_in w - F i \<subseteq> mapped_in w' \<and>
    (\<forall>y. r = Ok y \<longrightarrow> mapped_in w' \<inter> F i = {})"
proof -
  obtain p where p: "rt_vm (w_rt w) = Some p" "ok p" using assms(3) by (auto simp: alive_def)
  have fi: "F i = slot_regions w i" using assms(3) by (simp add: alive_def)
  let ?t = "rt_devices (w_rt w) ! i"
  show ?thesis
  proof (cases "device ?t")
    case (DevMem v)
    with fi have rs: "F i = set (bt_values (blocks v))" by (simp add: slot_regions_def)
    obtain u p' where u: "unmap_all P (bt_values (blocks v)) (Ok ()) p = (u, p')" by fastforce
    let ?v = "v\<lparr>control := (control v)\<lparr>lifecycle := Stopped, driver_ready := False\<rparr>\<rparr>"
    have w': "r = map_err VmmError.Memory u" "w' = put_vm (Some p') (set_device i (?t\<lparr>device := DevMem ?v\<rparr>) w)"
      using assms(1,4) DevMem p(1) u by (auto simp: stop_slot_def memory_stop_def set_device_def put_vm_def Let_def)
    have "slot_regions (set_device i (?t\<lparr>device := DevMem ?v\<rparr>) w) = slot_regions w"
      using assms(2,3) DevMem by (intro slot_regions_set) (auto simp: alive_def slot_regions_def)
    then have sl: "slot_regions w' = slot_regions w" unfolding w'(2) by (simp add: slot_regions_def put_vm_def fun_eq_iff)
    have "ok p' \<and> mapped p' \<subseteq> mapped p \<and> mapped p - F i \<subseteq> mapped p' \<and> (u = Ok () \<longrightarrow> mapped p' = mapped p - F i)"
      using unmap_all_spec [OF u p(2)] assms(5) rs by auto
    with sl w' p assms(3) show ?thesis by (auto simp: alive_def mapped_in_def set_device_def)
  qed (use assms(3,4) fi p in \<open>auto simp: stop_slot_def slot_regions_def Let_def\<close>)
qed

lemma unmap_step:
  assumes "vm_mapper (e_vm E) = P" and "alive n F w" and "unmap_base E x w = (r, w')" and "valid x"
  shows "alive n F w' \<and> mapped_in w' \<subseteq> mapped_in w \<and> mapped_in w - {x} \<subseteq> mapped_in w' \<and>
    (\<forall>y. r = Ok y \<longrightarrow> mapped_in w' \<inter> {x} = {})"
proof -
  obtain p where p: "rt_vm (w_rt w) = Some p" "ok p" using assms(2) by (auto simp: alive_def)
  with assms(1,3) obtain u p' where u: "mp_unmap P x p = (u, p')" "r = map_err VmmError.Memory u" "w' = put_vm (Some p') w"
    by (auto simp: unmap_base_def on_vm_iff)
  have sl: "slot_regions w' = slot_regions w" unfolding u(3) by (simp add: slot_regions_def fun_eq_iff)
  have "ok p' \<and> mapped p' \<subseteq> mapped p \<and> mapped p - {x} \<subseteq> mapped p' \<and> (u = Ok () \<longrightarrow> x \<notin> mapped p')"
  proof (cases u)
    case (Ok y)
    with unmap_Ok [OF p(2) assms(4), of p'] u(1) show ?thesis by auto
  next
    case (Err e)
    with unmap_Err [OF p(2) assms(4), of e p'] u(1) show ?thesis by auto
  next
    case Panic
    with unmap_returns [OF p(2) assms(4)] u(1) show ?thesis by simp
  qed
  with sl u p assms(2) show ?thesis by (auto simp: alive_def mapped_in_def)
qed

lemma release_unmaps:
  assumes mp: "vm_mapper (e_vm E) = P" and v: "rt_vm (w_rt w) = Some v" "ok v"
    and stops: "\<And>r v'. vm_stop (e_vm E) v = (r, v') \<Longrightarrow> ok v' \<and> mapped v' = mapped v"
    and val: "\<forall>x \<in> held_regions w. valid x" and rel: "release E w = (Ok (fault, res), w')"
  shows "\<exists>v'. rt_vm (w_rt w') = Some v' \<and> mapped v' \<subseteq> mapped v \<and> mapped v - held_regions w \<subseteq> mapped v' \<and>
    (res = Ok () \<longrightarrow> mapped v' \<inter> held_regions w = {})"
proof -
  let ?n = "length (rt_devices (w_rt w))" and ?F = "slot_regions w"
  from rel obtain w1 where s: "stop_vm E w = (Ok fault, w1)" by (auto simp: release_def bnd_Ok bnd_get ret_def Let_def)
  from stop_vm_Ok [OF s v(1)] obtain r v1 where v1: "vm_stop (e_vm E) v = (r, v1)" and w1: "w1 = put_vm (Some v1) w" by blast
  have a1: "alive ?n ?F w1" "mapped_in w1 = mapped v"
    using stops [OF v1] w1 by (auto simp: alive_def mapped_in_def slot_regions_def fun_eq_iff)
  from rel s w1 obtain r2 w2 r3 w3 where f2: "attempt_all (map (flush_slot E) [0 ..< ?n]) (Ok ()) w1 = (Ok r2, w2)"
    and f3: "attempt_all (map (stop_slot E) [0 ..< ?n]) r2 w2 = (Ok r3, w3)"
    and f4: "attempt_all (map (unmap_base E) (take (rt_mapped (w_rt w)) (rt_base (w_rt w)))) r3 w3 = (Ok res, w')"
    by (auto simp: release_def bnd_Ok bnd_get ret_def attempt_all_append Let_def)
  have a2: "alive ?n ?F w2 \<and> mapped_in w2 \<subseteq> mapped_in w1 \<and> mapped_in w1 - (\<Union>i \<in> set [0 ..< ?n]. {}) \<subseteq> mapped_in w2 \<and>
      (r2 = Ok () \<longrightarrow> (Ok () :: (unit, VmmError) result) = Ok () \<and> mapped_in w2 \<inter> (\<Union>i \<in> set [0 ..< ?n]. {}) = {})"
    by (rule attempt_all_spec [where I = "alive ?n ?F" and M = mapped_in and U = "\<lambda>_. {}", OF _ a1(1) f2])
      (use flush_step [of _ ?n ?F] in fastforce)
  have a3: "alive ?n ?F w3 \<and> mapped_in w3 \<subseteq> mapped_in w2 \<and> mapped_in w2 - (\<Union>i \<in> set [0 ..< ?n]. ?F i) \<subseteq> mapped_in w3 \<and>
      (r3 = Ok () \<longrightarrow> r2 = Ok () \<and> mapped_in w3 \<inter> (\<Union>i \<in> set [0 ..< ?n]. ?F i) = {})"
    by (rule attempt_all_spec [where I = "alive ?n ?F" and M = mapped_in and U = ?F, OF _ _ f3], rule stop_step [OF mp])
      (use a2 val in \<open>auto simp: held_regions_def\<close>)
  have a4: "alive ?n ?F w' \<and> mapped_in w' \<subseteq> mapped_in w3 \<and> mapped_in w3 - (\<Union>x \<in> base_regions w. {x}) \<subseteq> mapped_in w' \<and>
      (res = Ok () \<longrightarrow> r3 = Ok () \<and> mapped_in w' \<inter> (\<Union>x \<in> base_regions w. {x}) = {})"
    unfolding base_regions_def
    by (rule attempt_all_spec [where I = "alive ?n ?F" and M = mapped_in and U = "\<lambda>x. {x}", OF _ _ f4], rule unmap_step [OF mp])
      (use a3 val in \<open>auto simp: held_regions_def base_regions_def\<close>)
  obtain v' where "rt_vm (w_rt w') = Some v'" "mapped_in w' = mapped v'" using a4 by (auto simp: alive_def mapped_in_def)
  moreover have "held_regions w = base_regions w \<union> (\<Union>i \<in> set [0 ..< ?n]. ?F i)" by (auto simp: held_regions_def)
  moreover have "mapped_in w' \<subseteq> mapped v" "mapped v - (base_regions w \<union> (\<Union>i \<in> set [0 ..< ?n]. ?F i)) \<subseteq> mapped_in w'"
    "res = Ok () \<Longrightarrow> mapped_in w' \<inter> (base_regions w \<union> (\<Union>i \<in> set [0 ..< ?n]. ?F i)) = {}"
    using a1(2) a2 a3 a4 by auto
  ultimately show ?thesis by auto
qed

end

end
