(* ===== verification/Vmm.thy ===== *)
theory Vmm
  imports Runtime
begin

text \<open>
  The library's entry points (\<open>src/src/lib.rs\<close>) and the choice of the default platform
  (\<open>platform::run\<close> of \<open>src/src/platform/mod.rs\<close>). A \<open>Vmm\<close> owns its configuration, the shared lifecycle and,
  until a run takes them, its devices. The serial backend \<open>'i\<close> becomes a UART inside the run.
  Lemmas: whatever a run returns, also after a panic, it leaves the lifecycle final.
\<close>

section \<open>The owner of a machine\<close>

record ('s, 'n, 'i) DeviceSet =
  ds_blocks :: "(string, 's) btree"
  ds_net :: "'n option"
  ds_memory :: "virtio_mem option"
  ds_serial :: 'i

record ('s, 'n, 'i) Vmm =
  vmm_config :: VmConfig
  vmm_control :: vm_control
  vmm_devices :: "('s, 'n, 'i) DeviceSet option"

definition vmm_new ::
  "VmConfig \<Rightarrow> (string, 's) btree \<Rightarrow> 'n option \<Rightarrow> virtio_mem option \<Rightarrow> 'i \<Rightarrow> ('s, 'n, 'i) Vmm" where
  "vmm_new config disks nic mem serial =
     \<lparr>vmm_config = config, vmm_control = control_new (map_option control mem),
      vmm_devices = Some \<lparr>ds_blocks = disks, ds_net = nic, ds_memory = mem, ds_serial = serial\<rparr>\<rparr>"

text \<open>The destructor: the devices go first, and a memory device stops its status.\<close>

definition vmm_drop ::
  "('v, 's, 'n, 'q, 'm, 'u, 'c) env \<Rightarrow> bool \<Rightarrow> bool \<Rightarrow> ('v, 's, 'n, 'q, 'm, 'u) world \<Rightarrow> ('v, 's, 'n, 'q, 'm, 'u) world" where
  "vmm_drop E panicking holds w =
     snd (update_control E (\<lambda>c. dropped panicking (if holds then stop_memory c else c)) w)"

text \<open>What \<open>run_with_platform\<close> and \<open>run\<close> share: begin, take the devices, run, finish, drop.\<close>

definition run_owned ::
  "(('s, 'n, 'i) DeviceSet \<Rightarrow> ('v, 's, 'n, 'q, 'm, 'u) world \<Rightarrow> ((unit, VmmError) result \<times> ('v, 's, 'n, 'q, 'm, 'u) world) option) \<Rightarrow>
    ('v, 's, 'n, 'q, 'm, 'u, 'c) env \<Rightarrow> nat \<Rightarrow> ('s, 'n, 'i) Vmm \<Rightarrow> ('v, 's, 'n, 'q, 'm, 'u) world \<Rightarrow>
    ((unit, VmmError) result \<times> ('v, 's, 'n, 'q, 'm, 'u) world) option" where
  "run_owned body E thread v w = (case on_control E (begin_run thread) w of
     (Ok (Ok _), w) \<Rightarrow> (case vmm_devices v of
        None \<Rightarrow> Some (Panic, vmm_drop E True False w)
      | Some ds \<Rightarrow> (case body ds w of
           None \<Rightarrow> None
         | Some (Panic, w) \<Rightarrow> Some (Panic, vmm_drop E True False w)
         | Some (res, w) \<Rightarrow> Some (res, vmm_drop E False False (snd (update_control E (finish (outcome_of E res)) w)))))
   | (Ok (Err e), w) \<Rightarrow> Some (Err (VmmError.Control e), vmm_drop E False (vmm_devices v \<noteq> None) w)
   | (_, w) \<Rightarrow> Some (Panic, vmm_drop E True (vmm_devices v \<noteq> None) w))"

definition run_with_platform ::
  "('v, 's, 'n, 'q, 'm, 'u, 'c) env \<Rightarrow> nat \<Rightarrow> ('s, 'n, 'i) Vmm \<Rightarrow> ('v, 's, 'n, 'q, 'm, 'u) world \<Rightarrow>
    ((unit, VmmError) result \<times> ('v, 's, 'n, 'q, 'm, 'u) world) option" where
  "run_with_platform E thread v = run_owned
     (\<lambda>ds. runtime_run E (vmm_config v) (ds_blocks ds) (ds_net ds) (ds_memory ds)) E thread v"

text \<open>\<open>platform::run\<close>: \<open>builtin\<close> says whether the target has the built-in platform.\<close>

definition platform_run ::
  "bool \<Rightarrow> ('v, 's, 'n, 'q, 'm, 'u, 'c) env \<Rightarrow> VmConfig \<Rightarrow> (string, 's) btree \<Rightarrow> 'n option \<Rightarrow> virtio_mem option \<Rightarrow>
    ('v, 's, 'n, 'q, 'm, 'u) world \<Rightarrow> ((unit, VmmError) result \<times> ('v, 's, 'n, 'q, 'm, 'u) world) option" where
  "platform_run builtin E config disks nic mem w =
     (if builtin then runtime_run E config disks nic mem w
      else Some (Err (VmmError.Platform PlatformError.NoDefaultPlatform), w))"

definition vmm_run ::
  "bool \<Rightarrow> ('v, 's, 'n, 'q, 'm, 'u, 'c) env \<Rightarrow> nat \<Rightarrow> ('s, 'n, 'i) Vmm \<Rightarrow> ('v, 's, 'n, 'q, 'm, 'u) world \<Rightarrow>
    ((unit, VmmError) result \<times> ('v, 's, 'n, 'q, 'm, 'u) world) option" where
  "vmm_run builtin E thread v = run_owned
     (\<lambda>ds. platform_run builtin E (vmm_config v) (ds_blocks ds) (ds_net ds) (ds_memory ds)) E thread v"

section \<open>Final states\<close>

text \<open>Stopped, with nothing queued, no owner and the dynamic memory stopped.\<close>

definition settled :: "vm_control \<Rightarrow> bool" where
  "settled c \<longleftrightarrow> vm_lifecycle c = VmStopped \<and> requests c = [] \<and> owner c = None \<and>
     (\<forall>m. vm_memory c = Some m \<longrightarrow> lifecycle m = Stopped)"

text \<open>Before the run begins: still created, or cancelled by a stop.\<close>

definition fresh :: "vm_control \<Rightarrow> bool" where
  "fresh c \<longleftrightarrow> settled c \<and> final_error c = None \<or> vm_lifecycle c = VmCreated \<and> requests c = [] \<and> owner c = None \<and> final_error c = None"

lemma finish_settled: "settled (finish outcome c)" "final_error (finish outcome c) = map_option diagnostic outcome"
  by (auto simp: settled_def finish_def cancel_def stop_memory_def)

lemma target_settled:
  assumes "control_set_requested target c = (r, c')"
  shows "settled c' = settled c" "fresh c' = fresh c" "final_error c' = final_error c"
proof -
  have "lifecycle m' = lifecycle m" if "set_requested_mib target m = (x, m')" for m x m'
    using that set_requested_lifecycle by blast
  then show "settled c' = settled c" "fresh c' = fresh c" "final_error c' = final_error c"
    using assms by (auto simp: control_set_requested_def settled_def fresh_def split: option.splits prod.splits)
qed

lemma handle_settled: "settled c \<Longrightarrow> settled (call_handle x c) \<and> final_error (call_handle x c) = final_error c"
proof (cases x)
  case (CallTarget t)
  then show "settled c \<Longrightarrow> ?thesis" using target_settled [of t c] by (cases "control_set_requested t c") auto
qed (auto simp: settled_def submit_def stop_def cancel_def)

lemma handle_fresh: "fresh c \<Longrightarrow> fresh (call_handle x c)"
proof (cases x)
  case (CallTarget t)
  then show "fresh c \<Longrightarrow> ?thesis" using target_settled [of t c] by (cases "control_set_requested t c") auto
qed (auto simp: fresh_def settled_def submit_def stop_def cancel_def stop_memory_def)

lemma handles_keep:
  "settled c \<Longrightarrow> settled (call_handles cs c) \<and> final_error (call_handles cs c) = final_error c"
  "fresh c \<Longrightarrow> fresh (call_handles cs c)"
  by (induction cs arbitrary: c) (auto simp: call_handles_def handle_settled handle_fresh)

section \<open>The owner keeps the lifecycle\<close>

text \<open>While the runtime runs, nobody but its owner ends the lifecycle, also if the run panics.\<close>

lemma attempt_onward [keeps_intros]: "keeps (onward T me) f \<Longrightarrow> keeps (onward T me) (attempt f acc)"
  by (auto simp: keeps_def attempt_def split: prod.splits result.splits) (metis snd_conv)+

lemma attempt_all_onward [keeps_intros]:
  "(\<And>f. f \<in> set fs \<Longrightarrow> keeps (onward T me) f) \<Longrightarrow> keeps (onward T me) (attempt_all fs acc)"
  by (induction fs arbitrary: acc) (auto intro!: keeps_intros)

lemma stop_slot_onward: "keeps (onward T me) (stop_slot E i)"
  by (auto simp: keeps_def stop_slot_def onward_same set_device_def Let_def split: prod.splits option.splits Device.splits)

lemma stop_vm_onward: "keeps (onward T me) (stop_vm E)"
proof -
  have "keeps (onward T me) (attempt (on_vm VmmError.Platform (vm_stop (e_vm E))) (Ok ()))" by (intro keeps_intros)
  then show ?thesis by (auto simp: keeps_def stop_vm_def onward_same)
qed

lemma cleanup_onward: "keeps (onward T me) (cleanup E)"
proof -
  have flush: "keeps (onward T me) (attempt_all (map (flush_slot E) is) acc)" for "is" acc
    by (rule attempt_all_onward) (auto simp: flush_slot_def intro!: keeps_intros)
  have rest: "keeps (onward T me) (attempt_all (map (stop_slot E) is @ map (unmap_base E) rs) acc)" for "is" rs acc
    by (rule attempt_all_onward) (auto simp: unmap_base_def intro!: stop_slot_onward keeps_intros)
  show ?thesis unfolding cleanup_def release_def Let_def
    by (intro keeps_bnd keeps_if keeps_ret keeps_get keeps_modify onward_order stop_vm_onward flush rest) (simp add: onward_same)
qed

lemma init_onward:
  assumes "only_handles E calls T me"
  shows "keeps (onward T me) (runtime_init E config)"
proof -
  have st: "keeps (onward T me) (is_stopping E)"
    unfolding is_stopping_def by (rule on_control_onward [OF assms]) (simp add: forward_order)
  have base: "keeps (onward T me) (map_base E rs)" for rs
    by (induction rs) (auto intro!: keeps_intros st simp: onward_same)
  have prep: "keeps (onward T me) (prepare_vm E)"
    by (auto simp: keeps_def prepare_vm_def onward_same split: prod.splits option.splits)
  show ?thesis unfolding runtime_init_def
    by (intro keeps_intros onward_order st base prep) (simp_all add: onward_same)
qed

lemma loop_onward:
  assumes "only_handles E calls T me" and "run_loop E susp w = Some (r, w')"
  shows "onward T me w w'"
proof -
  let ?P = "\<lambda>E' susp w y. E' = E \<longrightarrow> onward T me w (snd y)"
  have "?P E susp w (r, w')"
  proof (rule run_loop.raw_induct [of ?P, OF _ assms(2)], rule impI)
    fix rec E' susp w y
    assume IH: "\<And>E' susp w y. rec E' susp w = Some y \<Longrightarrow> ?P E' susp w y" and E': "E' = E"
      and step: "(case loop_pass E' susp w of (Ok None, w') \<Rightarrow> Some (Ok (), w') | (Ok (Some p), w') \<Rightarrow> rec E' p w'
        | (Err e, w') \<Rightarrow> Some (Err e, w') | (Panic, w') \<Rightarrow> Some (Panic, w')) = Some y"
    obtain x w1 where p: "loop_pass E susp w = (x, w1)" by fastforce
    have w1: "onward T me w w1" using loop_pass_step [OF assms(1) p] by simp
    show "onward T me w (snd y)"
    proof (cases "\<exists>b. x = Ok (Some b)")
      case True
      then obtain b where "rec E b w1 = Some y" using step p E' by auto
      then have "onward T me w1 (snd y)" using IH by blast
      with w1 show ?thesis using transpD [OF onward_order(2)] by blast
    next
      case False
      then show ?thesis using step p w1 E' by (auto split: result.splits option.splits)
    qed
  qed
  then show ?thesis by simp
qed

lemma update_onward:
  "only_handles E calls T me \<Longrightarrow> (\<And>c. forward me c (f c)) \<Longrightarrow> keeps (onward T me) (update_control E f)"
  unfolding update_control_def by (intro on_control_onward) simp_all

lemma owner_forward: "forward me c (running c)" "forward me c (cleaning c)" "forward me c (cleanup_result x c)"
  by (auto simp: forward_def owned_def stopping_def running_def cleaning_def cleanup_result_def cancel_def)

lemma main_onward:
  assumes h: "only_handles E calls T me" and m: "main_part E config w = Some (res, w')"
  shows "onward T me w w'"
proof -
  have start: "keeps (onward T me) (bnd (runtime_init E config) (\<lambda>_. update_control E running))"
    by (intro keeps_intros onward_order init_onward [OF h] update_onward [OF h] owner_forward)
  obtain b w1 where s: "is_stopping E w = (Ok b, w1)" by (simp add: is_stopping_def on_control_def)
  have w1: "onward T me w w1"
    using on_control_step [OF h, of "\<lambda>c. (stopping c, c)" w] s by (simp add: is_stopping_def forward_order)
  show ?thesis
  proof (cases b)
    case True
    with m s w1 show ?thesis by (simp add: main_part_def)
  next
    case False
    obtain x w2 where i: "bnd (runtime_init E config) (\<lambda>_. update_control E running) w1 = (x, w2)" by fastforce
    have w2: "onward T me w w2" using transpD [OF onward_order(2) w1 keepsD [OF start i]] .
    have "w' = w2 \<or> run_loop E False w2 = Some (res, w')"
      using m s False i by (auto simp: main_part_def split: result.splits)
    with w2 show ?thesis using loop_onward [OF h] transpD [OF onward_order(2) w2] by blast
  qed
qed

lemma run_onward:
  assumes h: "only_handles E calls T me" and r: "runtime_run E config disks nic mem w = Some (res, w')"
  shows "onward T me w w'"
proof -
  have wind: "keeps (onward T me) (wind_down E x)" for x
    unfolding wind_down_def by (intro keeps_intros onward_order update_onward [OF h] owner_forward cleanup_onward)
  show ?thesis
  proof (cases "runtime_new E config disks nic (share_status (w_control w) mem)")
    case (Ok rt)
    then obtain x w1 where m: "main_part E config (w\<lparr>w_rt := rt\<rparr>) = Some (x, w1)" and w: "wind_down E x w1 = (res, w')"
      using r by (auto simp: runtime_run_def split: option.splits)
    have "onward T me w (w\<lparr>w_rt := rt\<rparr>)" by (simp add: onward_same)
    from transpD [OF onward_order(2) transpD [OF onward_order(2) this main_onward [OF h m]] keepsD [OF wind w]]
    show ?thesis .
  qed (use r in \<open>auto simp: runtime_run_def onward_same\<close>)
qed

section \<open>What a run leaves behind\<close>

lemma status_shared:
  "status_of (map (set_status st) ts) = (case status_of ts of None \<Rightarrow> None | Some x \<Rightarrow> Some (case st of None \<Rightarrow> x | Some y \<Rightarrow> y))"
  by (induction ts) (auto simp: set_status_def split: option.splits Device.splits)

lemma handle_memory: "vm_memory (call_handles cs c) = None \<longleftrightarrow> vm_memory c = None"
proof (induction cs arbitrary: c)
  case (Cons x cs)
  have "vm_memory (call_handle x c) = None \<longleftrightarrow> vm_memory c = None"
    by (cases x) (auto simp: submit_def stop_def cancel_def stop_memory_def control_set_requested_def split: option.splits prod.splits)
  then show ?case using Cons by (simp add: call_handles_def)
qed (simp add: call_handles_def)

text \<open>After the owner's last update the lifecycle stays as it is.\<close>

lemma settled_stays:
  assumes h: "\<And>n. e_others E n = call_handles (calls n)" and u: "update_control E f w = (Ok (), w1)"
    and f: "\<And>c. vm_memory (f c) = None \<longleftrightarrow> vm_memory c = None" and s: "settled (w_control w1)"
  shows "settled (w_control (vmm_drop E p False w1)) \<and> final_error (w_control (vmm_drop E p False w1)) = final_error (w_control w1)"
proof -
  have dev: "rt_devices (w_rt w1) = map (set_status (vm_memory (w_control w1))) (rt_devices (w_rt w))"
    using u by (auto simp: update_control_def on_control_def)
  have "status_of (rt_devices (w_rt w1)) = None \<or> status_of (rt_devices (w_rt w1)) = vm_memory (w_control w1)"
  proof (cases "status_of (rt_devices (w_rt w))")
    case (Some x)
    have "w_control w1 = f (call_handles (calls (w_clock w)) ((w_control w)\<lparr>vm_memory := Some x\<rparr>))"
      using u h Some by (auto simp: update_control_def on_control_def put_status_def)
    then have "vm_memory (w_control w1) \<noteq> None" by (simp only: f handle_memory) simp
    with Some show ?thesis by (auto simp: dev status_shared)
  qed (simp add: dev status_shared)
  then have "put_status (status_of (rt_devices (w_rt w1))) (w_control w1) = w_control w1"
    by (auto simp: put_status_def)
  with handles_keep(1) [OF s] h show ?thesis
    by (auto simp: vmm_drop_def update_control_def on_control_def dropped_def settled_def)
qed

lemma owned_settles:
  assumes h: "only_handles E calls {} me" and c: "fresh (w_control w)" and d: "rt_devices (w_rt w) = []"
    and ds: "vmm_devices v = Some ds" and run: "run_owned body E me v w = Some (res, w')"
    and keep: "\<And>w1 x w2. body ds w1 = Some (x, w2) \<Longrightarrow> onward {} me w1 w2"
  shows "settled (w_control w') \<and> (final_error (w_control w') =
      (case res of Ok _ \<Rightarrow> None | Err e \<Rightarrow> Some (diagnostic (vmm_chain (e_causes E) e)) | Panic \<Rightarrow> Some ''VMM thread panicked'') \<or>
    res = Err (VmmError.Control ControlError.Cancelled) \<and> final_error (w_control w') = None)"
proof -
  have h': "e_others E n = call_handles (calls n)" for n using h by (simp add: only_handles_def)
  let ?c = "call_handles (calls (w_clock w)) (w_control w)"
  obtain r w1 where b: "on_control E (begin_run me) w = (Ok r, w1)"
    by (cases "begin_run me (e_others E (w_clock w) (put_status (status_of (rt_devices (w_rt w))) (w_control w)))")
      (simp add: on_control_def)
  have r: "begin_run me ?c = (r, w_control w1)" and d1: "rt_devices (w_rt w1) = []"
    using b d h' by (auto simp: on_control_def put_status_def split: prod.splits)
  have fr: "fresh ?c" using handles_keep(2) c by blast
  show ?thesis
  proof (cases r)
    case (Ok u)
    then have "w_control w1 = ?c\<lparr>owner := Some me, vm_lifecycle := VmStarting\<rparr>"
      using r by (auto simp: begin_run_def split: if_splits)
    then have o: "owned me (w_control w1)" by (simp add: owned_def)
    obtain x w2 where body: "body ds w1 = Some (x, w2)"
      using run b Ok ds by (cases "body ds w1") (auto simp: run_owned_def)
    have o2: "owned me (w_control w2)" using keep [OF body] o by (simp add: onward_def forward_def)
    show ?thesis
    proof (cases "x = Panic")
      case True
      let ?x = "e_others E (w_clock w2) (put_status (status_of (rt_devices (w_rt w2))) (w_control w2))"
      have w': "w' = vmm_drop E True False w2" "res = Panic"
        using run b Ok ds body True by (simp_all add: run_owned_def)
      have "owned me ?x"
        using o2 forward_status [of me "w_control w2"] host_calls_forward [of me _ "calls (w_clock w2)"] h'
        unfolding forward_def by metis
      then show ?thesis using w' finish_settled
        by (auto simp: vmm_drop_def update_control_def on_control_def dropped_def owned_def diagnostic.simps)
    next
      case False
      let ?w3 = "snd (update_control E (finish (outcome_of E x)) w2)"
      have "run_owned body E me v w = Some (x, vmm_drop E False False ?w3)"
        using b Ok ds body False by (cases x) (simp_all add: run_owned_def)
      then have w': "w' = vmm_drop E False False ?w3" "res = x" using run by simp_all
      have u: "update_control E (finish (outcome_of E x)) w2 = (Ok (), ?w3)" by (simp add: update_control_def on_control_def)
      have m: "vm_memory (finish (outcome_of E x) c) = None \<longleftrightarrow> vm_memory c = None" for c
        by (simp add: finish_def cancel_def stop_memory_def)
      have s: "settled (w_control ?w3)" "final_error (w_control ?w3) = map_option diagnostic (outcome_of E x)"
        by (simp_all add: update_control_def on_control_def finish_settled)
      show ?thesis
        using settled_stays [OF h' u m s(1), of False] s(2) w' False by (cases x) (auto simp: outcome_of_def)
    qed
  next
    case (Err e)
    with r have w1: "w_control w1 = ?c" "vm_lifecycle ?c \<noteq> VmCreated" "e = ControlError.Cancelled"
      by (auto simp: begin_run_def split: if_splits)
    then have s: "settled (w_control w1)" "final_error (w_control w1) = None" using fr by (auto simp: fresh_def)
    have w': "w' = vmm_drop E False True w1" "res = Err (VmmError.Control e)"
      using run b Err ds by (simp_all add: run_owned_def)
    let ?d = "call_handles (calls (w_clock w1)) (w_control w1)"
    have d: "settled ?d" "final_error ?d = None" using handles_keep(1) [OF s(1)] s(2) by simp_all
    have "w_control w' = stop_memory ?d"
      using w'(1) d1 h' d(1) by (auto simp: vmm_drop_def update_control_def on_control_def put_status_def dropped_def settled_def stop_memory_def)
    then show ?thesis using d w'(2) w1(3) by (auto simp: settled_def stop_memory_def)
  next
    case Panic
    then show ?thesis using r by (auto simp: begin_run_def split: if_splits)
  qed
qed

lemma run_settles:
  assumes "\<forall>n. e_others E n = call_handles (calls n)" and "v = vmm_new config disks nic mem serial"
    and "w_control w = vmm_control v" and "rt_devices (w_rt w) = []"
    and "run_with_platform E me v w = Some (res, w') \<or> vmm_run builtin E me v w = Some (res, w')"
  shows "settled (w_control w') \<and> (final_error (w_control w') =
      (case res of Ok _ \<Rightarrow> None | Err e \<Rightarrow> Some (diagnostic (vmm_chain (e_causes E) e)) | Panic \<Rightarrow> Some ''VMM thread panicked'') \<or>
    res = Err (VmmError.Control ControlError.Cancelled) \<and> final_error (w_control w') = None)"
proof -
  have h: "only_handles E calls {} me" using assms(1) by (simp add: only_handles_def)
  have c: "fresh (w_control w)" using assms(2,3) by (simp add: vmm_new_def control_new_def fresh_def)
  let ?ds = "\<lparr>ds_blocks = disks, ds_net = nic, ds_memory = mem, ds_serial = serial\<rparr>"
  have ds: "vmm_devices v = Some ?ds" using assms(2) by (simp add: vmm_new_def)
  have config: "vmm_config v = config" using assms(2) by (simp add: vmm_new_def)
  have plat: "onward {} me w1 w2" if "platform_run b E config disks nic mem w1 = Some (x, w2)" for b w1 x w2
    using that run_onward [OF h] by (auto simp: platform_run_def onward_same split: if_splits)
  from assms(5) show ?thesis
  proof
    assume r: "run_with_platform E me v w = Some (res, w')"
    show ?thesis
      by (rule owned_settles [OF h c assms(4) ds r [unfolded run_with_platform_def config]]) (use run_onward [OF h] in simp)
  next
    assume r: "vmm_run builtin E me v w = Some (res, w')"
    show ?thesis
      by (rule owned_settles [OF h c assms(4) ds r [unfolded vmm_run_def config]]) (use plat in simp)
  qed
qed


end
