(* ===== verification/InProcess.thy ===== *)
theory InProcess
  imports Vmm Hvf
begin

text \<open>
  The platform of \<open>src/examples/platform.rs\<close>: a virtual machine inside the process, whose one vCPU sends a
  message to the UART byte by byte and shuts down. It is a second implementation of the interfaces
  \<open>Platform\<close>, \<open>VirtualMachine\<close> and \<open>Mapper\<close>, besides Hypervisor.framework.
  Lemmas: its table of mappings meets the contract of a mapper, and a whole run of the library on it ends and
  has written exactly the message.
\<close>

section \<open>The virtual machine\<close>

record inproc_vm =
  ip_mappings :: "(u64, region) btree"
  ip_running :: bool
  ip_next :: usize

definition inproc_layout :: "VmConfig \<Rightarrow> DeviceRequirements \<Rightarrow> (MachineLayout, PlatformError) result" where
  "inproc_layout config needs =
     (if \<not> (rq_devices needs = [] \<and> rq_hotplug needs = None)
      then Err (PlatformError.Backend ''example supports only UART'')
      else and_then (ok_or (checked_mul (memory_mib config) (push_bit 20 1)) (PlatformError.Backend ''RAM overflow'')) (\<lambda>size.
        Ok \<lparr>ml_ram = [\<lparr>mr_address = 0x100000, mr_size = size\<rparr>],
            ml_uart = \<lparr>io_space = SpacePort, io_address = 0x3f8, io_size = 8, io_irq = 4\<rparr>,
            ml_virtio = [], ml_hotplug = None\<rparr>))"

definition inproc_create :: "VmConfig \<Rightarrow> (inproc_vm, PlatformError) result" where
  "inproc_create config =
     (if vcpu_count config \<noteq> 1 then Err (PlatformError.Backend ''example supports one CPU'')
      else Ok \<lparr>ip_mappings = [], ip_running = False, ip_next = 0\<rparr>)"

definition inproc_platform :: "inproc_vm platform_ops" where
  "inproc_platform = \<lparr>pl_layout = inproc_layout, pl_create = inproc_create\<rparr>"

definition inproc_map :: "region \<Rightarrow> (inproc_vm, unit, MemoryError) prog" where
  "inproc_map r v =
     (if ip_running v then (Err (MemoryError.Backend ''mapping requires quiescence''), v)
      else if bt_get (ip_mappings v) (r_start r) \<noteq> None then (Err (MemoryError.Backend ''already mapped''), v)
      else (Ok (), v\<lparr>ip_mappings := bt_insert (r_start r) r (ip_mappings v)\<rparr>))"

text \<open>\<open>Arc::ptr_eq\<close> of the host mappings compares the identity of the allocations.\<close>

definition inproc_unmap :: "region \<Rightarrow> (inproc_vm, unit, MemoryError) prog" where
  "inproc_unmap r v =
     (if ip_running v then (Err (MemoryError.Backend ''unmapping requires quiescence''), v)
      else if \<not> (case bt_get (ip_mappings v) (r_start r) of
             None \<Rightarrow> False | Some m \<Rightarrow> r_len m = r_len r \<and> r_alloc m = r_alloc r)
      then (Err (MemoryError.Backend ''region is not mapped''), v)
      else (Ok (), v\<lparr>ip_mappings := bt_remove (r_start r) (ip_mappings v)\<rparr>))"

definition inproc_mapper :: "inproc_vm mapper_ops" where
  "inproc_mapper = \<lparr>mp_map = inproc_map, mp_unmap = inproc_unmap\<rparr>"

definition hello :: bytes where
  "hello = map (\<lambda>c. word_of_nat (of_char c)) ''Hello from a custom platform!'' @ [10]"

definition inproc_poll_event :: "(inproc_vm, usize Event option, PlatformError) prog" where
  "inproc_poll_event v =
     (if ip_next v = length hello then (Ok (Some Shutdown), v)
      else if length hello \<le> ip_next v then (Panic, v)
      else (Ok (Some (Event.Io \<lparr>a_space = SpacePort, a_address = 0x3f8, a_width = 1, a_write = True,
             a_value = ucast (hello ! ip_next v), a_completion = ip_next v\<rparr>)), v))"

definition inproc_complete_io :: "usize \<Rightarrow> u64 \<Rightarrow> (inproc_vm, unit, PlatformError) prog" where
  "inproc_complete_io completion value v =
     (if completion \<noteq> ip_next v then (Err (PlatformError.Backend ''unexpected completion''), v)
      else (Ok (), v\<lparr>ip_next := ip_next v + 1\<rparr>))"

definition inproc_set_running :: "bool \<Rightarrow> (inproc_vm, unit, PlatformError) prog" where
  "inproc_set_running b = modify (\<lambda>v. v\<lparr>ip_running := b\<rparr>)"

definition inproc_pause :: "(inproc_vm, PauseOutcome, PlatformError) prog" where
  "inproc_pause v = (Ok OutcomePaused, v\<lparr>ip_running := False\<rparr>)"

definition inproc_ops :: "(inproc_vm, 'm, usize) vm_ops" where
  "inproc_ops = \<lparr>vm_mapper = inproc_mapper, vm_prepare = (\<lambda>_. ret ()), vm_start = inproc_set_running True,
     vm_poll_event = inproc_poll_event, vm_complete_io = inproc_complete_io, vm_set_irq = (\<lambda>_ _. ret ()),
     vm_pause = inproc_pause, vm_resume = inproc_set_running True, vm_stop = inproc_set_running False\<rparr>"

definition inproc_drop :: "inproc_vm \<Rightarrow> inproc_vm" where
  "inproc_drop v = (snd (inproc_set_running False v))\<lparr>ip_mappings := []\<rparr>"

section \<open>The program\<close>

text \<open>The network backend of the example, of which only the type is used.\<close>

definition no_net_ops :: "(unit, 'm) net_ops" where
  "no_net_ops = \<lparr>nd_mtu = 1500, nd_mac_address = (\<lambda>_. [2, 0, 0, 0, 0, 1]), nd_max_frame_len = (\<lambda>_. 1514),
     nd_send = (\<lambda>_. ret True), nd_recv = (\<lambda>f. ret (None, case f of Guest _ \<Rightarrow> [] | Host b \<Rightarrow> b))\<rparr>"

text \<open>\<open>Console\<close>: no input ever, output to the host.\<close>

definition console_recv :: "usize \<Rightarrow> IoError + usize" where
  "console_recv n = Inr 0"

definition example_config :: VmConfig where
  "example_config = default_config\<lparr>memory_mib := 2\<rparr>"

definition example_main ::
  "(inproc_vm, 's, unit, 'q, 'm, 'u, usize) env \<Rightarrow> nat \<Rightarrow> (inproc_vm, 's, unit, 'q, 'm, 'u) world \<Rightarrow>
    ((unit, VmmError) result \<times> (inproc_vm, 's, unit, 'q, 'm, 'u) world) option" where
  "example_main E thread = run_with_platform E thread (vmm_new example_config [] None None ())"

section \<open>The table of mappings\<close>

definition inproc_inv :: "(nat \<Rightarrow> u64) \<Rightarrow> inproc_vm \<Rightarrow> bool" where
  "inproc_inv host v \<longleftrightarrow> bt_inv (ip_mappings v) \<and> (\<forall>(a, r) \<in> set (ip_mappings v). r_start r = a \<and> region_ok host r)"

definition inproc_mapped :: "inproc_vm \<Rightarrow> region set" where
  "inproc_mapped v = set (bt_values (ip_mappings v))"

lemma inproc_map_Ok:
  assumes "inproc_inv host v" "region_ok host r" "inproc_map r v = (Ok (), v')"
  shows "inproc_inv host v' \<and> r \<notin> inproc_mapped v \<and> inproc_mapped v' = insert r (inproc_mapped v)"
proof -
  have none: "bt_get (ip_mappings v) (r_start r) = None"
    and v': "v' = v\<lparr>ip_mappings := bt_insert (r_start r) r (ip_mappings v)\<rparr>"
    using assms(3) by (auto simp: inproc_map_def split: if_splits)
  have inv: "bt_inv (ip_mappings v)" using assms(1) by (simp add: inproc_inv_def)
  have "r_start r \<notin> fst ` set (ip_mappings v)" using none by (simp add: bt_get_None_iff bt_keys_def)
  then have other: "fst p \<noteq> r_start r" if "p \<in> set (ip_mappings v)" for p using that by (metis imageI)
  then have set: "set (bt_insert (r_start r) r (ip_mappings v)) = insert (r_start r, r) (set (ip_mappings v))"
    using set_bt_insert [OF inv, of "r_start r" r] by blast
  have "r \<notin> inproc_mapped v"
    using other assms(1) by (fastforce simp: inproc_mapped_def bt_values_def inproc_inv_def)
  with assms(1,2) v' set show ?thesis
    by (auto simp: inproc_inv_def inproc_mapped_def bt_values_def)
qed

lemma inproc_unmap_Ok:
  assumes "inproc_inv host v" "region_ok host r" "inproc_unmap r v = (Ok (), v')"
  shows "inproc_inv host v' \<and> r \<in> inproc_mapped v \<and> inproc_mapped v' = inproc_mapped v - {r}"
proof -
  obtain m where m: "bt_get (ip_mappings v) (r_start r) = Some m" "r_len m = r_len r" "r_alloc m = r_alloc r"
    and v': "v' = v\<lparr>ip_mappings := bt_remove (r_start r) (ip_mappings v)\<rparr>"
    using assms(3) by (auto simp: inproc_unmap_def split: if_splits option.splits)
  have inv: "bt_inv (ip_mappings v)" using assms(1) by (simp add: inproc_inv_def)
  have "(r_start r, m) \<in> set (ip_mappings v)" using m(1) by (simp add: bt_get_Some_iff [OF inv])
  moreover from this have mr: "m = r" using assms(1,2) m by (auto simp: inproc_inv_def region_ok_def)
  ultimately have mem: "(r_start r, r) \<in> set (ip_mappings v)" by simp
  have "q = r" if q: "(r_start r, q) \<in> set (ip_mappings v)" for q
    using bt_get_Some_iff [OF inv, THEN iffD2, OF q] m(1) mr by simp
  moreover have "r_start q = a" if "(a, q) \<in> set (ip_mappings v)" for a q using assms(1) that by (auto simp: inproc_inv_def)
  ultimately have iff: "a \<noteq> r_start r \<longleftrightarrow> q \<noteq> r" if "(a, q) \<in> set (ip_mappings v)" for a q using that by blast
  have "inproc_mapped v' = inproc_mapped v - {r}"
  proof (intro set_eqI iffI)
    fix q assume "q \<in> inproc_mapped v'"
    then obtain a where "(a, q) \<in> set (ip_mappings v)" "a \<noteq> r_start r"
      by (auto simp: inproc_mapped_def bt_values_def v' set_bt_remove)
    then show "q \<in> inproc_mapped v - {r}" using iff by (force simp: inproc_mapped_def bt_values_def)
  next
    fix q assume "q \<in> inproc_mapped v - {r}"
    then obtain a where "(a, q) \<in> set (ip_mappings v)" "a \<noteq> r_start r"
      using iff by (auto simp: inproc_mapped_def bt_values_def)
    then show "q \<in> inproc_mapped v'" by (force simp: inproc_mapped_def bt_values_def v' set_bt_remove)
  qed
  moreover have "inproc_inv host v'" using assms(1) v' by (auto simp: inproc_inv_def set_bt_remove)
  moreover have "r \<in> inproc_mapped v" using mem by (force simp: inproc_mapped_def bt_values_def)
  ultimately show ?thesis by blast
qed

interpretation inproc: mapper inproc_mapper inproc_mapped "inproc_inv host" "region_ok host" for host
proof (unfold_locales, goal_cases)
  case (1 v r v')
  then show ?case using inproc_map_Ok by (simp add: inproc_mapper_def)
next
  case (2 v r e v')
  then show ?case by (auto simp: inproc_mapper_def inproc_map_def split: if_splits)
next
  case (3 v r v')
  then show ?case using inproc_unmap_Ok by (simp add: inproc_mapper_def)
next
  case (4 v r e v')
  then show ?case by (auto simp: inproc_mapper_def inproc_unmap_def split: if_splits)
next
  case (7 v r)
  then show ?case by (auto simp: inproc_inv_def inproc_mapped_def bt_values_def)
qed (auto simp: inproc_mapper_def inproc_map_def inproc_unmap_def split: if_splits)

section \<open>A whole run\<close>

text \<open>What the run relies on of the UART while the guest leaves its line settings alone (\<open>plain\<close>): it asks the
  console for input, and a byte written to the transmit register goes to the console's output.\<close>

definition console_law :: "'u uart_ops \<Rightarrow> ('u \<Rightarrow> bool) \<Rightarrow> ('u \<Rightarrow> bytes) \<Rightarrow> bool" where
  "console_law U plain out \<longleftrightarrow>
     (\<forall>n u. plain u \<longrightarrow> (\<exists>buffer. ua_recv U n u = (map_sum id (\<lambda>k. (k, buffer)) (console_recv n), u))) \<and>
     (\<forall>b u. plain u \<longrightarrow> (\<exists>u'. ua_write U 0 b u = (Inr (), u') \<and> plain u' \<and> out u' = out u @ [b]))"

text \<open>The environment of the example: its platform, no thread but the owner, and host memory of the requested range.\<close>

definition example_env ::
  "(inproc_vm, 's, unit, 'q, 'm, 'u, usize) env \<Rightarrow> region \<Rightarrow> 'm \<Rightarrow> bool" where
  "example_env E r view \<longleftrightarrow> e_platform E = inproc_platform \<and> e_vm E = inproc_ops \<and> (\<forall>n c. e_others E n c = c) \<and>
     (\<forall>n. e_alloc E n 0x100000 0x200000 = Inr r) \<and> e_from_regions E [r] = Inr view"

definition example_layout :: MachineLayout where
  "example_layout = \<lparr>ml_ram = [\<lparr>mr_address = 0x100000, mr_size = 0x200000\<rparr>],
     ml_uart = \<lparr>io_space = SpacePort, io_address = 0x3f8, io_size = 8, io_irq = 4\<rparr>,
     ml_virtio = [], ml_hotplug = None\<rparr>"

lemma length_hello: "length hello = 30"
  by (simp add: hello_def)

lemma alone_control:
  assumes "\<forall>n c. e_others E n c = c" and "rt_devices (w_rt w) = []"
  shows "on_control E f w = (Ok (fst (f (w_control w))), w\<lparr>w_control := snd (f (w_control w)), w_clock := w_clock w + 1\<rparr>)"
proof -
  have "(w_rt w)\<lparr>rt_devices := []\<rparr> = w_rt w" using assms(2) by (cases "w_rt w") simp
  then have "w\<lparr>w_rt := (w_rt w)\<lparr>rt_devices := []\<rparr>\<rparr> = w" by (cases w) simp
  moreover have "w\<lparr>w_control := c, w_clock := k, w_rt := (w_rt w)\<lparr>rt_devices := []\<rparr>\<rparr> =
      (w\<lparr>w_rt := (w_rt w)\<lparr>rt_devices := []\<rparr>\<rparr>)\<lparr>w_control := c, w_clock := k\<rparr>" for c k by simp
  ultimately show ?thesis
    using assms by (simp add: on_control_def put_status_def split: prod.splits)
qed

text \<open>Between two bytes of the message.\<close>

definition sending :: "('u \<Rightarrow> bool) \<Rightarrow> inproc_vm \<Rightarrow> (inproc_vm, 's, unit, 'q, 'm, 'u) world \<Rightarrow> bool" where
  "sending plain v w \<longleftrightarrow> rt_vm (w_rt w) = Some v \<and> rt_devices (w_rt w) = [] \<and> \<not> rt_has_memory (w_rt w) \<and>
     rt_layout (w_rt w) = example_layout \<and> vm_lifecycle (w_control w) = VmRunning \<and> requests (w_control w) = [] \<and>
     plain (w_uart w)"

abbreviation progress :: "nat \<Rightarrow> 'u \<Rightarrow> nat \<Rightarrow> inproc_vm \<Rightarrow> (inproc_vm, 's, unit, 'q, 'm, 'u) world \<Rightarrow> (inproc_vm, 's, unit, 'q, 'm, 'u) world" where
  "progress t u k v w \<equiv> w\<lparr>w_clock := t, w_uart := u, w_rt := (w_rt w)\<lparr>rt_vm := Some (v\<lparr>ip_next := k\<rparr>)\<rparr>\<rparr>"

lemma idle_turn:
  assumes "example_env E r view" and "console_law (e_uart E) plain out" and "sending plain v w"
  shows "poll_input (e_uart E) (w_uart w) = (Ok (), w_uart w)"
proof -
  obtain buffer where "ua_recv (e_uart E) (ua_fifo_capacity (e_uart E) (w_uart w)) (w_uart w) = (Inr (0, buffer), w_uart w)"
    using assms(2,3) by (force simp: console_law_def console_recv_def sending_def)
  then show ?thesis by (simp add: poll_input_def prog_defs Let_def)
qed

lemma vm_same: "rt_vm (w_rt w) = Some v \<Longrightarrow> w\<lparr>w_rt := (w_rt w)\<lparr>rt_vm := Some v\<rparr>\<rparr> = w"
  by (cases w, cases "w_rt w") simp

lemma uart_same: "w\<lparr>w_uart := w_uart w\<rparr> = w"
  by simp

text \<open>One pass of the event loop sends one byte.\<close>

lemma byte_value: "ucast (ucast (b :: u8) :: u64) = b"
  by (rule bit_word_eqI) (simp add: bit_simps)

lemma hello_turn:
  assumes env: "example_env E r view" and law: "console_law (e_uart E) plain out" and st: "sending plain v w"
    and "ip_next v < length hello" and "ua_write (e_uart E) 0 (hello ! ip_next v) (w_uart w) = (Inr (), u)"
  shows "turn E w = (Ok True, w\<lparr>w_uart := u, w_rt := (w_rt w)\<lparr>rt_vm := Some (v\<lparr>ip_next := ip_next v + 1\<rparr>)\<rparr>\<rparr>)"
  using assms idle_turn [OF env law st]
  by (simp add: turn_def bnd_def on_uart_def get_state_def on_vm_def sending_def example_env_def inproc_ops_def ret_def
      process_memory_def inproc_poll_event_def handle_io_def Let_def within_def example_layout_def checked_sub_def
      uart_access_def call_ext_def finish_io_def access_value_def inproc_complete_io_def vm_same byte_value)

lemma hello_pass:
  assumes env: "example_env E r view" and law: "console_law (e_uart E) plain out" and st: "sending plain v w"
    and k: "ip_next v < length hello"
  shows "\<exists>u. loop_pass E False w = (Ok (Some False), progress (w_clock w + 2) u (ip_next v + 1) v w) \<and>
    plain u \<and> out u = out (w_uart w) @ [hello ! ip_next v]"
proof -
  obtain u where u: "ua_write (e_uart E) 0 (hello ! ip_next v) (w_uart w) = (Inr (), u)" "plain u"
    "out u = out (w_uart w) @ [hello ! ip_next v]"
    using law st unfolding console_law_def sending_def by metis
  let ?w = "w\<lparr>w_clock := w_clock w + 2\<rparr>"
  have alone: "\<forall>n c. e_others E n c = c" "rt_devices (w_rt w) = []" using env st by (simp_all add: example_env_def sending_def)
  have "sending plain v ?w" using st by (simp add: sending_def)
  from hello_turn [OF env law this k] u(1) have "turn E ?w = (Ok True, progress (w_clock w + 2) u (ip_next v + 1) v w)" by simp
  with st alone have "loop_pass E False w = (Ok (Some False), progress (w_clock w + 2) u (ip_next v + 1) v w)"
    by (simp add: loop_pass_def bnd_def is_stopping_def alone_control stopping_def next_request_def sending_def ret_def)
  with u(2,3) show ?thesis by blast
qed

lemma last_pass:
  assumes env: "example_env E r view" and law: "console_law (e_uart E) plain out" and st: "sending plain v w"
    and k: "ip_next v = length hello"
  shows "loop_pass E False w = (Ok None, w\<lparr>w_clock := w_clock w + 2\<rparr>)"
proof -
  let ?w = "w\<lparr>w_clock := w_clock w + 2\<rparr>"
  have s: "sending plain v ?w" using st by (simp add: sending_def)
  have alone: "\<forall>n c. e_others E n c = c" "rt_devices (w_rt w) = []" using env st by (simp_all add: example_env_def sending_def)
  have "turn E ?w = (Ok False, ?w)"
    using env st k idle_turn [OF env law s] vm_same [of ?w]
    by (simp add: turn_def bnd_def on_uart_def get_state_def on_vm_def sending_def example_env_def inproc_ops_def ret_def
        process_memory_def inproc_poll_event_def Let_def example_layout_def vm_same)
  with st alone show ?thesis
    by (simp add: loop_pass_def bnd_def is_stopping_def alone_control stopping_def next_request_def sending_def ret_def)
qed

lemma hello_loop:
  assumes env: "example_env E r view" and law: "console_law (e_uart E) plain out"
    and "sending plain v w" and "ip_next v \<le> length hello"
  shows "\<exists>t u. run_loop E False w = Some (Ok (), progress t u (length hello) v w) \<and>
    plain u \<and> out u = out (w_uart w) @ drop (ip_next v) hello"
  using assms(3,4)
proof (induction "length hello - ip_next v" arbitrary: v w)
  case 0
  then have "ip_next v = length hello" by simp
  moreover from this have "v\<lparr>ip_next := length hello\<rparr> = v" by (cases v) simp
  ultimately show ?case
    using last_pass [OF env law 0(2)] 0(2) vm_same [of w v]
    by (auto simp: run_loop.simps [of E False w] sending_def intro!: exI [of _ "w_clock w + 2"] exI [of _ "w_uart w"])
next
  case (Suc n)
  then have k: "ip_next v < length hello" by simp
  obtain u where u: "loop_pass E False w = (Ok (Some False), progress (w_clock w + 2) u (ip_next v + 1) v w)"
    "plain u" "out u = out (w_uart w) @ [hello ! ip_next v]"
    using hello_pass [OF env law Suc.prems(1) k] by blast
  let ?v = "v\<lparr>ip_next := ip_next v + 1\<rparr>" and ?w = "progress (w_clock w + 2) u (ip_next v + 1) v w"
  have "sending plain ?v ?w" using Suc.prems u(2) by (simp add: sending_def)
  moreover have "n = length hello - ip_next ?v" "ip_next ?v \<le> length hello" using Suc k by simp_all
  ultimately obtain t u' where "run_loop E False ?w = Some (Ok (), progress t u' (length hello) ?v ?w)" "plain u'"
    "out u' = out (w_uart ?w) @ drop (ip_next ?v) hello" using Suc.hyps(1) by blast
  with u k show ?case
    by (auto simp: run_loop.simps [of E False w] Cons_nth_drop_Suc intro!: exI [of _ t] exI [of _ u'])
qed

text \<open>Up to the event loop: memory is allocated and mapped, and the virtual machine runs.\<close>

definition example_runtime :: "(inproc_vm, 's, unit, 'q) runtime" where
  "example_runtime = \<lparr>rt_vm = None, rt_layout = example_layout, rt_devices = [], rt_base = [], rt_mapped = 0,
     rt_has_memory = False, rt_strict = True\<rparr>"

lemma example_new:
  fixes E :: "(inproc_vm, 's, unit, 'q, 'm, 'u, usize) env"
  assumes "example_env E r view"
  shows "runtime_new E example_config [] None None = Ok example_runtime"
proof -
  have lay: "inproc_layout example_config (requirements ([] :: (string \<times> 's) list) (None :: unit option) None) = Ok example_layout"
    by (simp add: inproc_layout_def requirements_def example_config_def default_config_def example_layout_def checked_mul_def)
  have "validate example_layout example_config (requirements ([] :: (string \<times> 's) list) (None :: unit option) None) = Ok ()"
    unfolding validate_char
    by (simp add: example_layout_def example_config_def default_config_def requirements_def hotplug_matches_def windows_def
        ram_window_def io_window_def window_ok_def apart_def)
  with lay assms show ?thesis
    by (simp add: runtime_new_def example_env_def inproc_platform_def attach_memory_def device_list_def Let_def
        example_runtime_def example_config_def default_config_def)
qed

lemma example_init:
  assumes env: "example_env E r view" and "rt_devices (w_rt w) = []" and "rt_layout (w_rt w) = example_layout"
    and "rt_base (w_rt w) = []" and "rt_mapped (w_rt w) = 0" and "vm_lifecycle (w_control w) = VmStarting"
  shows "runtime_init E example_config w = (Ok (), w\<lparr>w_clock := w_clock w + 4, w_view := view, w_rt := (w_rt w)\<lparr>
    rt_vm := Some \<lparr>ip_mappings = [(r_start r, r)], ip_running = True, ip_next = 0\<rparr>, rt_base := [r], rt_mapped := 1\<rparr>\<rparr>)"
proof -
  have alone: "\<forall>n c. e_others E n c = c" using env by (simp add: example_env_def)
  show ?thesis
    using assms
    by (simp add: runtime_init_def bnd_def pure_res_def get_state_def modify_def is_stopping_def alone_control [OF alone] ret_def
        example_env_def example_layout_def stopping_def inproc_platform_def inproc_create_def example_config_def default_config_def
        on_vm_def inproc_ops_def inproc_mapper_def inproc_map_def bt_get_def prepare_vm_def inproc_set_running_def)
qed

lemma example_cleanup:
  assumes env: "example_env E r view" and "rt_devices (w_rt w) = []" and "rt_vm (w_rt w) = Some v"
    and "ip_mappings v = [(r_start r, r)]" and "rt_base (w_rt w) = [r]" and "rt_mapped (w_rt w) = 1"
  shows "release E w = (Ok (Ok (), Ok ()), put_vm (Some (v\<lparr>ip_running := False, ip_mappings := []\<rparr>)) w)"
  using assms
  by (simp add: release_def bnd_def stop_vm_def attempt_def on_vm_def get_state_def example_env_def inproc_ops_def Let_def
      inproc_set_running_def modify_def ret_def unmap_base_def inproc_mapper_def inproc_unmap_def bt_get_def bt_remove_def put_vm_def)

lemma example_runs:
  assumes env: "example_env E r view" and law: "console_law (e_uart E) plain out"
    and w: "plain (w_uart w)" "vm_lifecycle (w_control w) = VmStarting" "requests (w_control w) = []"
  shows "\<exists>w'. runtime_run E example_config [] None None w = Some (Ok (), w') \<and> out (w_uart w') = out (w_uart w) @ hello \<and>
    rt_vm (w_rt w') = None \<and> rt_devices (w_rt w') = []"
proof -
  have alone: "\<forall>n c. e_others E n c = c" using env by (simp add: example_env_def)
  let ?w0 = "w\<lparr>w_rt := example_runtime\<rparr>" and ?v = "\<lparr>ip_mappings = [(r_start r, r)], ip_running = True, ip_next = 0\<rparr>"
  let ?w1 = "?w0\<lparr>w_clock := w_clock w + 1\<rparr>"
  let ?w2 = "w\<lparr>w_view := view, w_rt := example_runtime\<lparr>rt_vm := Some ?v, rt_base := [r], rt_mapped := 1\<rparr>,
    w_control := running (w_control w), w_clock := w_clock w + 6\<rparr>"
  have "runtime_init E example_config ?w1 = (Ok (), ?w1\<lparr>w_clock := w_clock w + 5, w_view := view,
      w_rt := example_runtime\<lparr>rt_vm := Some ?v, rt_base := [r], rt_mapped := 1\<rparr>\<rparr>)"
    using example_init [OF env, of ?w1] w by (simp add: example_runtime_def)
  then have main: "main_part E example_config ?w0 = run_loop E False ?w2"
    using w by (simp add: main_part_def is_stopping_def update_control_def alone_control [OF alone] example_runtime_def
        stopping_def bnd_def add.commute [of 6])
  have "sending plain ?v ?w2"
    using w by (simp add: sending_def example_runtime_def running_def)
  then obtain t u where loop: "run_loop E False ?w2 = Some (Ok (), progress t u (length hello) ?v ?w2)"
    and u: "plain u" "out u = out (w_uart w) @ hello"
    using hello_loop [OF env law, of ?v ?w2] by auto
  let ?w3 = "progress t u (length hello) ?v ?w2"
  let ?w4 = "?w3\<lparr>w_control := cleaning (running (w_control w)), w_clock := t + 1\<rparr>"
  have "release E ?w4 = (Ok (Ok (), Ok ()), put_vm (Some (?v\<lparr>ip_next := length hello, ip_running := False, ip_mappings := []\<rparr>)) ?w4)"
    using example_cleanup [OF env, of ?w4 "?v\<lparr>ip_next := length hello\<rparr>"] by (simp add: example_runtime_def)
  then have "\<exists>w'. wind_down E (Ok ()) ?w3 = (Ok (), w') \<and> w_uart w' = u \<and> rt_vm (w_rt w') = None \<and> rt_devices (w_rt w') = []"
    by (simp add: wind_down_def bnd_def update_control_def alone_control [OF alone] example_runtime_def cleanup_def modify_def
        ret_def put_vm_def pure_res_def and_result_def)
  moreover have "runtime_run E example_config [] None None w = Some (wind_down E (Ok ()) ?w3)"
    unfolding runtime_run_def share_status_def option.map example_new [OF env] result.case main loop by simp
  ultimately show ?thesis using u(2) by fastforce
qed

text \<open>C32. The example runs to the end: when the host provides its memory and the UART passes bytes on, the whole
  program, from construction through the event loop to cleanup, returns success, has written exactly its
  message, has destroyed the virtual machine and left the lifecycle stopped without an error.\<close>

theorem hello_run:
  assumes "example_env E r view" and "console_law (e_uart E) plain out" and "plain (w_uart w)"
    and "w_control w = control_new None" and "rt_devices (w_rt w) = []"
  shows "\<exists>w'. example_main E thread w = Some (Ok (), w') \<and> out (w_uart w') = out (w_uart w) @ hello \<and>
    settled (w_control w') \<and> final_error (w_control w') = None \<and> rt_vm (w_rt w') = None"
proof -
  have alone: "\<forall>n c. e_others E n c = c" using assms(1) by (simp add: example_env_def)
  let ?w = "w\<lparr>w_control := (control_new None)\<lparr>owner := Some thread, vm_lifecycle := VmStarting\<rparr>, w_clock := w_clock w + 1\<rparr>"
  have b: "on_control E (begin_run thread) w = (Ok (Ok ()), ?w)"
    using assms(4,5) by (simp add: alone_control [OF alone] begin_run_def control_new_def)
  obtain w' where w': "runtime_run E example_config [] None None ?w = Some (Ok (), w')"
    "out (w_uart w') = out (w_uart w) @ hello" "rt_vm (w_rt w') = None" "rt_devices (w_rt w') = []"
    using example_runs [OF assms(1,2), of ?w] assms(3) by (auto simp: control_new_def)
  then show ?thesis
    by (simp add: example_main_def run_with_platform_def run_owned_def b vmm_new_def vmm_drop_def update_control_def
        alone_control [OF alone] outcome_of_def dropped_def finish_settled settled_def)
      (simp add: finish_def cancel_def stop_memory_def)
qed

end
