(* ===== verification/Peer.thy ===== *)
theory Peer
  imports Net Text
begin

text \<open>
  The test peer of \<open>src/demo/examples/net-peer.rs\<close>: a network backend inside the process that answers ARP
  requests and ICMP echo requests for one address. Reads at constant positions of a frame stay below 42,
  which the code checks first; writes and computed ranges panic when they leave their buffer.
  Lemmas: the checksum is the one of the internet protocols, every answer is a valid packet for its sender, no
  frame makes the peer panic, and answers are delivered in order.
\<close>

section \<open>Definitions\<close>

datatype PeerError = Length usize | Fragment | Checksum | Buffer usize usize

text \<open>How a boxed error is rendered.\<close>

fun peer_message :: "PeerError \<Rightarrow> ext_error" where
  "peer_message (Length n) = ''invalid test-peer IPv4 length '' @ decimal n"
| "peer_message Fragment = ''test peer does not reassemble fragments''"
| "peer_message Checksum = ''invalid guest packet checksum''"
| "peer_message (Buffer capacity n) = ''test peer RX buffer too small: '' @ decimal capacity @ '', need '' @ decimal n"

definition peer_error :: "PeerError \<Rightarrow> NetError" where
  "peer_error e = NetError.Backend (peer_message e)"

definition PEER_MAC :: bytes where
  "PEER_MAC = [2, 0, 0, 0, 0, 2]"

definition PEER_IP :: bytes where
  "PEER_IP = [192, 0, 2, 1]"

record peer =
  peer_replies :: "bytes list"

text \<open>\<open>chunks(2)\<close> as big-endian numbers, the last one padded with zero.\<close>

fun be_words :: "bytes \<Rightarrow> u16 list" where
  "be_words [] = []"
| "be_words [a] = [push_bit 8 (ucast a) OR ucast (0 :: u8)]"
| "be_words (a # b # bs) = (push_bit 8 (ucast a) OR ucast b) # be_words bs"

function fold_carry :: "u32 \<Rightarrow> u32" where
  "fold_carry s = (if drop_bit 16 s \<noteq> 0 then fold_carry ((s AND 0xffff) + drop_bit 16 s) else s)"
  by auto

lemma carry_unat: "unat ((s AND 0xffff) + drop_bit 16 s) = unat s mod 65536 + unat s div 65536"
  for s :: u32
proof -
  have "s AND 0xffff = take_bit 16 s" by (simp add: take_bit_eq_mask mask_eq_exp_minus_1)
  then have a: "unat (s AND 0xffff) = unat s mod 65536" by (simp add: take_bit_eq_mod unat_mod_distrib)
  have d: "unat (drop_bit 16 s) = unat s div 65536" by (simp add: drop_bit_eq_div unat_div_distrib)
  have "unat s < 2 ^ 32" using unat_bound [of s] by simp
  then have "unat s div 65536 < 65536" by (simp add: less_mult_imp_div_less)
  moreover have "unat s mod 65536 < 65536" by simp
  ultimately show ?thesis by (simp add: unat_word_ariths a d)
qed

lemma carry_zero: "drop_bit 16 s = 0 \<longleftrightarrow> unat s < 65536"
  for s :: u32
  by (simp add: unat_eq_0 [symmetric] drop_bit_eq_div unat_div_distrib div_eq_0_iff)

lemma carry_less: "65536 \<le> n \<Longrightarrow> n mod 65536 + n div 65536 < n"
  for n :: nat
proof -
  assume n: "65536 \<le> n"
  define q r where "q = n div 65536" and "r = n mod 65536"
  then have "n = 65536 * q + r" "0 < q" using n by (simp_all add: div_greater_zero_iff)
  then have "r + q < n" by linarith
  then show ?thesis by (simp add: q_def r_def)
qed

termination fold_carry
proof (relation "measure unat")
  fix s :: u32 assume "drop_bit 16 s \<noteq> 0"
  then have "65536 \<le> unat s" using carry_zero [of s] by linarith
  then show "((s AND 0xffff) + drop_bit 16 s, s) \<in> measure unat"
    using carry_less [of "unat s"] by (simp add: carry_unat)
qed simp

declare fold_carry.simps [simp del]

definition checksum :: "bytes \<Rightarrow> u16" where
  "checksum d = NOT (ucast (fold_carry (sum_list (map ucast (be_words d)))))"

text \<open>\<open>copy_from_slice\<close> into a part of a buffer.\<close>

definition put_at :: "usize \<Rightarrow> bytes \<Rightarrow> bytes \<Rightarrow> (bytes, 'e) result" where
  "put_at off src xs = (if off + length src \<le> length xs then Ok (put_bytes off src xs) else Panic)"

text \<open>\<open>xs[from..to]\<close>.\<close>

definition slice :: "usize \<Rightarrow> usize \<Rightarrow> bytes \<Rightarrow> (bytes, 'e) result" where
  "slice i j xs = (if i \<le> j \<and> j \<le> length xs then Ok (sub_bytes i (j - i) xs) else Panic)"

definition is_arp :: "bytes \<Rightarrow> bool" where
  "is_arp frame \<longleftrightarrow> sub_bytes 12 2 frame = [8, 6] \<and> sub_bytes 14 8 frame = [0, 1, 8, 0, 6, 4, 0, 1] \<and>
     sub_bytes 38 4 frame = PEER_IP"

definition is_echo :: "bytes \<Rightarrow> bool" where
  "is_echo frame \<longleftrightarrow> sub_bytes 12 2 frame = [8, 0] \<and> frame ! 14 = 0x45 \<and> frame ! 23 = 1 \<and>
     sub_bytes 30 4 frame = PEER_IP \<and> sub_bytes 34 2 frame = [8, 0]"

definition arp_reply :: "bytes \<Rightarrow> (bytes, NetError) result" where
  "arp_reply frame =
     and_then (put_at 20 [0, 2] frame) (\<lambda>reply.
     and_then (put_at 32 (sub_bytes 22 6 frame) reply) (\<lambda>reply.
     and_then (put_at 38 (sub_bytes 28 4 frame) reply) (\<lambda>reply.
     and_then (put_at 22 PEER_MAC reply) (\<lambda>reply.
     put_at 28 PEER_IP reply))))"

definition be_bytes2 :: "u16 \<Rightarrow> bytes" where
  "be_bytes2 x = rev (le_bytes 2 (unat x))"

definition echo_total :: "bytes \<Rightarrow> usize" where
  "echo_total frame = be_nat (sub_bytes 16 2 frame)"

definition echo_reply :: "bytes \<Rightarrow> (bytes, NetError) result" where
  "echo_reply frame =
     (let tot = echo_total frame in
      if \<not> (28 \<le> tot \<and> tot + 14 \<le> length frame) then Err (peer_error (Length tot))
      else if (word_of_nat (be_nat (sub_bytes 20 2 frame)) :: u16) AND 0x3fff \<noteq> 0 then Err (peer_error Fragment)
      else
      and_then (slice 34 (14 + tot) frame) (\<lambda>icmp.
      if \<not> (checksum (sub_bytes 14 20 frame) = 0 \<and> checksum icmp = 0) then Err (peer_error Checksum)
      else
      and_then (put_at 26 PEER_IP (take (tot + 14) frame)) (\<lambda>reply.
      and_then (put_at 30 (sub_bytes 26 4 frame) reply) (\<lambda>reply.
      and_then (put_at 34 [0] reply) (\<lambda>reply.
      and_then (put_at 36 [0, 0] reply) (\<lambda>reply.
      and_then (slice 34 (length reply) reply) (\<lambda>icmp.
      put_at 36 (be_bytes2 (checksum icmp)) reply)))))))"

text \<open>The answer to a frame; nothing if the peer ignores it.\<close>

definition peer_answer :: "bytes \<Rightarrow> (bytes option, NetError) result" where
  "peer_answer frame =
     (if length frame < 42 then Ok None
      else if \<not> is_arp frame \<and> \<not> is_echo frame then Ok None
      else
      and_then (if is_arp frame then arp_reply frame else echo_reply frame) (\<lambda>reply.
      and_then (put_at 0 (sub_bytes 6 6 frame) reply) (\<lambda>reply.
      and_then (put_at 6 PEER_MAC reply) (\<lambda>reply.
      Ok (Some reply)))))"

text \<open>Copy the slices of a frame one after the other.\<close>

fun gather :: "('q, 'm) crates \<Rightarrow> vslice list \<Rightarrow> 'm \<Rightarrow> bytes \<times> 'm" where
  "gather C [] m = ([], m)"
| "gather C (s # ss) m = (case cm_copy_to C s (vs_len s) m of (b, m) \<Rightarrow> (case gather C ss m of (bs, m) \<Rightarrow> (b @ bs, m)))"

fun frame_bytes :: "('q, 'm) crates \<Rightarrow> frame \<Rightarrow> 'm \<Rightarrow> bytes \<times> 'm" where
  "frame_bytes C (Guest ss) m = gather C ss m"
| "frame_bytes C (Host b) m = (b, m)"

definition peer_send :: "('q, 'm) crates \<Rightarrow> frame \<Rightarrow> (peer \<times> 'm, bool, NetError) prog" where
  "peer_send C f = (\<lambda>(p, m).
     if length (peer_replies p) = 128 then (Ok False, p, m)
     else (case frame_bytes C f m of (frame, m) \<Rightarrow>
       (case peer_answer frame of
          Ok None \<Rightarrow> (Ok True, p, m)
        | Ok (Some reply) \<Rightarrow> (Ok True, p\<lparr>peer_replies := peer_replies p @ [reply]\<rparr>, m)
        | Err e \<Rightarrow> (Err e, p, m)
        | Panic \<Rightarrow> (Panic, p, m))))"

fun scatter :: "('q, 'm) crates \<Rightarrow> vslice list \<Rightarrow> bytes \<Rightarrow> 'm \<Rightarrow> 'm" where
  "scatter C [] remaining m = m"
| "scatter C (s # ss) remaining m =
     (let n = min (vs_len s) (length remaining)
      in scatter C ss (drop n remaining) (cm_copy_from C s (take n remaining) m))"

definition peer_recv :: "('q, 'm) crates \<Rightarrow> frame \<Rightarrow> (peer \<times> 'm, usize option \<times> bytes, NetError) prog" where
  "peer_recv C f = (\<lambda>(p, m). case peer_replies p of
     [] \<Rightarrow> (Ok (None, case f of Guest _ \<Rightarrow> [] | Host b \<Rightarrow> b), p, m)
   | frame # rest \<Rightarrow>
       let p = p\<lparr>peer_replies := rest\<rparr> in
       if frame_len f < length frame then (Err (peer_error (Buffer (frame_len f) (length frame))), p, m)
       else (case f of
           Guest ss \<Rightarrow> (Ok (Some (length frame), []), p, scatter C ss frame m)
         | Host b \<Rightarrow> (Ok (Some (length frame), frame @ drop (length frame) b), p, m)))"

definition peer_ops :: "('q, 'm) crates \<Rightarrow> (peer, 'm) net_ops" where
  "peer_ops C = \<lparr>nd_mtu = 1500, nd_mac_address = (\<lambda>_. [2, 0, 0, 0, 0, 1]), nd_max_frame_len = (\<lambda>_. 1514),
     nd_send = peer_send C, nd_recv = peer_recv C\<rparr>"

section \<open>The checksum\<close>

text \<open>The sum of the 16-bit words of a packet, and its reduction with end-around carry.\<close>

definition word_sum :: "bytes \<Rightarrow> nat" where
  "word_sum d = sum_list (map unat (be_words d))"

definition ones_sum :: "nat \<Rightarrow> nat" where
  "ones_sum n = (if n = 0 then 0 else (n - 1) mod 65535 + 1)"

text \<open>What a receiver checks (RFC 1071): the words, the checksum included, add up to a positive multiple of 65535.\<close>

definition verifies :: "bytes \<Rightarrow> bool" where
  "verifies d \<longleftrightarrow> 0 < word_sum d \<and> 65535 dvd word_sum d"

lemma unat_widen: "LENGTH('a) \<le> LENGTH('b) \<Longrightarrow> unat (ucast x :: 'b::len word) = unat x"
  for x :: "'a::len word"
proof -
  assume "LENGTH('a) \<le> LENGTH('b)"
  then have "(2 :: nat) ^ LENGTH('a) \<le> 2 ^ LENGTH('b)" by simp
  then have "unat x < 2 ^ LENGTH('b)" using unat_bound [of x] by linarith
  then show ?thesis by (simp add: unsigned_ucast_eq take_bit_nat_eq_self)
qed

lemma be_word: "unat (push_bit 8 (ucast a) OR ucast b :: u16) = 256 * unat a + unat b"
  for a b :: u8
proof -
  have "unat a < 256" "unat b < 256" using unat_bound [of a] unat_bound [of b] by simp_all
  then have "unat a * 256 + unat b < 65536" by linarith
  moreover have "push_bit 8 (ucast a :: u16) OR ucast b = push_bit 8 (ucast a) + ucast b"
    by (rule disjunctive_add_eq_or [symmetric], rule bit_word_eqI) (auto simp: bit_simps dest: bit_imp_le_length)
  ultimately show ?thesis
    by (simp add: unat_word_ariths push_bit_eq_mult unat_widen)
qed

lemma word_sum_simps [simp]:
  "word_sum [] = 0" "word_sum [a] = 256 * unat a" "word_sum (a # b # bs) = 256 * unat a + unat b + word_sum bs"
  using be_word [of a 0] be_word [of a b] by (simp_all add: word_sum_def)

lemma word_sum_append: "even (length xs) \<Longrightarrow> word_sum (xs @ ys) = word_sum xs + word_sum ys"
  by (induction xs rule: be_words.induct) auto

lemma word_sum_bound: "word_sum d \<le> 65535 * ((length d + 1) div 2)"
proof (induction d rule: be_words.induct)
  case (2 a)
  have "unat a < 256" using unat_bound [of a] by simp
  then show ?case by simp
next
  case (3 a b bs)
  have "unat a < 256" "unat b < 256" using unat_bound [of a] unat_bound [of b] by simp_all
  with 3 show ?case by simp
qed simp

lemma unat_sum_list:
  "sum_list (map unat xs) < 2 ^ 32 \<Longrightarrow> unat (sum_list (map ucast xs) :: u32) = sum_list (map unat xs)"
  for xs :: "u16 list"
proof (induction xs)
  case (Cons x xs)
  have "unat (ucast x :: u32) = unat x" by (rule unat_widen) simp
  with Cons show ?case by (simp add: unat_word_ariths)
qed simp

lemma fold_carry_ones: "unat (fold_carry s) = ones_sum (unat s)"
proof (induction s rule: fold_carry.induct)
  case (1 s)
  show ?case
  proof (cases "drop_bit 16 s = 0")
    case True
    then have "unat s < 65536" by (simp add: carry_zero)
    with True show ?thesis by (simp add: fold_carry.simps [of s] ones_sum_def)
  next
    case False
    define q r where "q = unat s div 65536" and "r = unat s mod 65536"
    have n: "unat s = 65536 * q + r" by (simp add: q_def r_def)
    have "65536 \<le> unat s" using False carry_zero [of s] by linarith
    then have q: "0 < q" by (simp add: q_def div_greater_zero_iff)
    then have "unat s - 1 = (r + q - 1) + 65535 * q" using n by simp
    then have "(unat s - 1) mod 65535 = (r + q - 1) mod 65535" by (simp only: mod_mult_self2)
    then have "ones_sum (unat s) = ones_sum (r + q)" using n q by (simp add: ones_sum_def)
    moreover have "unat (fold_carry s) = ones_sum (unat ((s AND 0xffff) + drop_bit 16 s))"
      using 1 [OF False] False by (simp add: fold_carry.simps [of s])
    ultimately show ?thesis by (simp add: carry_unat q_def r_def)
  qed
qed

lemma ones_sum_bound: "ones_sum n \<le> 65535" "ones_sum n \<le> n"
  by (auto simp: ones_sum_def intro: order.trans [OF Suc_leI [OF mod_less_divisor]] le_trans [OF mod_less_eq_dividend])

lemma unat_checksum:
  assumes "length d \<le> 65535"
  shows "unat (checksum d) = 65535 - ones_sum (word_sum d)"
proof -
  let ?s = "sum_list (map ucast (be_words d)) :: u32"
  have "word_sum d \<le> 65535 * 32768" using word_sum_bound [of d] assms by (auto intro: order.trans)
  then have "unat ?s = word_sum d" using unat_sum_list [of "be_words d"] by (simp add: word_sum_def)
  then have f: "unat (fold_carry ?s) = ones_sum (word_sum d)" by (simp add: fold_carry_ones)
  have "unat (ucast (fold_carry ?s) :: u16) = ones_sum (word_sum d)"
    using ones_sum_bound(1) [of "word_sum d"] by (simp add: unsigned_ucast_eq f take_bit_eq_mod)
  moreover have "unat (NOT x) = 65535 - unat x" for x :: u16
  proof -
    have "unat (- 1 - x) = unat (- 1 :: u16) - unat x" by (rule unat_sub) simp
    moreover have "unat (- 1 :: u16) = 65535" by (simp add: unsigned_minus_1_eq_mask mask_eq_exp_minus_1)
    moreover have "NOT x = - 1 - x" by (simp add: not_eq_complement)
    ultimately show ?thesis by simp
  qed
  ultimately show ?thesis by (simp add: checksum_def)
qed

lemma checksum_verifies:
  assumes "length d \<le> 65535"
  shows "checksum d = 0 \<longleftrightarrow> verifies d"
proof -
  have "checksum d = 0 \<longleftrightarrow> unat (checksum d) = 0" by (simp add: unat_eq_0)
  also have "\<dots> \<longleftrightarrow> ones_sum (word_sum d) = 65535"
    using unat_checksum [OF assms] ones_sum_bound(1) [of "word_sum d"] by linarith
  also have "\<dots> \<longleftrightarrow> 0 < word_sum d \<and> (word_sum d - 1) mod 65535 = 65534" by (auto simp: ones_sum_def)
  also have "\<dots> \<longleftrightarrow> verifies d"
  proof (cases "word_sum d")
    case (Suc n)
    have "n mod 65535 = 65534 \<longleftrightarrow> Suc n mod 65535 = 0" by (simp add: mod_Suc)
    with Suc show ?thesis by (simp add: verifies_def dvd_eq_mod_eq_0)
  qed (simp add: verifies_def)
  finally show ?thesis .
qed

text \<open>A packet whose checksum field is filled with the checksum over the rest verifies.\<close>

lemma fill_verifies:
  assumes "length d \<le> 65535" and "word_sum d' = word_sum d + unat (checksum d)"
  shows "verifies d'"
proof (cases "word_sum d")
  case (Suc n)
  define q r where "q = n div 65535" and "r = n mod 65535"
  then have n: "n = 65535 * q + r" "r < 65535" by simp_all
  have "word_sum d' = Suc n + (65535 - Suc r)"
    using Suc assms unat_checksum [OF assms(1)] by (simp add: ones_sum_def r_def)
  with n have "word_sum d' = 65535 * (q + 1)" by simp
  then show ?thesis unfolding verifies_def by simp
qed (use assms unat_checksum [OF assms(1)] in \<open>simp add: verifies_def ones_sum_def\<close>)

section \<open>Parts of frames\<close>

lemma nth_put_bytes:
  "off + length src \<le> length xs \<Longrightarrow> i < length xs \<Longrightarrow>
    put_bytes off src xs ! i = (if off \<le> i \<and> i < off + length src then src ! (i - off) else xs ! i)"
  by (auto simp: put_bytes_def nth_append)

lemma nth_sub_bytes: "i < n \<Longrightarrow> off + i < length xs \<Longrightarrow> sub_bytes off n xs ! i = xs ! (off + i)"
  by (simp add: sub_bytes_def)

lemma sub_put_outside:
  "off + length src \<le> length xs \<Longrightarrow> i + n \<le> length xs \<Longrightarrow> i + n \<le> off \<or> off + length src \<le> i \<Longrightarrow>
    sub_bytes i n (put_bytes off src xs) = sub_bytes i n xs"
  by (rule nth_equalityI) (auto simp: nth_sub_bytes nth_put_bytes)

lemma sub_put_inside:
  "i \<le> off \<Longrightarrow> off + length src \<le> i + n \<Longrightarrow> i + n \<le> length xs \<Longrightarrow>
    sub_bytes i n (put_bytes off src xs) = put_bytes (off - i) src (sub_bytes i n xs)"
  by (rule nth_equalityI) (auto simp: nth_sub_bytes nth_put_bytes add.commute)

lemma word_sum_put:
  assumes "even off" and "even (length src)" and "off + length src \<le> length xs"
  shows "word_sum (put_bytes off src xs) + word_sum (sub_bytes off (length src) xs) = word_sum xs + word_sum src"
proof -
  let ?a = "take off xs" and ?b = "sub_bytes off (length src) xs" and ?c = "drop (off + length src) xs"
  have xs: "xs = ?a @ ?b @ ?c" by (simp add: sub_bytes_def) (metis append_take_drop_id drop_drop add.commute)
  have ev: "even (length ?a)" "even (length ?b)" using assms by simp_all
  have "word_sum xs = word_sum ?a + (word_sum ?b + word_sum ?c)"
    by (subst xs) (simp only: word_sum_append ev)
  moreover have "word_sum (put_bytes off src xs) = word_sum ?a + (word_sum src + word_sum ?c)"
    unfolding put_bytes_def using ev assms(2) by (simp only: word_sum_append)
  ultimately show ?thesis by simp
qed

lemma word_sum_be_bytes2 [simp]: "word_sum (be_bytes2 x) = unat x" "length (be_bytes2 x) = 2"
proof -
  have "unat x < 65536" using unat_bound [of x] by simp
  then show "word_sum (be_bytes2 x) = unat x"
    using le_nat_le_bytes [of 1 "unat x div 256"]
    by (simp add: be_bytes2_def eval_nat_numeral(3) numeral_2_eq_2 unat_byte_of_nat)
  show "length (be_bytes2 x) = 2" by (simp add: be_bytes2_def)
qed

lemma address_lengths [simp]: "length PEER_IP = 4" "length PEER_MAC = 6"
  by (simp_all add: PEER_IP_def PEER_MAC_def)

lemma sub_take: "i + n \<le> k \<Longrightarrow> sub_bytes i n (take k xs) = sub_bytes i n xs"
  by (simp add: sub_bytes_def drop_take)

lemma sub_sub: "i + n \<le> k \<Longrightarrow> sub_bytes i n (sub_bytes off k xs) = sub_bytes (off + i) n xs"
  by (simp add: sub_bytes_def drop_take add.commute)

lemma put_all: "length src = length xs \<Longrightarrow> put_bytes 0 src xs = src"
  by (simp add: put_bytes_def)

lemmas parts = sub_put_outside sub_put_inside sub_take

text \<open>Swapping source and destination keeps the sum of an IPv4 header.\<close>

lemma swap_verifies:
  assumes "verifies h" and "length h = 20" and "sub_bytes 16 4 h = PEER_IP" and "src = sub_bytes 12 4 h"
  shows "verifies (put_bytes 16 src (put_bytes 12 PEER_IP h))"
proof -
  have l: "length src = 4" using assms(2,4) by simp
  let ?h = "put_bytes 12 PEER_IP h"
  have "word_sum ?h + word_sum src = word_sum h + word_sum PEER_IP"
    using word_sum_put [of 12 PEER_IP h] assms(2,4) by simp
  moreover have "word_sum (put_bytes 16 src ?h) + word_sum (sub_bytes 16 4 ?h) = word_sum ?h + word_sum src"
    using word_sum_put [of 16 src ?h] assms(2) l by simp
  moreover have "sub_bytes 16 4 ?h = PEER_IP" using assms(2,3) by (simp add: parts)
  ultimately have "word_sum (put_bytes 16 src ?h) = word_sum h" by simp
  with assms(1) show ?thesis by (simp add: verifies_def)
qed

text \<open>A well-formed answer to an echo request: addressed to its sender, an echo reply with the request's payload,
  and both checksums verify.\<close>

definition valid_echo :: "bytes \<Rightarrow> bytes \<Rightarrow> bool" where
  "valid_echo frame reply \<longleftrightarrow> length reply = echo_total frame + 14 \<and>
     sub_bytes 0 6 reply = sub_bytes 6 6 frame \<and> sub_bytes 6 6 reply = PEER_MAC \<and>
     sub_bytes 26 4 reply = PEER_IP \<and> sub_bytes 30 4 reply = sub_bytes 26 4 frame \<and>
     sub_bytes 34 2 reply = [0, 0] \<and> sub_bytes 38 (length reply - 38) reply = sub_bytes 38 (length reply - 38) frame \<and>
     verifies (sub_bytes 14 20 reply) \<and> verifies (sub_bytes 34 (length reply - 34) reply)"

lemma icmp_part:
  assumes "length x = t + 14" and "28 \<le> t" and "length q = 2" and "length a = 6"
  shows "sub_bytes 34 (t - 20) (put_bytes 6 PEER_MAC (put_bytes 0 a (put_bytes 36 q x))) = put_bytes 2 q (sub_bytes 34 (t - 20) x)"
  using assms by (simp add: parts)

lemma echo_answer:
  assumes len: "42 \<le> length frame" "length frame \<le> 65535" and echo: "is_echo frame" and "echo_reply frame = Ok r"
  shows "valid_echo frame (put_bytes 6 PEER_MAC (put_bytes 0 (sub_bytes 6 6 frame) r))"
proof -
  let ?t = "echo_total frame" and ?src = "sub_bytes 26 4 frame"
  let ?f = "take (?t + 14) frame"
  let ?r4 = "put_bytes 36 [0, 0] (put_bytes 34 [0] (put_bytes 30 ?src (put_bytes 26 PEER_IP ?f)))"
  let ?icmp = "sub_bytes 34 (?t - 20) ?r4"
  have t: "28 \<le> ?t" "?t + 14 \<le> length frame" and hdr: "checksum (sub_bytes 14 20 frame) = 0"
    using assms(4) by (auto simp: echo_reply_def Let_def and_then_Ok_iff split: if_splits)
  have L: "length ?f = ?t + 14" "length ?r4 = ?t + 14" using t by simp_all
  have r: "r = put_bytes 36 (be_bytes2 (checksum ?icmp)) ?r4"
    using assms(4) t by (auto simp: echo_reply_def Let_def and_then_Ok_iff put_at_def slice_def split: if_splits)
  have "verifies (sub_bytes 14 20 frame)"
    using hdr checksum_verifies [of "sub_bytes 14 20 frame"] by simp
  moreover have "sub_bytes 14 20 (put_bytes 6 PEER_MAC (put_bytes 0 (sub_bytes 6 6 frame) r)) =
      put_bytes 16 ?src (put_bytes 12 PEER_IP (sub_bytes 14 20 frame))"
    using len t L by (simp add: r parts)
  ultimately have ip: "verifies (sub_bytes 14 20 (put_bytes 6 PEER_MAC (put_bytes 0 (sub_bytes 6 6 frame) r)))"
    using swap_verifies [of "sub_bytes 14 20 frame" ?src] echo len by (simp add: sub_sub is_echo_def)
  have "sub_bytes 34 (?t - 20) (put_bytes 6 PEER_MAC (put_bytes 0 (sub_bytes 6 6 frame) r)) =
      put_bytes 2 (be_bytes2 (checksum ?icmp)) ?icmp"
    unfolding r by (rule icmp_part) (use len t L in simp_all)
  moreover have "word_sum (put_bytes 2 (be_bytes2 (checksum ?icmp)) ?icmp) = word_sum ?icmp + unat (checksum ?icmp)"
  proof -
    have "sub_bytes 2 2 ?icmp = [0, 0]" using t L sub_put_bytes [of 36 "[0, 0] :: bytes"] by (simp add: sub_sub numeral_2_eq_2)
    then show ?thesis using word_sum_put [of 2 "be_bytes2 (checksum ?icmp)" ?icmp] t L by simp
  qed
  ultimately have icmp: "verifies (sub_bytes 34 (?t - 20) (put_bytes 6 PEER_MAC (put_bytes 0 (sub_bytes 6 6 frame) r)))"
    using fill_verifies [of ?icmp] len L t by simp
  let ?R = "put_bytes 6 PEER_MAC (put_bytes 0 (sub_bytes 6 6 frame) r)"
  have R: "length ?R = ?t + 14" using len t L by (simp add: r)
  have "sub_bytes 34 2 frame = [8, 0]" using echo by (simp add: is_echo_def)
  then have kind: "sub_bytes 34 2 ?R = [0, 0]"
    using len t L by (simp add: r parts, simp add: put_bytes_def)
  have l: "length r = ?t + 14" using len t L by (simp add: r)
  have eth: "sub_bytes 0 6 ?R = sub_bytes 6 6 frame" "sub_bytes 6 6 ?R = PEER_MAC" using len t l by (simp_all add: parts put_all)
  have addr: "sub_bytes 26 4 ?R = PEER_IP" "sub_bytes 30 4 ?R = sub_bytes 26 4 frame" using len t L by (simp_all add: r parts put_all)
  have "sub_bytes 38 (?t - 24) ?R = sub_bytes 38 (?t - 24) frame" using len t L by (simp add: r parts)
  with R kind eth addr ip icmp show ?thesis unfolding valid_echo_def R by simp
qed

text \<open>A well-formed answer to an ARP request.\<close>

definition valid_arp :: "bytes \<Rightarrow> bytes \<Rightarrow> bool" where
  "valid_arp frame reply \<longleftrightarrow> length reply = length frame \<and>
     sub_bytes 0 6 reply = sub_bytes 6 6 frame \<and> sub_bytes 6 6 reply = PEER_MAC \<and>
     sub_bytes 12 8 reply = sub_bytes 12 8 frame \<and> sub_bytes 20 2 reply = [0, 2] \<and>
     sub_bytes 22 6 reply = PEER_MAC \<and> sub_bytes 28 4 reply = PEER_IP \<and>
     sub_bytes 32 6 reply = sub_bytes 22 6 frame \<and> sub_bytes 38 4 reply = sub_bytes 28 4 frame"

lemma arp_answer:
  assumes "42 \<le> length frame" and "arp_reply frame = Ok r"
  shows "valid_arp frame (put_bytes 6 PEER_MAC (put_bytes 0 (sub_bytes 6 6 frame) r))"
proof -
  have r: "r = put_bytes 28 PEER_IP (put_bytes 22 PEER_MAC (put_bytes 38 (sub_bytes 28 4 frame)
      (put_bytes 32 (sub_bytes 22 6 frame) (put_bytes 20 [0, 2] frame))))"
    using assms by (auto simp: arp_reply_def and_then_Ok_iff put_at_def split: if_splits)
  then have l: "length r = length frame" and body: "sub_bytes 12 8 r = sub_bytes 12 8 frame" "sub_bytes 20 2 r = [0, 2]"
    "sub_bytes 22 6 r = PEER_MAC" "sub_bytes 28 4 r = PEER_IP" "sub_bytes 32 6 r = sub_bytes 22 6 frame"
    "sub_bytes 38 4 r = sub_bytes 28 4 frame"
    using assms(1) by (simp_all add: parts put_all)
  show ?thesis using assms(1) l unfolding valid_arp_def by (simp add: parts put_all body)
qed

lemma echo_length: "42 \<le> length frame \<Longrightarrow> echo_reply frame = Ok r \<Longrightarrow> length r = echo_total frame + 14 \<and> 28 \<le> echo_total frame"
  by (auto simp: echo_reply_def Let_def and_then_Ok_iff put_at_def slice_def split: if_splits)

section \<open>The peer as a backend\<close>

text \<open>No frame makes the peer panic.\<close>

lemma answer_no_panic: "peer_answer frame \<noteq> Panic"
proof (cases "42 \<le> length frame")
  case True
  have a: "arp_reply frame \<noteq> Panic" "\<And>r. arp_reply frame = Ok r \<Longrightarrow> length r = length frame"
    using True by (auto simp: arp_reply_def and_then_Panic_iff and_then_Ok_iff put_at_def split: if_splits)
  have "echo_reply frame \<noteq> Panic"
    by (auto simp: echo_reply_def Let_def and_then_Panic_iff put_at_def slice_def split: if_splits)
  with a echo_length [OF True] True show ?thesis
    by (auto simp: peer_answer_def and_then_Panic_iff and_then_Ok_iff put_at_def split: if_splits)
qed (simp add: peer_answer_def)

definition peer_inv :: "peer \<Rightarrow> bool" where
  "peer_inv p \<longleftrightarrow> length (peer_replies p) \<le> 128"

interpretation peer: net_backend "peer_ops C" peer_inv 1514 for C :: "('q, 'm) crates"
proof
  fix f :: frame
  have "peer_inv p' \<and> r \<noteq> Panic" if "peer_inv p" "peer_send C f (p, m) = (r, p', m')" for p m r p' m'
    using that answer_no_panic
    by (auto simp: peer_send_def peer_inv_def split: prod.splits result.splits option.splits if_splits)
  then show "hoare (\<lambda>(n, m). peer_inv n) (nd_send (peer_ops C) f) (\<lambda>_ (n, m). peer_inv n) (\<lambda>_ (n, m). peer_inv n)"
    by (intro hoareI) (fastforce simp: peer_ops_def)+
  assume "frame_len f = 1514"
  then show "hoare (\<lambda>(n, m). peer_inv n) (nd_recv (peer_ops C) f)
      (\<lambda>r (n, m). peer_inv n \<and> (\<forall>b. f = Host b \<longrightarrow> length (snd r) = length b)) (\<lambda>_ (n, m). peer_inv n)"
    by (intro hoareI) (auto simp: peer_ops_def peer_recv_def peer_inv_def Let_def split: list.splits frame.splits if_splits)
qed

text \<open>Answers arrive in the order of the requests, unchanged: receiving into a host buffer that is large enough returns
  the oldest answer at its front, and the rest stays queued.\<close>

lemma peer_delivers_in_order:
  assumes "peer_replies p = reply # rest" and "length reply \<le> length b"
  shows "peer_recv C (Host b) (p, m) = (Ok (Some (length reply), reply @ drop (length reply) b), p\<lparr>peer_replies := rest\<rparr>, m)"
  using assms by (simp add: peer_recv_def)

section \<open>Properties\<close>

text \<open>C33. Every answer the peer queues is a valid packet for the sender of the request: an ARP reply for the peer's
  address, or an echo reply with the request's payload in which the IPv4 and ICMP checksums verify. Other frames
  leave the queue alone.\<close>

theorem peer_answers_valid:
  assumes "frame_bytes C f m = (frame, m1)" and "length frame \<le> 65535" and "peer_send C f (p, m) = (Ok True, p', m')"
  shows "peer_replies p' = peer_replies p \<or> (\<exists>reply. peer_replies p' = peer_replies p @ [reply] \<and>
    (is_arp frame \<and> valid_arp frame reply \<or> is_echo frame \<and> valid_echo frame reply))"
proof (cases "peer_replies p' = peer_replies p")
  case False
  then obtain reply where a: "peer_answer frame = Ok (Some reply)" and p': "peer_replies p' = peer_replies p @ [reply]"
    using assms by (auto simp: peer_send_def split: if_splits result.splits option.splits)
  then have len: "42 \<le> length frame" by (simp add: peer_answer_def split: if_splits)
  from a obtain r where r: "(if is_arp frame then arp_reply frame else echo_reply frame) = Ok r"
    and reply: "reply = put_bytes 6 PEER_MAC (put_bytes 0 (sub_bytes 6 6 frame) r)" and k: "is_arp frame \<or> is_echo frame"
    by (auto simp: peer_answer_def and_then_Ok_iff put_at_def split: if_splits)
  then have "is_arp frame \<and> valid_arp frame reply \<or> is_echo frame \<and> valid_echo frame reply"
    using arp_answer [OF len] echo_answer [OF len assms(2)] by (auto split: if_splits)
  with p' show ?thesis by blast
qed blast

end
