(* ===== verification/DemoErrors.thy ===== *)
theory DemoErrors
  imports Messages
begin

text \<open>
  The errors of the demo program (\<open>src/demo/src/error.rs\<close>), and the JSON values of its control protocol:
  \<open>serde_json::Value\<close> with the variants the program builds or inspects. Objects keep their fields in order.
  A chain of messages is an error's own message and then those of its causes, as for the errors of the VMM.
\<close>

datatype json = JNull | JBool bool | JNumber u64 | JString string | JObject "(string \<times> json) list"

text \<open>\<open>value[key]\<close>: \<open>Null\<close> where there is nothing.\<close>

fun json_index :: "json \<Rightarrow> string \<Rightarrow> json" where
  "json_index (JObject fields) key = (case map_of fields key of Some x \<Rightarrow> x | None \<Rightarrow> JNull)"
| "json_index _ key = JNull"

datatype (plugins only: code) ArgumentError =
    EmptyDiskPath string
  | DuplicateDisk string
  | PeerUsage
  | CpuCount ext_error

datatype (plugins only: code) TerminalError =
    AlreadyBound
  | Io IoError
  | Operation string IoError

datatype (plugins only: code) ProtocolError =
    Timeout
  | Disconnected string
  | TooLong string usize
  | RequestFailed json
  | Io IoError
  | Operation string "string option" IoError
  | Json ext_error
  | Control ControlError

datatype (plugins only: code) DemoError =
    Arguments ArgumentError
  | Terminal TerminalError
  | Protocol ProtocolError
  | Vmm VmmError
  | Storage StorageError
  | Net NetError
  | Memory MemoryError

section \<open>What the errors say\<close>

primrec argument_chain :: "ArgumentError \<Rightarrow> string list" where
  "argument_chain (ArgumentError.EmptyDiskPath name) = [''empty path for disk '' @ name]"
| "argument_chain (ArgumentError.DuplicateDisk name) = [''duplicate disk name: '' @ name]"
| "argument_chain ArgumentError.PeerUsage = [''usage: net-peer run [disk.qcow2 ...]'']"
| "argument_chain (ArgumentError.CpuCount e) = caused ''invalid vCPU count: '' [e]"

primrec terminal_chain :: "causes \<Rightarrow> TerminalError \<Rightarrow> string list" where
  "terminal_chain X TerminalError.AlreadyBound = [''terminal guard is already bound'']"
| "terminal_chain X (TerminalError.Io e) = caused ''terminal I/O: '' (io_chain X e)"
| "terminal_chain X (TerminalError.Operation op e) = caused (op @ '': '') (io_chain X e)"

text \<open>\<open>shown\<close> is the text of a JSON value.\<close>

primrec protocol_chain :: "causes \<Rightarrow> (json \<Rightarrow> string) \<Rightarrow> ProtocolError \<Rightarrow> string list" where
  "protocol_chain X shown ProtocolError.Timeout = [''control request timeout'']"
| "protocol_chain X shown (ProtocolError.Disconnected what) = [''disconnected before '' @ what]"
| "protocol_chain X shown (ProtocolError.TooLong kind limit) = [''control '' @ kind @ '' too long (limit '' @ decimal limit @ '')'']"
| "protocol_chain X shown (ProtocolError.RequestFailed response) = [''control request failed: '' @ shown response]"
| "protocol_chain X shown (ProtocolError.Io e) = caused ''control socket I/O: '' (io_chain X e)"
| "protocol_chain X shown (ProtocolError.Operation op p e) = caused (op @ '' '' @ debug_option p @ '': '') (io_chain X e)"
| "protocol_chain X shown (ProtocolError.Json e) = caused ''control JSON: '' (e # X e)"
| "protocol_chain X shown (ProtocolError.Control e) = control_chain X e"

primrec demo_chain :: "causes \<Rightarrow> (json \<Rightarrow> string) \<Rightarrow> DemoError \<Rightarrow> string list" where
  "demo_chain X shown (DemoError.Arguments e) = argument_chain e"
| "demo_chain X shown (DemoError.Terminal e) = terminal_chain X e"
| "demo_chain X shown (DemoError.Protocol e) = protocol_chain X shown e"
| "demo_chain X shown (DemoError.Vmm e) = vmm_chain X e"
| "demo_chain X shown (DemoError.Storage e) = storage_chain X e"
| "demo_chain X shown (DemoError.Net e) = net_chain X e"
| "demo_chain X shown (DemoError.Memory e) = memory_chain X e"

end
