(* ===== verification/Terminal.thy ===== *)
theory Terminal
  imports Control DemoErrors
begin

text \<open>
  The terminal of the demo program (\<open>src/demo/src/terminal.rs\<close>): raw mode and non-blocking input while a VM runs,
  the escape key, and a guard whose thread turns a signal or the escape key into a stop of the VM.
  The operating system is a parameter over its state \<open>'o\<close>; \<open>'t\<close> is a terminal mode (\<open>libc::termios\<close>).
  The guard's thread, the threads that notify it and the VM are interleaved steps.
  Lemmas: the terminal is put back as it was on every path, the escape key never reaches the guest, a
  notification stops the VM, and dropping the guard after the run does not hang.
\<close>

section \<open>The operating system\<close>

record ('o, 't) tty_ops =
  ty_pair :: "'o \<Rightarrow> (IoError + unit) \<times> 'o"
  ty_set_nonblocking :: "'o \<Rightarrow> (IoError + unit) \<times> 'o"
  ty_clone :: "'o \<Rightarrow> (IoError + unit) \<times> 'o"
  ty_register :: "nat \<Rightarrow> 'o \<Rightarrow> (IoError + nat) \<times> 'o"
  ty_unregister :: "nat \<Rightarrow> 'o \<Rightarrow> 'o"
  ty_shutdown :: "'o \<Rightarrow> 'o"
  ty_getfl :: "'o \<Rightarrow> int"
  ty_isatty :: "'o \<Rightarrow> bool"
  ty_tcgetattr :: "'o \<Rightarrow> IoError + 't"
  ty_makeraw :: "'t \<Rightarrow> 't"
  ty_tcsetattr :: "'t \<Rightarrow> 'o \<Rightarrow> (IoError + unit) \<times> 'o"
  ty_setfl :: "int \<Rightarrow> 'o \<Rightarrow> (IoError + unit) \<times> 'o"
  ty_nonblock :: int
  ty_read :: "usize \<Rightarrow> 'o \<Rightarrow> (IoError + bytes) \<times> 'o"
  ty_notify :: "'o \<Rightarrow> (IoError + unit) \<times> 'o"

text \<open>\<open>SIGINT\<close>, \<open>SIGTERM\<close>, \<open>SIGHUP\<close>.\<close>

definition stop_signals :: "nat list" where
  "stop_signals = [2, 15, 1]"

section \<open>The guard\<close>

record guard =
  g_signals :: "nat list"
  g_bound :: bool

text \<open>The part of the guard's destructor that does not wait: signals first, then the end of the stream.\<close>

definition guard_release :: "('o, 't) tty_ops \<Rightarrow> guard \<Rightarrow> 'o \<Rightarrow> 'o" where
  "guard_release T g s = ty_shutdown T (fold (ty_unregister T) (g_signals g) s)"

fun register_all :: "('o, 't) tty_ops \<Rightarrow> nat list \<Rightarrow> guard \<Rightarrow> 'o \<Rightarrow> (guard, TerminalError) result \<times> 'o" where
  "register_all T [] g s = (Ok g, s)"
| "register_all T (sig # sigs) g s = (case ty_clone T s of
     (Inl e, s) \<Rightarrow> (Err (TerminalError.Io e), guard_release T g s)
   | (Inr _, s) \<Rightarrow> (case ty_register T sig s of
        (Inl e, s) \<Rightarrow> (Err (TerminalError.Io e), guard_release T g s)
      | (Inr i, s) \<Rightarrow> register_all T sigs (g\<lparr>g_signals := g_signals g @ [i]\<rparr>) s))"

definition guard_new :: "('o, 't) tty_ops \<Rightarrow> ('o, guard, TerminalError) prog" where
  "guard_new T =
     bnd (call_ext TerminalError.Io (ty_pair T)) (\<lambda>_.
     bnd (call_ext TerminalError.Io (ty_set_nonblocking T)) (\<lambda>_.
     register_all T stop_signals \<lparr>g_signals = [], g_bound = False\<rparr>))"

text \<open>\<open>bind\<close>: once only; \<open>spawned\<close> is the host's answer to creating the thread.\<close>

definition guard_bind :: "('o, 't) tty_ops \<Rightarrow> IoError + unit \<Rightarrow> (guard \<times> 'o, unit, TerminalError) prog" where
  "guard_bind T spawned = (\<lambda>(g, s).
     if g_bound g then (Err TerminalError.AlreadyBound, g, s)
     else (case ty_clone T s of
        (Inl e, s) \<Rightarrow> (Err (TerminalError.Io e), g, s)
      | (Inr _, s) \<Rightarrow> (case spawned of
           Inl e \<Rightarrow> (Err (TerminalError.Io e), g, s)
         | Inr _ \<Rightarrow> (Ok (), g\<lparr>g_bound := True\<rparr>, s))))"

section \<open>The terminal\<close>

record 't terminal =
  tm_saved :: "'t option"
  tm_flags :: int

definition terminal_drop :: "('o, 't) tty_ops \<Rightarrow> 't terminal \<Rightarrow> 'o \<Rightarrow> 'o" where
  "terminal_drop T t s =
     (let s = (case tm_saved t of None \<Rightarrow> s | Some old \<Rightarrow> snd (ty_tcsetattr T old s))
      in if 0 \<le> tm_flags t then snd (ty_setfl T (tm_flags t) s) else s)"

text \<open>The changes of \<open>new\<close>, with the terminal as far as it was built when they end.\<close>

definition set_raw :: "('o, 't) tty_ops \<Rightarrow> 't terminal \<Rightarrow> 'o \<Rightarrow> (unit, TerminalError) result \<times> 't terminal \<times> 'o" where
  "set_raw T t s =
     (if \<not> ty_isatty T s then (Ok (), t, s)
      else (case ty_tcgetattr T s of
         Inl e \<Rightarrow> (Err (TerminalError.Operation ''get terminal mode'' e), t, s)
       | Inr old \<Rightarrow>
          let t = t\<lparr>tm_saved := Some old\<rparr> in
          (case ty_tcsetattr T (ty_makeraw T old) s of
             (Inl e, s) \<Rightarrow> (Err (TerminalError.Operation ''set terminal raw mode'' e), t, s)
           | (Inr _, s) \<Rightarrow> (Ok (), t, s))))"

definition set_input :: "('o, 't) tty_ops \<Rightarrow> 't terminal \<Rightarrow> 'o \<Rightarrow> (unit, TerminalError) result \<times> 'o" where
  "set_input T t s =
     (if 0 \<le> tm_flags t then (case ty_setfl T (tm_flags t OR ty_nonblock T) s of
        (Inl e, s) \<Rightarrow> (Err (TerminalError.Operation ''set stdin nonblocking'' e), s)
      | (Inr _, s) \<Rightarrow> (Ok (), s))
      else (Ok (), s))"

text \<open>\<open>Terminal::new\<close>: on an error the terminal is dropped, then the guard.\<close>

definition terminal_new :: "('o, 't) tty_ops \<Rightarrow> ('o, 't terminal \<times> guard, TerminalError) prog" where
  "terminal_new T =
     bnd (guard_new T) (\<lambda>g s.
     let flags = ty_getfl T s in
     case ty_clone T s of
       (Inl e, s) \<Rightarrow> (Err (TerminalError.Io e), guard_release T g s)
     | (Inr _, s) \<Rightarrow>
         (case set_raw T \<lparr>tm_saved = None, tm_flags = flags\<rparr> s of
            (Err e, t, s) \<Rightarrow> (Err e, guard_release T g (terminal_drop T t s))
          | (Panic, t, s) \<Rightarrow> (Panic, guard_release T g (terminal_drop T t s))
          | (Ok _, t, s) \<Rightarrow>
              (case set_input T t s of
                 (Err e, s) \<Rightarrow> (Err e, guard_release T g (terminal_drop T t s))
               | (Panic, s) \<Rightarrow> (Panic, guard_release T g (terminal_drop T t s))
               | (Ok _, s) \<Rightarrow> (Ok (t, g), s))))"

text \<open>\<open>SerialIo::recv\<close>: how many bytes the guest gets of the buffer; the escape key notifies the guard.\<close>

definition ESCAPE :: u8 where
  "ESCAPE = 0x1d"

definition terminal_recv :: "('o, 't) tty_ops \<Rightarrow> usize \<Rightarrow> 'o \<Rightarrow> (IoError + usize \<times> bytes) \<times> 'o" where
  "terminal_recv T n s =
     (if n = 0 then (Inr (0, []), s)
      else (case ty_read T n s of
         (Inl e, s) \<Rightarrow> (Inl e, s)
       | (Inr input, s) \<Rightarrow>
          (let p = length (takeWhile (\<lambda>b. b \<noteq> ESCAPE) input) in
           if p < length input then (case ty_notify T s of
               (Inr _, s) \<Rightarrow> (Inr (p, input), s)
             | (Inl e, s) \<Rightarrow> if io_kind e \<in> {WouldBlock, BrokenPipe} then (Inr (p, input), s) else (Inl e, s))
           else (Inr (length input, input), s))))"

section \<open>The guard's thread\<close>

text \<open>Where the thread of a guard is: not created, reading the stream, about to look at \<open>closing\<close>, in \<open>VmControl::stop\<close>, or ended.\<close>

datatype guard_pc = Unspawned | Reading | Awake | InStop | Exited

text \<open>The guard with its stream (bytes written and not yet read, and whether its end was shut down), and the VM.\<close>

record guard_sys =
  gs_notes :: nat
  gs_shut :: bool
  gs_closing :: bool
  gs_pc :: guard_pc
  gs_vm :: vm_control
  gs_owner :: owner_pc

definition guard_init :: "MemoryStatus option \<Rightarrow> guard_sys" where
  "guard_init mem = \<lparr>gs_notes = 0, gs_shut = False, gs_closing = False, gs_pc = Unspawned, gs_vm = control_new mem, gs_owner = NotBegun\<rparr>"

text \<open>The steps of thread \<open>me\<close>, the closure of \<open>bind\<close>. A read gives a byte, the end of the stream once it is empty, or fails.\<close>

inductive thread_step :: "nat \<Rightarrow> guard_sys \<Rightarrow> guard_sys \<Rightarrow> bool" for me where
  reads: "gs_pc g = Reading \<Longrightarrow> gs_notes g = Suc n \<Longrightarrow> thread_step me g (g\<lparr>gs_notes := n, gs_pc := Awake\<rparr>)"
| ends: "gs_pc g = Reading \<Longrightarrow> gs_notes g = 0 \<Longrightarrow> gs_shut g \<Longrightarrow> thread_step me g (g\<lparr>gs_pc := Exited\<rparr>)"
| leaves: "gs_pc g = Awake \<Longrightarrow> gs_closing g \<Longrightarrow> thread_step me g (g\<lparr>gs_pc := Exited\<rparr>)"
| stops: "gs_pc g = Awake \<Longrightarrow> \<not> gs_closing g \<Longrightarrow> stop me (gs_vm g) = (Ok (), vm) \<Longrightarrow>
    thread_step me g (g\<lparr>gs_vm := vm, gs_pc := InStop\<rparr>)"
| refused: "gs_pc g = Awake \<Longrightarrow> \<not> gs_closing g \<Longrightarrow> stop me (gs_vm g) = (Err e, vm) \<Longrightarrow>
    thread_step me g (g\<lparr>gs_vm := vm, gs_pc := Exited\<rparr>)"
| returns: "gs_pc g = InStop \<Longrightarrow> stop_result (gs_vm g) = Some r \<Longrightarrow> thread_step me g (g\<lparr>gs_pc := Exited\<rparr>)"

text \<open>Everything else: \<open>bind\<close>, a signal or the escape key, the destructor (\<open>closing\<close> first, then the end of the
  stream), a failed read, and the steps of the VM and of other threads. The guard's thread never runs a VM.\<close>

inductive guard_step :: "nat \<Rightarrow> guard_sys \<Rightarrow> guard_sys \<Rightarrow> bool" for me where
  thread: "thread_step me g g' \<Longrightarrow> guard_step me g g'"
| binds: "gs_pc g = Unspawned \<Longrightarrow> \<not> gs_closing g \<Longrightarrow> guard_step me g (g\<lparr>gs_pc := Reading\<rparr>)"
| notifies: "\<not> gs_shut g \<Longrightarrow> guard_step me g (g\<lparr>gs_notes := Suc (gs_notes g)\<rparr>)"
| closes: "guard_step me g (g\<lparr>gs_closing := True\<rparr>)"
| shuts: "gs_closing g \<Longrightarrow> guard_step me g (g\<lparr>gs_shut := True\<rparr>)"
| fails: "gs_pc g = Reading \<Longrightarrow> guard_step me g (g\<lparr>gs_pc := Exited\<rparr>)"
| vm: "control_step (gs_vm g, gs_owner g) (c, pc) \<Longrightarrow> owner c \<noteq> Some me \<Longrightarrow>
    guard_step me g (g\<lparr>gs_vm := c, gs_owner := pc\<rparr>)"

inductive guard_reach :: "nat \<Rightarrow> guard_sys \<Rightarrow> bool" for me where
  init: "guard_reach me (guard_init mem)"
| step: "guard_reach me g \<Longrightarrow> guard_step me g g' \<Longrightarrow> guard_reach me g'"

section \<open>The terminal is put back\<close>

text \<open>What the program relies on of the operating system, through three observations: the terminal's mode, the input's
  flags and the registered signal handlers. A failed call changes nothing.\<close>

definition tty_law :: "('o, 't) tty_ops \<Rightarrow> ('o \<Rightarrow> 't) \<Rightarrow> ('o \<Rightarrow> int) \<Rightarrow> ('o \<Rightarrow> nat set) \<Rightarrow> bool" where
  "tty_law T mode fl regs \<longleftrightarrow>
     (\<forall>s x. ty_tcgetattr T s = Inr x \<longrightarrow> x = mode s) \<and> (\<forall>s. 0 \<le> ty_getfl T s \<longrightarrow> ty_getfl T s = fl s) \<and>
     (\<forall>x s r s'. ty_tcsetattr T x s = (r, s') \<longrightarrow> fl s' = fl s \<and> regs s' = regs s \<and> mode s' = (if isl r then mode s else x)) \<and>
     (\<forall>x s r s'. ty_setfl T x s = (r, s') \<longrightarrow> mode s' = mode s \<and> regs s' = regs s \<and> fl s' = (if isl r then fl s else x)) \<and>
     (\<forall>s r s'. ty_pair T s = (r, s') \<or> ty_set_nonblocking T s = (r, s') \<or> ty_clone T s = (r, s') \<longrightarrow>
        mode s' = mode s \<and> fl s' = fl s \<and> regs s' = regs s) \<and>
     (\<forall>s. mode (ty_shutdown T s) = mode s \<and> fl (ty_shutdown T s) = fl s \<and> regs (ty_shutdown T s) = regs s) \<and>
     (\<forall>i s r s'. ty_register T i s = (r, s') \<longrightarrow> mode s' = mode s \<and> fl s' = fl s \<and>
        (case r of Inl _ \<Rightarrow> regs s' = regs s | Inr j \<Rightarrow> j \<notin> regs s \<and> regs s' = insert j (regs s))) \<and>
     (\<forall>i s. mode (ty_unregister T i s) = mode s \<and> fl (ty_unregister T i s) = fl s \<and> regs (ty_unregister T i s) = regs s - {i})"

text \<open>Consequences of the law, by call.\<close>

lemma tty_same:
  assumes "tty_law T mode fl regs" and "ty_pair T s = (r, s') \<or> ty_set_nonblocking T s = (r, s') \<or> ty_clone T s = (r, s')"
  shows "mode s' = mode s \<and> fl s' = fl s \<and> regs s' = regs s"
  using assms unfolding tty_law_def by blast

lemma tty_set:
  assumes "tty_law T mode fl regs"
  shows "ty_tcsetattr T x s = (r, s') \<Longrightarrow> fl s' = fl s \<and> regs s' = regs s \<and> mode s' = (if isl r then mode s else x)"
    and "ty_setfl T y s = (r, s') \<Longrightarrow> mode s' = mode s \<and> regs s' = regs s \<and> fl s' = (if isl r then fl s else y)"
    and "ty_tcgetattr T s = Inr z \<Longrightarrow> z = mode s" and "0 \<le> ty_getfl T s \<Longrightarrow> ty_getfl T s = fl s"
proof -
  note law = assms [unfolded tty_law_def]
  show "ty_tcgetattr T s = Inr z \<Longrightarrow> z = mode s" using law [THEN conjunct1] by simp
  show "0 \<le> ty_getfl T s \<Longrightarrow> ty_getfl T s = fl s" using law [THEN conjunct2, THEN conjunct1] by simp
  show "ty_tcsetattr T x s = (r, s') \<Longrightarrow> fl s' = fl s \<and> regs s' = regs s \<and> mode s' = (if isl r then mode s else x)"
    using law [THEN conjunct2, THEN conjunct2, THEN conjunct1] by simp
  show "ty_setfl T y s = (r, s') \<Longrightarrow> mode s' = mode s \<and> regs s' = regs s \<and> fl s' = (if isl r then fl s else y)"
    using law [THEN conjunct2, THEN conjunct2, THEN conjunct2, THEN conjunct1] by simp
qed

lemma tty_register:
  assumes "tty_law T mode fl regs" and "ty_register T i s = (r, s')"
  shows "mode s' = mode s \<and> fl s' = fl s \<and> (case r of Inl _ \<Rightarrow> regs s' = regs s | Inr j \<Rightarrow> j \<notin> regs s \<and> regs s' = insert j (regs s))"
  using assms unfolding tty_law_def by blast

lemma release_observed:
  assumes "tty_law T mode fl regs"
  shows "mode (guard_release T g s) = mode s \<and> fl (guard_release T g s) = fl s \<and>
    regs (guard_release T g s) = regs s - set (g_signals g)"
proof -
  have u: "mode (ty_unregister T i s) = mode s" "fl (ty_unregister T i s) = fl s" "regs (ty_unregister T i s) = regs s - {i}"
    and d: "mode (ty_shutdown T s) = mode s" "fl (ty_shutdown T s) = fl s" "regs (ty_shutdown T s) = regs s" for i s
    using assms unfolding tty_law_def by blast+
  have "mode (fold (ty_unregister T) is s) = mode s \<and> fl (fold (ty_unregister T) is s) = fl s \<and>
      regs (fold (ty_unregister T) is s) = regs s - set is" for "is"
    by (induction "is" arbitrary: s) (auto simp: u)
  then show ?thesis by (simp add: guard_release_def d)
qed

text \<open>Observations relative to a start: as there, but for the handlers of a guard.\<close>

definition held_by :: "('o \<Rightarrow> 't) \<Rightarrow> ('o \<Rightarrow> int) \<Rightarrow> ('o \<Rightarrow> nat set) \<Rightarrow> 'o \<Rightarrow> guard \<Rightarrow> 'o \<Rightarrow> bool" where
  "held_by mode fl regs s0 g s \<longleftrightarrow> mode s = mode s0 \<and> fl s = fl s0 \<and>
     regs s = regs s0 \<union> set (g_signals g) \<and> regs s0 \<inter> set (g_signals g) = {}"

lemma held_release:
  assumes "tty_law T mode fl regs" and "mode s = mode s0" "fl s = fl s0"
    and "regs s = regs s0 \<union> set (g_signals g)" "regs s0 \<inter> set (g_signals g) = {}"
  shows "mode (guard_release T g s) = mode s0 \<and> fl (guard_release T g s) = fl s0 \<and> regs (guard_release T g s) = regs s0"
  using release_observed [OF assms(1), of g s] assms(2-) by auto

lemma register_all_held:
  assumes "tty_law T mode fl regs" and "held_by mode fl regs s0 g s" and "register_all T sigs g s = (r, s')"
  shows "(case r of Ok g' \<Rightarrow> held_by mode fl regs s0 g' s' | Err e \<Rightarrow> mode s' = mode s0 \<and> fl s' = fl s0 \<and> regs s' = regs s0 | Panic \<Rightarrow> False)"
  using assms(2,3)
proof (induction sigs arbitrary: g s)
  case (Cons sig sigs)
  obtain c s1 where c: "ty_clone T s = (c, s1)" by fastforce
  have s1: "held_by mode fl regs s0 g s1"
    using tty_same [OF assms(1), of s c s1] c Cons.prems(1) by (simp add: held_by_def)
  show ?case
  proof (cases c)
    case (Inl e)
    then show ?thesis using Cons.prems(2) c s1 held_release [OF assms(1), of s1 s0 g] by (auto simp: held_by_def)
  next
    case (Inr u)
    obtain d s2 where d: "ty_register T sig s1 = (d, s2)" by fastforce
    note reg = tty_register [OF assms(1) d]
    show ?thesis
    proof (cases d)
      case dl: (Inl e)
      then show ?thesis using Cons.prems(2) c Inr d reg s1 held_release [OF assms(1), of s2 s0 g] by (auto simp: held_by_def)
    next
      case dr: (Inr i)
      then have "held_by mode fl regs s0 (g\<lparr>g_signals := g_signals g @ [i]\<rparr>) s2"
        using reg s1 by (auto simp: held_by_def)
      from Cons.IH [OF this] show ?thesis using Cons.prems(2) c Inr d dr by simp
    qed
  qed
qed (auto split: result.splits)

lemma guard_new_held:
  assumes "tty_law T mode fl regs" and "guard_new T s0 = (r, s)"
  shows "(case r of Ok g \<Rightarrow> held_by mode fl regs s0 g s | Err e \<Rightarrow> mode s = mode s0 \<and> fl s = fl s0 \<and> regs s = regs s0 | Panic \<Rightarrow> False)"
proof -
  obtain a s1 where a: "ty_pair T s0 = (a, s1)" by fastforce
  obtain b s2 where b: "ty_set_nonblocking T s1 = (b, s2)" by fastforce
  have o1: "mode s1 = mode s0" "fl s1 = fl s0" "regs s1 = regs s0" using tty_same [OF assms(1), of s0 a s1] a by simp_all
  have o2: "mode s2 = mode s1" "fl s2 = fl s1" "regs s2 = regs s1" using tty_same [OF assms(1), of s1 b s2] b by simp_all
  have "held_by mode fl regs s0 \<lparr>g_signals = [], g_bound = False\<rparr> s2" using o1 o2 by (simp add: held_by_def)
  from register_all_held [OF assms(1) this, of stop_signals r s] assms(2) a b o1 o2 show ?thesis
    by (cases a; cases b) (auto simp: guard_new_def bnd_def call_ext_def split: result.splits)
qed

lemma setup_observed:
  assumes "tty_law T mode fl regs" and "set_raw T t s = (r, t', s')" and "tm_saved t = None"
  shows "r \<noteq> Panic \<and> fl s' = fl s \<and> regs s' = regs s \<and> tm_flags t' = tm_flags t \<and>
    (tm_saved t' = None \<and> mode s' = mode s \<or> tm_saved t' = Some (mode s))"
proof (cases "ty_isatty T s")
  case True
  show ?thesis
  proof (cases "ty_tcgetattr T s")
    case (Inr old)
    obtain q s2 where q: "ty_tcsetattr T (ty_makeraw T old) s = (q, s2)" by fastforce
    have "old = mode s" using tty_set(3) [OF assms(1) Inr] .
    with True Inr q assms(2) tty_set(1) [OF assms(1) q] show ?thesis
      by (cases q) (auto simp: set_raw_def Let_def)
  qed (use True assms(2,3) in \<open>auto simp: set_raw_def\<close>)
qed (use assms(2,3) in \<open>auto simp: set_raw_def\<close>)

lemma input_observed:
  assumes "tty_law T mode fl regs" and "set_input T t s = (r, s')"
  shows "r \<noteq> Panic \<and> mode s' = mode s \<and> regs s' = regs s \<and> (tm_flags t < 0 \<longrightarrow> fl s' = fl s)"
  using assms(2) tty_set(2) [OF assms(1)]
  by (auto simp: set_input_def split: if_splits sum.splits prod.splits)

lemma drop_observed:
  assumes "tty_law T mode fl regs" and "\<forall>s. \<not> isl (fst (ty_tcsetattr T m s))" and "\<forall>s. \<not> isl (fst (ty_setfl T f s))"
    and "tm_saved t = None \<and> mode s = m \<or> tm_saved t = Some m" and "tm_flags t < 0 \<and> fl s = f \<or> 0 \<le> tm_flags t \<and> tm_flags t = f"
  shows "mode (terminal_drop T t s) = m \<and> fl (terminal_drop T t s) = f \<and> regs (terminal_drop T t s) = regs s"
proof -
  define s1 where "s1 = (case tm_saved t of None \<Rightarrow> s | Some old \<Rightarrow> snd (ty_tcsetattr T old s))"
  obtain r s2 where r: "ty_tcsetattr T m s = (r, s2)" by fastforce
  have s1: "mode s1 = m" "fl s1 = fl s" "regs s1 = regs s"
    using assms(2,4) tty_set(1) [OF assms(1) r] r by (auto simp: s1_def dest: spec [of _ s])
  obtain q s3 where q: "ty_setfl T f s1 = (q, s3)" by fastforce
  have "mode s3 = mode s1" "fl s3 = f" "regs s3 = regs s1"
    using assms(3) tty_set(2) [OF assms(1) q] q by (auto dest: spec [of _ s1])
  then show ?thesis using s1 assms(5) q by (auto simp: terminal_drop_def Let_def simp flip: s1_def)
qed

text \<open>The terminal is put back as it was: if \<open>Terminal::new\<close> fails half-way, the mode, the input flags and the signal
  handlers are those from before the call; if it succeeds, dropping terminal and guard later restores all three.\<close>

theorem terminal_restored:
  assumes "tty_law T mode fl regs" and "\<forall>s. \<not> isl (fst (ty_tcsetattr T (mode s0) s))"
    and "\<forall>s. \<not> isl (fst (ty_setfl T (fl s0) s))" and "terminal_new T s0 = (r, s1)"
  shows "(case r of
      Ok (t, g) \<Rightarrow> \<forall>s2. mode s2 = mode s1 \<and> fl s2 = fl s1 \<and> regs s2 = regs s1 \<longrightarrow>
        (let s3 = guard_release T g (terminal_drop T t s2) in mode s3 = mode s0 \<and> fl s3 = fl s0 \<and> regs s3 = regs s0)
    | Err e \<Rightarrow> mode s1 = mode s0 \<and> fl s1 = fl s0 \<and> regs s1 = regs s0
    | Panic \<Rightarrow> False)"
proof -
  obtain rg sg where g: "guard_new T s0 = (rg, sg)" by fastforce
  note held = guard_new_held [OF assms(1) g]
  show ?thesis
  proof (cases rg)
    case (Ok g')
    obtain c s2 where c: "ty_clone T sg = (c, s2)" by fastforce
    have s2: "held_by mode fl regs s0 g' s2" using tty_same [OF assms(1), of sg c s2] c held Ok by (simp add: held_by_def)
    obtain a t s3 where a: "set_raw T \<lparr>tm_saved = None, tm_flags = ty_getfl T sg\<rparr> s2 = (a, t, s3)"
      by (cases "set_raw T \<lparr>tm_saved = None, tm_flags = ty_getfl T sg\<rparr> s2") blast
    note o3 = setup_observed [OF assms(1) a]
    obtain b s4 where b: "set_input T t s3 = (b, s4)" by fastforce
    note o4 = input_observed [OF assms(1) b]
    have flags: "tm_flags t < 0 \<or> 0 \<le> tm_flags t \<and> tm_flags t = fl s0"
      using o3 tty_set(4) [OF assms(1), of sg] held Ok by (auto simp: held_by_def)
    have again: "mode s = mode s0 \<and> fl s = fl s0 \<and> regs s = regs s0"
      if "s = guard_release T g' (terminal_drop T t x)" "mode x = mode s3" "tm_flags t < 0 \<longrightarrow> fl x = fl s3" "regs x = regs s3" for s x
    proof -
      have "mode (terminal_drop T t x) = mode s0 \<and> fl (terminal_drop T t x) = fl s0 \<and> regs (terminal_drop T t x) = regs x"
        by (rule drop_observed [OF assms(1-3)]) (use that o3 s2 flags in \<open>auto simp: held_by_def\<close>)
      then show ?thesis using held_release [OF assms(1), of "terminal_drop T t x" s0 g'] that(1,4) o3 s2 by (simp add: held_by_def)
    qed
    show ?thesis
    proof (cases c)
      case (Inl e)
      then show ?thesis using assms(4) g Ok c s2 held_release [OF assms(1), of s2 s0 g']
        by (auto simp: terminal_new_def bnd_def held_by_def)
    next
      case (Inr u)
      then show ?thesis using assms(4) g Ok c a b o3 o4 again [of _ s3] again [of _ s4] again
        by (cases a; cases b) (auto simp: terminal_new_def bnd_def Let_def)
    qed
  qed (use assms(4) g held in \<open>auto simp: terminal_new_def bnd_def\<close>)
qed

section \<open>Escape and stop\<close>

text \<open>The guest gets exactly the bytes before the escape key, and the escape key alone notifies the guard.\<close>

lemma escape_key:
  assumes "terminal_recv T n s = (Inr (k, buffer), s')" and "n \<noteq> 0"
  obtains s1 where "ty_read T n s = (Inr buffer, s1)" and "take k buffer = takeWhile (\<lambda>b. b \<noteq> ESCAPE) buffer"
    and "s' = (if ESCAPE \<in> set buffer then snd (ty_notify T s1) else s1)"
proof -
  obtain input s1 where r: "ty_read T n s = (Inr input, s1)"
    using assms by (auto simp: terminal_recv_def split: prod.splits sum.splits)
  let ?p = "length (takeWhile (\<lambda>b. b \<noteq> ESCAPE) input)"
  have esc: "?p < length input \<longleftrightarrow> ESCAPE \<in> set input"
  proof -
    have "?p < length input \<longleftrightarrow> takeWhile (\<lambda>b. b \<noteq> ESCAPE) input \<noteq> input"
      by (metis length_takeWhile_le less_irrefl nat_less_le take_all takeWhile_eq_take)
    then show ?thesis by (auto simp: takeWhile_eq_all_conv)
  qed
  have "input = buffer" using assms r
    by (auto simp: terminal_recv_def Let_def split: prod.splits sum.splits if_splits)
  moreover have "k = (if ESCAPE \<in> set input then ?p else length input)" "s' = (if ESCAPE \<in> set input then snd (ty_notify T s1) else s1)"
    using assms r unfolding esc [symmetric]
    by (auto simp: terminal_recv_def Let_def split: prod.splits sum.splits if_splits)
  moreover have "take ?p input = takeWhile (\<lambda>b. b \<noteq> ESCAPE) input" by (metis takeWhile_eq_take)
  moreover have "takeWhile (\<lambda>b. b \<noteq> ESCAPE) input = input" if "ESCAPE \<notin> set input"
    unfolding takeWhile_eq_all_conv using that by metis
  ultimately show thesis using r by (intro that [of s1]) (simp_all split: if_splits, rule sym, simp)
qed

definition guard_inv :: "nat \<Rightarrow> guard_sys \<Rightarrow> bool" where
  "guard_inv me g \<longleftrightarrow> control_reach (gs_vm g, gs_owner g) \<and> owner (gs_vm g) \<noteq> Some me \<and> (gs_shut g \<longrightarrow> gs_closing g) \<and>
     (gs_pc g = InStop \<longrightarrow> vm_lifecycle (gs_vm g) \<in> {VmStopping, VmStopped})"

inductive_cases thread_stepE: "thread_step me g g'"
inductive_cases guard_stepE: "guard_step me g g'"

lemma stop_lifecycle: "stop me c = (Ok (), c') \<Longrightarrow> vm_lifecycle c' \<in> {VmStopping, VmStopped} \<and> owner c' = owner c"
  by (auto simp: stop_def stop_memory_def cancel_def split: if_splits)

lemma guard_reach_inv: "guard_reach me g \<Longrightarrow> guard_inv me g"
proof (induction rule: guard_reach.induct)
  case (init mem)
  show ?case by (auto simp: guard_inv_def guard_init_def control_new_def intro: control_reach.init [unfolded control_new_def])
next
  case (step g g')
  from step(2) show ?case
  proof (cases rule: guard_step.cases)
    case thread
    from this show ?thesis
    proof (cases rule: thread_step.cases)
      case (stops vm)
      then have "control_reach (vm, gs_owner g)"
        using step.IH control_step.stops [OF stops(4)] by (auto simp: guard_inv_def intro: control_reach.step)
      with stops stop_lifecycle [OF stops(4)] step.IH show ?thesis by (auto simp: guard_inv_def)
    next
      case (refused e vm)
      with step.IH show ?thesis by (auto simp: stop_def guard_inv_def split: if_splits)
    qed (use step.IH in \<open>auto simp: guard_inv_def\<close>)
  next
    case (vm c pc)
    then have r: "control_reach (gs_vm g, gs_owner g)" using step.IH by (simp add: guard_inv_def)
    from lifecycle_forward [OF control_reach_inv [OF r] vm(2)] vm step.IH show ?thesis
      by (auto simp: guard_inv_def intro: control_reach.step)
  qed (use step.IH in \<open>auto simp: guard_inv_def\<close>)
qed

text \<open>How many steps the guard's thread is from its end.\<close>

fun guard_rank :: "guard_pc \<Rightarrow> nat" where
  "guard_rank Reading = 3"
| "guard_rank Awake = 2"
| "guard_rank InStop = 1"
| "guard_rank _ = 0"

lemma thread_rank: "thread_step me g g' \<Longrightarrow> guard_rank (gs_pc g') < guard_rank (gs_pc g)"
  by (auto elim!: thread_stepE)

text \<open>The thread only waits for a notification or for the VM.\<close>

lemma thread_waits:
  assumes "guard_inv me g" and "\<nexists>g'. thread_step me g g'"
  shows "gs_pc g \<in> {Unspawned, Exited} \<or> gs_pc g = Reading \<and> gs_notes g = 0 \<and> \<not> gs_shut g \<or>
    gs_pc g = InStop \<and> vm_lifecycle (gs_vm g) = VmStopping"
proof (cases "gs_pc g")
  case Awake
  have "stop me (gs_vm g) = (Ok (), snd (stop me (gs_vm g)))" using assms(1) by (auto simp: guard_inv_def stop_def)
  with Awake assms(2) show ?thesis by (metis thread_step.leaves thread_step.stops)
next
  case Reading
  with assms(2) show ?thesis by (metis nat.exhaust thread_step.ends thread_step.reads)
next
  case InStop
  with assms(1) have "vm_lifecycle (gs_vm g) \<in> {VmStopping, VmStopped}" by (simp add: guard_inv_def)
  moreover have "stop_result (gs_vm g) = None" using InStop assms(2) by (metis option.exhaust thread_step.returns)
  ultimately show ?thesis using InStop by (auto simp: stop_result_def)
qed auto


text \<open>C35. Dropping the guard after the run does not hang: once the stream is shut down and the VM has stopped, which nothing undoes,
  the guard's thread can always go on until it has ended, at most three steps later; no other step delays it.\<close>

theorem guard_drop_returns:
  assumes "guard_reach me g" and "gs_shut g" and "vm_lifecycle (gs_vm g) = VmStopped"
  shows "(gs_pc g \<in> {Unspawned, Exited} \<or> (\<exists>g'. thread_step me g g')) \<and>
    (\<forall>g'. thread_step me g g' \<longrightarrow> guard_rank (gs_pc g') < guard_rank (gs_pc g)) \<and>
    (\<forall>g'. guard_step me g g' \<longrightarrow>
       guard_rank (gs_pc g') \<le> guard_rank (gs_pc g) \<and> gs_shut g' \<and> vm_lifecycle (gs_vm g') = VmStopped)"
proof (intro conjI allI impI)
  note inv = guard_reach_inv [OF assms(1)]
  then have closing: "gs_closing g" and reach: "control_inv (gs_vm g, gs_owner g)"
    using assms(2) control_reach_inv by (auto simp: guard_inv_def)
  show "gs_pc g \<in> {Unspawned, Exited} \<or> (\<exists>g'. thread_step me g g')"
    using thread_waits [OF inv] assms(2,3) by auto
  show "guard_rank (gs_pc g') < guard_rank (gs_pc g)" if "thread_step me g g'" for g' using thread_rank [OF that] .
  fix g' assume step: "guard_step me g g'"
  from step show "guard_rank (gs_pc g') \<le> guard_rank (gs_pc g)" using closing thread_rank
    by (auto elim!: guard_stepE intro: less_imp_le)
  from step show "gs_shut g'" using assms(2) by (auto elim!: guard_stepE thread_stepE)
  from step show "vm_lifecycle (gs_vm g') = VmStopped"
    using assms(3) lifecycle_forward(1) [OF reach]
    by (auto elim!: guard_stepE thread_stepE simp: stop_def stop_memory_def split: if_splits)
qed

end
