(* ===== verification/Server.thy ===== *)
theory Server
  imports Control DemoErrors Text
begin

text \<open>
  The local control protocol of the demo program (\<open>src/demo/src/control.rs\<close>): one JSON request per line and
  connection, a server with a bounded number of connection threads on a Unix socket, and the client.
  Streams, the clock, the file system and the JSON text format (serde) are parameters. A call that blocks until the VM
  has answered takes what the other threads do meanwhile as a parameter; no result means that it never returns.
  Lemmas: a line is read exactly, within its limits and its deadline; every connection is answered with a well-formed
  object; an unreadable request does not touch the VM; the number of threads is bounded; the server removes no
  file but its own socket.
\<close>

section \<open>Requests\<close>

definition LIMIT :: usize where
  "LIMIT = 4096"

text \<open>500 milliseconds, in nanoseconds.\<close>

definition TIMEOUT :: nat where
  "TIMEOUT = 500000000"

datatype Request = Pause | Resume | Stop | Status | MemoryStatus | MemorySet u64

text \<open>The text format: requests as lines of bytes, and responses.\<close>

record json_api =
  js_from_slice :: "bytes \<Rightarrow> ext_error + Request"
  js_to_string :: "Request \<Rightarrow> ext_error + bytes"
  js_display :: "json \<Rightarrow> bytes"
  js_value :: "bytes \<Rightarrow> ext_error + json"

fun memory_lifecycle_name :: "MemoryLifecycle \<Rightarrow> string" where
  "memory_lifecycle_name Created = ''Created''"
| "memory_lifecycle_name Running = ''Running''"
| "memory_lifecycle_name Stopped = ''Stopped''"

fun lifecycle_name :: "VmLifecycle \<Rightarrow> string" where
  "lifecycle_name VmCreated = ''Created''"
| "lifecycle_name VmStarting = ''Starting''"
| "lifecycle_name VmRunning = ''Running''"
| "lifecycle_name VmPaused = ''Paused''"
| "lifecycle_name VmStopping = ''Stopping''"
| "lifecycle_name VmStopped = ''Stopped''"

definition status :: "vm_control \<Rightarrow> (json, ProtocolError) result" where
  "status c = and_then (map_err ProtocolError.Control (memory_status c)) (\<lambda>s. Ok (JObject
     [(''region_size_mib'', JNumber (region_size_mib s)), (''block_size_mib'', JNumber (block_size_mib s)),
      (''requested_size_mib'', JNumber (requested_size_mib s)), (''plugged_size_mib'', JNumber (plugged_size_mib s)),
      (''driver_ready'', JBool (driver_ready s)), (''lifecycle'', JString (memory_lifecycle_name (lifecycle s)))]))"

section \<open>Reading a line\<close>

text \<open>A connected stream with state \<open>'c\<close> and the clock it is read under, in nanoseconds.\<close>

record 'c stream_ops =
  st_now :: "'c \<Rightarrow> nat \<times> 'c"
  st_poll :: "nat \<Rightarrow> 'c \<Rightarrow> (IoError + nat) \<times> 'c"
  st_read :: "'c \<Rightarrow> (IoError + u8 option) \<times> 'c"
  st_set_write_timeout :: "'c \<Rightarrow> (IoError + unit) \<times> 'c"
  st_write :: "bytes \<Rightarrow> 'c \<Rightarrow> (IoError + unit) \<times> 'c"

text \<open>The loop of \<open>line\<close>. A poll answers how many descriptors are ready, or an error.\<close>

partial_function (option) line_loop ::
  "'c stream_ops \<Rightarrow> nat \<Rightarrow> bytes \<Rightarrow> 'c \<Rightarrow> ((bytes, ProtocolError) result \<times> 'c) option" where
  "line_loop S deadline d c = (case st_now S c of (now, c) \<Rightarrow>
     let remaining = deadline - now in
     if remaining = 0 then Some (Err ProtocolError.Timeout, c)
     else (case st_poll S (max (remaining div 1000000) 1) c of
        (Inl e, c) \<Rightarrow> if io_kind e = Interrupted then line_loop S deadline d c else Some (Err (ProtocolError.Io e), c)
      | (Inr ready, c) \<Rightarrow>
          if ready = 0 then Some (Err ProtocolError.Timeout, c)
          else (case st_read S c of
             (Inl e, c) \<Rightarrow> Some (Err (ProtocolError.Io e), c)
           | (Inr None, c) \<Rightarrow> Some (Err (ProtocolError.Disconnected ''newline''), c)
           | (Inr (Some b), c) \<Rightarrow>
               if b = 10 then Some (Ok d, c)
               else if LIMIT \<le> length d then Some (Err (ProtocolError.TooLong ''message'' LIMIT), c)
               else line_loop S deadline (d @ [b]) c)))"

definition line :: "'c stream_ops \<Rightarrow> 'c \<Rightarrow> ((bytes, ProtocolError) result \<times> 'c) option" where
  "line S c = (case st_now S c of (now, c) \<Rightarrow> line_loop S (now + TIMEOUT) [] c)"

section \<open>Serving a connection\<close>

text \<open>What happens until a condition on the shared state holds; nothing if it never does.\<close>

type_synonym waiting = "(vm_control \<Rightarrow> bool) \<Rightarrow> vm_control \<Rightarrow> vm_control option"

text \<open>\<open>VmControl::pause\<close> and \<open>resume\<close>: submit, then wait for the reply.\<close>

definition submit_wait :: "waiting \<Rightarrow> nat \<Rightarrow> Operation \<Rightarrow> vm_control \<Rightarrow> ((unit, ControlError) result \<times> vm_control) option" where
  "submit_wait W thread op c = (case submit thread op c of
     (Ok ticket, c) \<Rightarrow> map_option (\<lambda>c. (case map_of (replies c) ticket of Some r \<Rightarrow> submit_result r | None \<Rightarrow> Panic, c))
         (W (\<lambda>c. map_of (replies c) ticket \<noteq> None) c)
   | (Err e, c) \<Rightarrow> Some (Err e, c)
   | (Panic, c) \<Rightarrow> Some (Panic, c))"

text \<open>\<open>VmControl::stop\<close>: mark the lifecycle, then wait until it is stopped.\<close>

definition stop_wait :: "waiting \<Rightarrow> nat \<Rightarrow> vm_control \<Rightarrow> ((unit, ControlError) result \<times> vm_control) option" where
  "stop_wait W thread c = (case stop thread c of
     (Ok _, c) \<Rightarrow> map_option (\<lambda>c. (case stop_result c of Some r \<Rightarrow> r | None \<Rightarrow> Panic, c)) (W (\<lambda>c. stop_result c \<noteq> None) c)
   | (Err e, c) \<Rightarrow> Some (Err e, c)
   | (Panic, c) \<Rightarrow> Some (Panic, c))"

definition vm_status :: "vm_control \<Rightarrow> json" where
  "vm_status c = JObject [(''lifecycle'', JString (lifecycle_name (vm_lifecycle c))),
     (''final_error'', case final_error c of None \<Rightarrow> JNull | Some m \<Rightarrow> JString m)]"

definition success :: "json \<Rightarrow> json" where
  "success st = JObject [(''ok'', JBool True), (''status'', st)]"

definition failure :: "string \<Rightarrow> json" where
  "failure message = JObject [(''ok'', JBool False), (''error'', JString message)]"

text \<open>The lifecycle part of a request.\<close>

definition perform :: "waiting \<Rightarrow> nat \<Rightarrow> Request \<Rightarrow> vm_control \<Rightarrow> ((unit, ControlError) result \<times> vm_control) option" where
  "perform W thread request c = (case request of
     Pause \<Rightarrow> submit_wait W thread OpPause c
   | Resume \<Rightarrow> submit_wait W thread OpResume c
   | Stop \<Rightarrow> stop_wait W thread c
   | Status \<Rightarrow> Some (Ok (), c)
   | _ \<Rightarrow> Some (Panic, c))"

definition handle :: "waiting \<Rightarrow> nat \<Rightarrow> Request \<Rightarrow> vm_control \<Rightarrow> ((json, ProtocolError) result \<times> vm_control) option" where
  "handle W thread request c = (case request of
     MemoryStatus \<Rightarrow> Some (and_then (status c) (\<lambda>s. Ok (success s)), c)
   | MemorySet target \<Rightarrow> (case control_set_requested target c of
        (Ok _, c) \<Rightarrow> Some (and_then (status c) (\<lambda>s. Ok (success s)), c)
      | (Err e, c) \<Rightarrow> Some (Err (ProtocolError.Control e), c)
      | (Panic, c) \<Rightarrow> Some (Panic, c))
   | _ \<Rightarrow> map_option (\<lambda>(r, c). (and_then (map_err ProtocolError.Control r) (\<lambda>_. Ok (success (vm_status c))), c))
       (perform W thread request c))"

text \<open>The closure of \<open>serve\<close>: read a line, decode it, handle it.\<close>

definition answer ::
  "json_api \<Rightarrow> 'c stream_ops \<Rightarrow> waiting \<Rightarrow> nat \<Rightarrow> 'c \<times> vm_control \<Rightarrow> ((json, ProtocolError) result \<times> 'c \<times> vm_control) option" where
  "answer J S W thread = (\<lambda>(c, vm). case line S c of
     None \<Rightarrow> None
   | Some (Err e, c) \<Rightarrow> Some (Err e, c, vm)
   | Some (Panic, c) \<Rightarrow> Some (Panic, c, vm)
   | Some (Ok text, c) \<Rightarrow> (case js_from_slice J text of
        Inl e \<Rightarrow> Some (Err (ProtocolError.Json e), c, vm)
      | Inr request \<Rightarrow> map_option (\<lambda>(r, vm). (r, c, vm)) (handle W thread request vm)))"

text \<open>\<open>serve\<close>; an error is answered with its diagnostic.\<close>

definition json_text :: "json_api \<Rightarrow> json \<Rightarrow> string" where
  "json_text J v = map (\<lambda>b. char_of (unat b)) (js_display J v)"

definition response_of :: "json_api \<Rightarrow> causes \<Rightarrow> (json, ProtocolError) result \<Rightarrow> json" where
  "response_of J X r =
     (case r of Ok v \<Rightarrow> v | Err e \<Rightarrow> failure (diagnostic (protocol_chain X (json_text J) e)) | Panic \<Rightarrow> JNull)"

definition serve_connection ::
  "json_api \<Rightarrow> causes \<Rightarrow> 'c stream_ops \<Rightarrow> waiting \<Rightarrow> nat \<Rightarrow> 'c \<times> vm_control \<Rightarrow>
    ((unit, ProtocolError) result \<times> 'c \<times> vm_control) option" where
  "serve_connection J X S W thread = (\<lambda>(c, vm). case st_set_write_timeout S c of
     (Inl e, c) \<Rightarrow> Some (Err (ProtocolError.Operation ''set write timeout'' None e), c, vm)
   | (Inr _, c) \<Rightarrow> (case answer J S W thread (c, vm) of
        None \<Rightarrow> None
      | Some (Panic, c, vm) \<Rightarrow> Some (Panic, c, vm)
      | Some (r, c, vm) \<Rightarrow> (case st_write S (js_display J (response_of J X r) @ [10]) c of
           (Inl e, c) \<Rightarrow> Some (Err (ProtocolError.Io e), c, vm)
         | (Inr _, c) \<Rightarrow> Some (Ok (), c, vm))))"

section \<open>The client\<close>

partial_function (option) response_loop ::
  "'c stream_ops \<Rightarrow> bytes \<Rightarrow> 'c \<Rightarrow> ((bytes, ProtocolError) result \<times> 'c) option" where
  "response_loop S d c = (case st_read S c of
     (Inl e, c) \<Rightarrow> Some (Err (ProtocolError.Io e), c)
   | (Inr None, c) \<Rightarrow> Some (Err (ProtocolError.Disconnected ''response''), c)
   | (Inr (Some b), c) \<Rightarrow>
       if b = 10 then Some (Ok d, c)
       else if LIMIT \<le> length d then Some (Err (ProtocolError.TooLong ''response'' LIMIT), c)
       else response_loop S (d @ [b]) c)"

text \<open>The function \<open>request\<close>; \<open>connected\<close> is the host's answer to the connection.\<close>

definition client_request ::
  "json_api \<Rightarrow> 'c stream_ops \<Rightarrow> string \<Rightarrow> IoError + 'c \<Rightarrow> Request \<Rightarrow> (json, ProtocolError) result option" where
  "client_request J S path connected req = (case connected of
     Inl e \<Rightarrow> Some (Err (ProtocolError.Operation ''connect control socket'' (Some path) e))
   | Inr c \<Rightarrow> (case st_set_write_timeout S c of
        (Inl e, c) \<Rightarrow> Some (Err (ProtocolError.Operation ''set write timeout'' None e))
      | (Inr _, c) \<Rightarrow> (case js_to_string J req of
           Inl e \<Rightarrow> Some (Err (ProtocolError.Json e))
         | Inr text \<Rightarrow> (case st_write S (text @ [10]) c of
              (Inl e, c) \<Rightarrow> Some (Err (ProtocolError.Io e))
            | (Inr _, c) \<Rightarrow> map_option (\<lambda>(r, c). and_then r (\<lambda>d. of_sum ProtocolError.Json (js_value J d))) (response_loop S [] c)))))"

section \<open>The server\<close>

text \<open>\<open>Vec::swap_remove\<close>.\<close>

definition swap_remove :: "nat \<Rightarrow> 'a list \<Rightarrow> 'a list" where
  "swap_remove i xs = butlast (xs[i := last xs])"

text \<open>Join the connection threads that have finished.\<close>

function reap :: "('h \<Rightarrow> bool) \<Rightarrow> nat \<Rightarrow> 'h list \<Rightarrow> 'h list" where
  "reap finished i cs =
     (if i < length cs then
        (if finished (cs ! i) then reap finished i (swap_remove i cs) else reap finished (i + 1) cs)
      else cs)"
  by auto

termination reap
  by (relation "measure (\<lambda>(finished, i, cs). length cs - i)") (auto simp: swap_remove_def)

declare reap.simps [simp del]

datatype 'h accepted = Connection 'h | NoThread | NothingYet | AcceptFailed

text \<open>One pass of the accept loop; \<open>False\<close> ends it.\<close>

definition accept_pass :: "('h \<Rightarrow> bool) \<Rightarrow> 'h accepted \<Rightarrow> 'h list \<Rightarrow> 'h list \<times> bool" where
  "accept_pass finished ev cs =
     (let cs = reap finished 0 cs in
      if length cs = 16 then (cs, True)
      else (case ev of
        Connection h \<Rightarrow> (cs @ [h], True)
      | NothingYet \<Rightarrow> (cs, True)
      | NoThread \<Rightarrow> (cs, False)
      | AcceptFailed \<Rightarrow> (cs, False)))"

text \<open>The accept loop, pass by pass, until the server is told to stop or the loop breaks; the threads it is left with are joined.
  A pass sees which threads have finished and what \<open>accept\<close> gives.\<close>

fun accept_loop :: "(('h \<Rightarrow> bool) \<times> 'h accepted) list \<Rightarrow> 'h list \<Rightarrow> 'h list" where
  "accept_loop [] cs = cs"
| "accept_loop ((finished, ev) # evs) cs =
     (case accept_pass finished ev cs of (cs, goes_on) \<Rightarrow> if goes_on then accept_loop evs cs else cs)"

text \<open>The socket's file: its device and inode number are its identity.\<close>

record 'f fs_ops =
  fs_bind :: "string \<Rightarrow> 'f \<Rightarrow> (IoError + unit) \<times> 'f"
  fs_identity :: "string \<Rightarrow> 'f \<Rightarrow> IoError + nat \<times> nat"
  fs_set_permissions :: "string \<Rightarrow> nat \<Rightarrow> 'f \<Rightarrow> (IoError + unit) \<times> 'f"
  fs_set_nonblocking :: "'f \<Rightarrow> (IoError + unit) \<times> 'f"
  fs_spawn :: "'f \<Rightarrow> (IoError + unit) \<times> 'f"
  fs_remove :: "string \<Rightarrow> 'f \<Rightarrow> (IoError + unit) \<times> 'f"

record server =
  sv_path :: string
  sv_identity :: "nat \<times> nat"

text \<open>\<open>Drop\<close>, after the threads were joined.\<close>

definition server_drop :: "'f fs_ops \<Rightarrow> server \<Rightarrow> 'f \<Rightarrow> 'f" where
  "server_drop F sv f =
     (if fs_identity F (sv_path sv) f = Inr (sv_identity sv) then snd (fs_remove F (sv_path sv) f) else f)"

definition server_bind :: "'f fs_ops \<Rightarrow> string \<Rightarrow> ('f, server, ProtocolError) prog" where
  "server_bind F path f = (case fs_bind F path f of
     (Inl e, f) \<Rightarrow> (Err (ProtocolError.Io e), f)
   | (Inr _, f) \<Rightarrow> (case fs_identity F path f of
        Inl e \<Rightarrow> (Err (ProtocolError.Io e), f)
      | Inr ident \<Rightarrow>
          let sv = \<lparr>sv_path = path, sv_identity = ident\<rparr> in
          (case bnd (call_ext ProtocolError.Io (fs_set_permissions F path 384)) (\<lambda>_.
                bnd (call_ext ProtocolError.Io (fs_set_nonblocking F)) (\<lambda>_. call_ext ProtocolError.Io (fs_spawn F))) f of
             (Ok _, f) \<Rightarrow> (Ok sv, f)
           | (Err e, f) \<Rightarrow> (Err e, server_drop F sv f)
           | (Panic, f) \<Rightarrow> (Panic, server_drop F sv f))))"

section \<open>Lines\<close>

text \<open>The clock never goes back, and a poll that a signal interrupts took some time. What is still to be read is \<open>inp\<close>.\<close>

definition clock_law :: "'c stream_ops \<Rightarrow> bool" where
  "clock_law S \<longleftrightarrow>
     (\<forall>c now c1 k r c2. st_now S c = (now, c1) \<longrightarrow> st_poll S k c1 = (r, c2) \<longrightarrow>
        now \<le> fst (st_now S c2) \<and> (\<forall>e. r = Inl e \<and> io_kind e = Interrupted \<longrightarrow> now < fst (st_now S c2))) \<and>
     (\<forall>c r c1. st_read S c = (r, c1) \<longrightarrow> fst (st_now S c) \<le> fst (st_now S c1))"

definition input_law :: "'c stream_ops \<Rightarrow> ('c \<Rightarrow> bytes) \<Rightarrow> bool" where
  "input_law S inp \<longleftrightarrow> (\<forall>c. inp (snd (st_now S c)) = inp c) \<and> (\<forall>k c. inp (snd (st_poll S k c)) = inp c) \<and>
     (\<forall>c. inp (snd (st_set_write_timeout S c)) = inp c) \<and>
     (\<forall>c r c1. st_read S c = (r, c1) \<longrightarrow> inp c = (case r of Inr (Some b) \<Rightarrow> b # inp c1 | _ \<Rightarrow> inp c1))"

text \<open>One pass of the loop: an outcome, or the data and stream of the next pass.\<close>

definition line_pass :: "'c stream_ops \<Rightarrow> nat \<Rightarrow> bytes \<Rightarrow> 'c \<Rightarrow> ((bytes, ProtocolError) result + bytes) \<times> 'c" where
  "line_pass S deadline d c = (case st_now S c of (now, c) \<Rightarrow>
     let remaining = deadline - now in
     if remaining = 0 then (Inl (Err ProtocolError.Timeout), c)
     else (case st_poll S (max (remaining div 1000000) 1) c of
        (Inl e, c) \<Rightarrow> if io_kind e = Interrupted then (Inr d, c) else (Inl (Err (ProtocolError.Io e)), c)
      | (Inr ready, c) \<Rightarrow>
          if ready = 0 then (Inl (Err ProtocolError.Timeout), c)
          else (case st_read S c of
             (Inl e, c) \<Rightarrow> (Inl (Err (ProtocolError.Io e)), c)
           | (Inr None, c) \<Rightarrow> (Inl (Err (ProtocolError.Disconnected ''newline'')), c)
           | (Inr (Some b), c) \<Rightarrow>
               if b = 10 then (Inl (Ok d), c)
               else if LIMIT \<le> length d then (Inl (Err (ProtocolError.TooLong ''message'' LIMIT)), c)
               else (Inr (d @ [b]), c))))"

lemma line_loop_pass:
  "line_loop S deadline d c = (case line_pass S deadline d c of (Inl r, c') \<Rightarrow> Some (r, c') | (Inr d', c') \<Rightarrow> line_loop S deadline d' c')"
  by (subst line_loop.simps)
    (auto simp: line_pass_def Let_def split: prod.splits sum.splits option.splits if_splits)

lemma line_pass_clock:
  assumes "clock_law S" and "line_pass S deadline d c = (Inr d', c')" and "length d \<le> LIMIT"
  shows "(deadline - fst (st_now S c')) + (LIMIT - length d') < (deadline - fst (st_now S c)) + (LIMIT - length d)"
proof -
  obtain now c1 where n: "st_now S c = (now, c1)" by fastforce
  obtain r c2 where p: "st_poll S (max ((deadline - now) div 1000000) 1) c1 = (r, c2)" by fastforce
  obtain q c3 where q: "st_read S c2 = (q, c3)" by fastforce
  have t: "now \<le> fst (st_now S c2)" "\<And>e. r = Inl e \<Longrightarrow> io_kind e = Interrupted \<Longrightarrow> now < fst (st_now S c2)"
    using assms(1) n p unfolding clock_law_def by blast+
  moreover have "fst (st_now S c2) \<le> fst (st_now S c3)" using assms(1) q unfolding clock_law_def by blast
  ultimately show ?thesis using assms(2,3) n p q
    by (cases r) (fastforce simp: line_pass_def Let_def split: sum.splits option.splits if_splits)+
qed

lemma line_pass_input:
  assumes "input_law S inp" and "line_pass S deadline d c = (x, c')" and "length d \<le> LIMIT" and "10 \<notin> set d"
  shows "case x of
      Inl (Ok d') \<Rightarrow> d' = d \<and> inp c = 10 # inp c'
    | Inl (Err e) \<Rightarrow> True
    | Inl Panic \<Rightarrow> False
    | Inr d' \<Rightarrow> d @ inp c = d' @ inp c' \<and> length d' \<le> LIMIT \<and> 10 \<notin> set d'"
proof -
  obtain now c1 where n: "st_now S c = (now, c1)" by fastforce
  obtain r c2 where p: "st_poll S (max ((deadline - now) div 1000000) 1) c1 = (r, c2)" by fastforce
  obtain q c3 where q: "st_read S c2 = (q, c3)" by fastforce
  have "inp c1 = inp c" "inp c2 = inp c1" "inp c2 = (case q of Inr (Some b) \<Rightarrow> b # inp c3 | _ \<Rightarrow> inp c3)"
    using assms(1) n p q unfolding input_law_def by (metis snd_conv)+
  then show ?thesis using assms(2-4) n p q
    by (auto simp: line_pass_def Let_def split: sum.splits option.splits if_splits)
qed

lemma line_loop_exact:
  assumes "clock_law S" and "input_law S inp" and "length d \<le> LIMIT" and "10 \<notin> set d"
  shows "\<exists>r c'. line_loop S deadline d c = Some (r, c') \<and> r \<noteq> Panic \<and>
    (\<forall>d'. r = Ok d' \<longrightarrow> d @ inp c = d' @ 10 # inp c' \<and> length d' \<le> LIMIT \<and> 10 \<notin> set d')"
  using assms(3,4)
proof (induction "(deadline - fst (st_now S c)) + (LIMIT - length d)" arbitrary: d c rule: less_induct)
  case less
  obtain x c1 where p: "line_pass S deadline d c = (x, c1)" by fastforce
  note inp = line_pass_input [OF assms(2) p less.prems]
  show ?case
  proof (cases x)
    case (Inl r)
    with p inp less.prems show ?thesis by (subst line_loop_pass) (auto split: result.splits)
  next
    case (Inr d1)
    then have next1: "d @ inp c = d1 @ inp c1" "length d1 \<le> LIMIT" "10 \<notin> set d1" using inp by simp_all
    from less.hyps [OF line_pass_clock [OF assms(1) p [unfolded Inr] less.prems(1)] next1(2,3)] show ?thesis
      using p Inr next1(1) by (subst line_loop_pass) auto
  qed
qed

text \<open>Reading a request line always ends, also for a client that sends nothing or drips bytes, and a line that is accepted is
  exactly the client's bytes up to the first newline, at most 4096 of them.\<close>

lemma line_input:
  assumes "clock_law S" and "input_law S inp"
  obtains r c' where "line S c = Some (r, c')" and "r \<noteq> Panic"
    and "\<And>text. r = Ok text \<Longrightarrow> inp c = text @ 10 # inp c' \<and> length text \<le> 4096 \<and> 10 \<notin> set text"
proof -
  obtain now c1 where n: "st_now S c = (now, c1)" by fastforce
  then have "inp c1 = inp c" using assms(2) unfolding input_law_def by (metis snd_conv)
  with line_loop_exact [OF assms, of "[]" "now + TIMEOUT" c1] n that show thesis
    by (auto simp: line_def LIMIT_def)
qed

section \<open>Responses\<close>

text \<open>A well-formed response: an object with a boolean \<open>ok\<close>, and a status object or an error text.\<close>

definition well_formed :: "json \<Rightarrow> bool" where
  "well_formed v \<longleftrightarrow> (\<exists>st. v = JObject [(''ok'', JBool True), (''status'', st)] \<and> (\<exists>l. json_index st ''lifecycle'' = JString l)) \<or>
     (\<exists>m. v = JObject [(''ok'', JBool False), (''error'', JString m)])"

text \<open>A wait ends only when its condition holds.\<close>

definition waits :: "waiting \<Rightarrow> bool" where
  "waits W \<longleftrightarrow> (\<forall>P c c'. W P c = Some c' \<longrightarrow> P c')"

lemma status_ok: "status c = Ok st \<Longrightarrow> \<exists>l. json_index st ''lifecycle'' = JString l"
  by (auto simp: status_def and_then_Ok_iff)

lemma submit_wait_returns:
  assumes "waits W" and "submit_wait W thread op c = Some (r, c')"
  shows "r \<noteq> Panic"
proof (cases "fst (submit thread op c)")
  case (Ok ticket)
  with assms(2) obtain c1 where w: "W (\<lambda>c. map_of (replies c) ticket \<noteq> None) c1 = Some c'"
    and r: "r = (case map_of (replies c') ticket of Some q \<Rightarrow> submit_result q | None \<Rightarrow> Panic)"
    by (cases "submit thread op c") (auto simp: submit_wait_def)
  from w assms(1) have "map_of (replies c') ticket \<noteq> None" unfolding waits_def by blast
  with r show ?thesis by (auto simp: submit_result_def split: reply_result.splits option.splits)
qed (use assms in \<open>auto simp: submit_wait_def submit_def split: if_splits\<close>)

lemma stop_wait_returns:
  assumes "waits W" and "stop_wait W thread c = Some (r, c')"
  shows "r \<noteq> Panic \<and> (r = Ok () \<longrightarrow> vm_lifecycle c' = VmStopped \<and> cleanup_error c' = None)"
proof (cases "owner c = Some thread")
  case False
  with assms obtain c1 where w: "W (\<lambda>c. stop_result c \<noteq> None) c1 = Some c'"
    and r: "r = (case stop_result c' of Some r \<Rightarrow> r | None \<Rightarrow> Panic)"
    by (auto simp: stop_wait_def stop_def)
  from w assms(1) have "stop_result c' \<noteq> None" unfolding waits_def by blast
  with r show ?thesis by (auto simp: stop_result_def cleanup_outcome_def split: if_splits option.splits)
qed (use assms in \<open>auto simp: stop_wait_def stop_def\<close>)

lemma control_set_requested_result:
  assumes "control_set_requested target c = (r, c')"
  shows "r \<noteq> Panic \<and> (r = Ok () \<longrightarrow> (\<exists>m. vm_memory c' = Some m \<and> requested_size_mib m = target))"
  using assms by (auto simp: control_set_requested_def set_requested_mib_def prog_defs validate_target_def
      split: option.splits if_splits result.splits prod.splits)

text \<open>What a request is answered, and what a success tells of the state the request left.\<close>

definition completed :: "Request \<Rightarrow> vm_control \<Rightarrow> bool" where
  "completed req c \<longleftrightarrow> (case req of
     Stop \<Rightarrow> vm_lifecycle c = VmStopped \<and> cleanup_error c = None
   | MemorySet target \<Rightarrow> (\<exists>m. vm_memory c = Some m \<and> requested_size_mib m = target)
   | MemoryStatus \<Rightarrow> vm_memory c \<noteq> None
   | _ \<Rightarrow> True)"

definition reported :: "Request \<Rightarrow> vm_control \<Rightarrow> json \<Rightarrow> bool" where
  "reported req c v \<longleftrightarrow> (case req of
     MemoryStatus \<Rightarrow> \<exists>st. status c = Ok st \<and> v = success st
   | MemorySet _ \<Rightarrow> \<exists>st. status c = Ok st \<and> v = success st
   | _ \<Rightarrow> v = success (vm_status c))"

lemma perform_result:
  assumes "waits W" and "perform W thread req c = Some (r, c')" and "req \<noteq> MemoryStatus" and "\<And>t. req \<noteq> MemorySet t"
  shows "r \<noteq> Panic \<and> (r = Ok () \<longrightarrow> completed req c')"
  using assms submit_wait_returns [OF assms(1)] stop_wait_returns [OF assms(1)]
  by (cases req) (auto simp: perform_def completed_def)

lemma status_result: "status c \<noteq> Panic" "status c = Ok st \<Longrightarrow> vm_memory c \<noteq> None"
  by (cases "vm_memory c"; auto simp: status_def memory_status_def and_then_Panic_iff)+

lemma handle_result:
  assumes "waits W" and "handle W thread req c = Some (r, c')"
  shows "r \<noteq> Panic \<and> (\<forall>v. r = Ok v \<longrightarrow> reported req c' v \<and> completed req c')"
proof -
  consider (status) "req = MemoryStatus" | (set) target where "req = MemorySet target"
    | (other) "req \<noteq> MemoryStatus" "\<And>t. req \<noteq> MemorySet t" by blast
  then show ?thesis
  proof cases
    case status
    with assms(2) status_result [of c] show ?thesis
      by (cases "status c") (auto simp: handle_def reported_def completed_def)
  next
    case set
    obtain q c1 where q: "control_set_requested target c = (q, c1)" by fastforce
    with set assms(2) status_result [of c1] control_set_requested_result [OF q] show ?thesis
      by (cases q; cases "status c1") (auto simp: handle_def reported_def completed_def)
  next
    case other
    then have "handle W thread req c = map_option
        (\<lambda>(r, c). (and_then (map_err ProtocolError.Control r) (\<lambda>_. Ok (success (vm_status c))), c)) (perform W thread req c)"
      by (cases req) (auto simp: handle_def)
    with assms(2) obtain q where q: "perform W thread req c = Some (q, c')"
      and r: "r = and_then (map_err ProtocolError.Control q) (\<lambda>_. Ok (success (vm_status c')))" by auto
    from perform_result [OF assms(1) q other] r other show ?thesis
      by (cases q; cases req) (auto simp: reported_def)
  qed
qed

lemma reported_well_formed: "reported req c v \<Longrightarrow> well_formed v"
  using status_ok [of c] by (cases req) (auto simp: reported_def well_formed_def success_def vm_status_def)

lemma answer_result:
  assumes "clock_law S" and "input_law S inp" and "waits W" and "answer J S W thread (c, vm) = Some (r, c', vm')"
  shows "r \<noteq> Panic \<and> (\<forall>v. r = Ok v \<longrightarrow> (\<exists>text rest req. inp c = text @ 10 # rest \<and> js_from_slice J text = Inr req \<and>
    completed req vm' \<and> reported req vm' v))"
proof -
  obtain q c1 where l: "line S c = Some (q, c1)" "q \<noteq> Panic"
    and i: "\<And>text. q = Ok text \<Longrightarrow> inp c = text @ 10 # inp c1" using line_input [OF assms(1,2)] by metis
  show ?thesis
  proof (cases "\<exists>text req. q = Ok text \<and> js_from_slice J text = Inr req")
    case True
    then obtain d req where t: "q = Ok d" "js_from_slice J d = Inr req" by blast
    with l assms(4) have "handle W thread req vm = Some (r, vm')" by (auto simp: answer_def)
    from handle_result [OF assms(3) this] t i show ?thesis by blast
  next
    case False
    with l assms(4) show ?thesis by (auto simp: answer_def split: result.splits sum.splits)
  qed
qed



section \<open>The client's view\<close>

text \<open>A stream that delivers its bytes without an error, and then ends.\<close>

definition delivers :: "'c stream_ops \<Rightarrow> ('c \<Rightarrow> bytes) \<Rightarrow> bool" where
  "delivers S inp \<longleftrightarrow> (\<forall>c. \<exists>c'. st_read S c = (Inr (case inp c of [] \<Rightarrow> None | b # _ \<Rightarrow> Some b), c') \<and> inp c' = tl (inp c))"

text \<open>What \<open>response_loop\<close> computes.\<close>

definition first_line :: "bytes \<Rightarrow> (bytes, ProtocolError) result" where
  "first_line bs = (let d = takeWhile (\<lambda>b. b \<noteq> 10) bs in
     if LIMIT < length d then Err (ProtocolError.TooLong ''response'' LIMIT)
     else if 10 \<in> set bs then Ok d else Err (ProtocolError.Disconnected ''response''))"

lemma response_loop_first_line:
  assumes "delivers S inp" and "length d \<le> LIMIT" and "10 \<notin> set d"
  shows "\<exists>c'. response_loop S d c = Some (first_line (d @ inp c), c')"
  using assms(2,3)
proof (induction "inp c" arbitrary: d c)
  case Nil
  obtain c1 where "st_read S c = (Inr None, c1)" using assms(1) Nil(1) [symmetric] unfolding delivers_def by (metis list.case(1))
  moreover have "first_line d = Err (ProtocolError.Disconnected ''response'')"
    using Nil(2,3) le_trans [OF length_takeWhile_le Nil(2)] by (simp add: first_line_def Let_def not_less)
  ultimately show ?case using Nil(1) [symmetric] by (subst response_loop.simps) simp
next
  case (Cons b bs)
  obtain c1 where c1: "st_read S c = (Inr (Some b), c1)" "inp c1 = bs"
    using assms(1) Cons(2) [symmetric] unfolding delivers_def by (metis list.case(2) list.sel(3))
  have i: "inp c = b # bs" using Cons(2) by simp
  have d: "takeWhile (\<lambda>b. b \<noteq> 10) (d @ ys) = d @ takeWhile (\<lambda>b. b \<noteq> 10) ys" for ys
    using Cons(4) by (intro takeWhile_append2) auto
  consider (nl) "b = 10" | (long) "b \<noteq> 10" "LIMIT \<le> length d" | (grow) "b \<noteq> 10" "length d < LIMIT" by linarith
  then show ?case
  proof cases
    case nl
    with c1 i d Cons(3) show ?thesis by (subst response_loop.simps) (simp add: first_line_def Let_def)
  next
    case long
    with c1 i d Cons(3) show ?thesis by (subst response_loop.simps) (simp add: first_line_def Let_def)
  next
    case grow
    with Cons(1) [of c1 "d @ [b]"] c1 i Cons(3,4) show ?thesis by (subst response_loop.simps) simp
  qed
qed

text \<open>C39. The client of a connection whose server writes a response of at most 4096 bytes gets back that response.\<close>

theorem client_gets_response:
  assumes "delivers S inp" and "st_set_write_timeout S c = (Inr (), c1)"
    and "js_to_string J req = Inr d" and "st_write S (d @ [10]) c1 = (Inr (), c2)"
    and "inp c2 = js_display J v @ 10 # rest" and "10 \<notin> set (js_display J v)" and "length (js_display J v) \<le> 4096"
    and "js_value J (js_display J v) = Inr v"
  shows "client_request J S path (Inr c) req = Some (Ok v)"
proof -
  have "first_line (inp c2) = Ok (js_display J v)"
    using assms(5-7) by (auto simp: first_line_def Let_def takeWhile_append LIMIT_def)
  moreover obtain c3 where "response_loop S [] c2 = Some (first_line (inp c2), c3)"
    using response_loop_first_line [OF assms(1), of "[]" c2] by auto
  ultimately show ?thesis using assms(2-4,8) by (simp add: client_request_def)
qed

section \<open>Connection threads\<close>

lemma swap_remove_split:
  assumes "i < length cs"
  shows "take i (swap_remove i cs) = take i cs"
    and "mset (drop i cs) = add_mset (cs ! i) (mset (drop i (swap_remove i cs)))"
proof -
  have n: "cs \<noteq> []" using assms by auto
  then show t: "take i (swap_remove i cs) = take i cs"
    using assms by (auto simp: swap_remove_def butlast_conv_take min_def)
  have m: "mset (swap_remove i cs) + {#cs ! i#} = mset cs"
    using n assms by (cases cs rule: rev_cases)
      (auto simp: swap_remove_def list_update_append butlast_append nth_append mset_update split: nat.splits if_splits)
  have "mset (take i cs) + mset (drop i (swap_remove i cs)) + {#cs ! i#} = mset (take i cs) + mset (drop i cs)"
    using m t by (metis append_take_drop_id mset_append)
  then show "mset (drop i cs) = add_mset (cs ! i) (mset (drop i (swap_remove i cs)))" by simp
qed

text \<open>Exactly the finished threads are joined.\<close>

lemma mset_reap: "mset (reap finished i cs) = mset (take i cs) + filter_mset (\<lambda>h. \<not> finished h) (mset (drop i cs))"
proof (induction finished i cs rule: reap.induct)
  case (1 finished i cs)
  show ?case
  proof (cases "i < length cs")
    case True
    then have d: "mset (drop i cs) = add_mset (cs ! i) (mset (drop (Suc i) cs))" by (simp flip: Cons_nth_drop_Suc)
    show ?thesis
    proof (cases "finished (cs ! i)")
      case True
      with \<open>i < length cs\<close> 1(1) show ?thesis by (subst reap.simps) (simp add: swap_remove_split)
    next
      case False
      with \<open>i < length cs\<close> 1(2) d show ?thesis by (subst reap.simps) (simp add: take_Suc_conv_app_nth)
    qed
  qed (subst reap.simps, simp)
qed

lemma set_reap: "set (reap finished 0 cs) = {h \<in> set cs. \<not> finished h}"
  using arg_cong [OF mset_reap, of set_mset finished 0 cs] by auto

lemma length_reap: "length (reap finished 0 cs) \<le> length cs"
  using arg_cong [OF mset_reap, of size finished 0 cs] size_filter_mset_lesseq [of "\<lambda>h. \<not> finished h" "mset cs"] by simp

lemma accept_pass_step:
  assumes "accept_pass finished ev cs = (cs', goes_on)" and "length cs \<le> 16"
  shows "length cs' \<le> 16" and "set cs' \<subseteq> {h \<in> set cs. \<not> finished h} \<union> {h. ev = Connection h}"
    and "{h \<in> set cs. \<not> finished h} \<subseteq> set cs'"
proof -
  define rs where "rs = reap finished 0 cs"
  then have rs: "length rs \<le> 16" "set rs = {h \<in> set cs. \<not> finished h}"
    using assms(2) length_reap [of finished cs] set_reap [of finished cs] by simp_all
  have "cs' = rs \<or> length rs < 16 \<and> (\<exists>h. ev = Connection h \<and> cs' = rs @ [h])"
    using assms(1) rs(1) unfolding accept_pass_def Let_def rs_def [symmetric]
    by (simp split: if_splits accepted.splits)
  then show "length cs' \<le> 16" "set cs' \<subseteq> {h \<in> set cs. \<not> finished h} \<union> {h. ev = Connection h}"
    "{h \<in> set cs. \<not> finished h} \<subseteq> set cs'" unfolding rs(2) [symmetric] using rs(1) by (elim disjE; clarsimp)+
qed


section \<open>The socket's file\<close>

text \<open>The files of a directory by name, with their identities: \<open>bind\<close> creates a file and refuses an existing one, a file is looked at
  without following a link, and only \<open>remove\<close> removes one.\<close>

definition files_law :: "'f fs_ops \<Rightarrow> ('f \<Rightarrow> string \<Rightarrow> (nat \<times> nat) option) \<Rightarrow> bool" where
  "files_law F files \<longleftrightarrow>
     (\<forall>p f r f'. fs_bind F p f = (r, f') \<longrightarrow>
        (case r of Inl e \<Rightarrow> files f' = files f | Inr _ \<Rightarrow> files f p = None \<and> (\<exists>ident. files f' = (files f)(p \<mapsto> ident)))) \<and>
     (\<forall>p f ident. fs_identity F p f = Inr ident \<longrightarrow> files f p = Some ident) \<and>
     (\<forall>p mode f. files (snd (fs_set_permissions F p mode f)) = files f) \<and>
     (\<forall>f. files (snd (fs_set_nonblocking F f)) = files f) \<and>
     (\<forall>f. files (snd (fs_spawn F f)) = files f) \<and>
     (\<forall>p f r f'. fs_remove F p f = (r, f') \<longrightarrow> files f' = (case r of Inl e \<Rightarrow> files f | Inr _ \<Rightarrow> (files f)(p := None)))"

lemma server_drop_files:
  assumes "files_law F files"
  shows "files (server_drop F sv f) = files f \<or>
    files f (sv_path sv) = Some (sv_identity sv) \<and> files (server_drop F sv f) = (files f)(sv_path sv := None)"
proof -
  obtain r f' where r: "fs_remove F (sv_path sv) f = (r, f')" by fastforce
  have "files f' = (case r of Inl e \<Rightarrow> files f | Inr _ \<Rightarrow> (files f)(sv_path sv := None))"
    using assms r unfolding files_law_def by blast
  moreover have "files f (sv_path sv) = Some (sv_identity sv)" if "fs_identity F (sv_path sv) f = Inr (sv_identity sv)"
    using assms that unfolding files_law_def by blast
  ultimately show ?thesis using r by (cases r) (auto simp: server_drop_def)
qed

lemma server_setup_files:
  assumes "files_law F files"
    and "bnd (call_ext ProtocolError.Io (fs_set_permissions F path mode)) (\<lambda>_.
       bnd (call_ext ProtocolError.Io (fs_set_nonblocking F)) (\<lambda>_. call_ext ProtocolError.Io (fs_spawn F))) f = (r, f')"
  shows "files f' = files f \<and> r \<noteq> Panic"
proof -
  obtain a f1 where 1: "fs_set_permissions F path mode f = (a, f1)" by fastforce
  obtain b f2 where 2: "fs_set_nonblocking F f1 = (b, f2)" by fastforce
  obtain c f3 where 3: "fs_spawn F f2 = (c, f3)" by fastforce
  have "files f1 = files f" "files f2 = files f1" "files f3 = files f2"
    using assms(1) 1 2 3 unfolding files_law_def by (metis snd_conv)+
  then show ?thesis using assms(2) 1 2 3
    by (cases a; cases b; cases c) (auto simp: prog_defs)
qed

lemma server_bind_cases:
  assumes "files_law F files" and "server_bind F path f = (r, f')"
  obtains (refused) e where "r = Err e" and "files f' = files f"
    | (unknown) e e' ident where "r = Err e" and "files f path = None" and "files f' = (files f)(path \<mapsto> ident)"
      and "fs_identity F path f' = Inl e'"
    | (undone) e ident f1 where "r = Err e" and "files f path = None" and "files f1 = (files f)(path \<mapsto> ident)"
      and "f' = server_drop F \<lparr>sv_path = path, sv_identity = ident\<rparr> f1"
    | (bound) ident where "r = Ok \<lparr>sv_path = path, sv_identity = ident\<rparr>" and "files f path = None"
      and "files f' = (files f)(path \<mapsto> ident)"
proof -
  obtain b f1 where b: "fs_bind F path f = (b, f1)" by fastforce
  have f1: "case b of Inl e \<Rightarrow> files f1 = files f | Inr _ \<Rightarrow> files f path = None \<and> (\<exists>ident. files f1 = (files f)(path \<mapsto> ident))"
    using assms(1) b unfolding files_law_def by blast
  show thesis
  proof (cases b)
    case Inl
    with assms(2) b f1 refused show thesis by (auto simp: server_bind_def)
  next
    case (Inr u)
    with f1 obtain ident where i: "files f path = None" "files f1 = (files f)(path \<mapsto> ident)" by auto
    show thesis
    proof (cases "fs_identity F path f1")
      case (Inl e)
      with assms(2) b \<open>b = Inr u\<close> have "r = Err (ProtocolError.Io e)" "f' = f1" by (simp_all add: server_bind_def)
      with i Inl show thesis by (intro unknown [of _ ident]) simp_all
    next
      case (Inr ident')
      then have "files f1 path = Some ident'" using assms(1) unfolding files_law_def by blast
      then have "ident' = ident" using i by simp
      let ?steps = "bnd (call_ext ProtocolError.Io (fs_set_permissions F path 384)) (\<lambda>_.
         bnd (call_ext ProtocolError.Io (fs_set_nonblocking F)) (\<lambda>_. call_ext ProtocolError.Io (fs_spawn F)))"
      obtain q f2 where q: "?steps f1 = (q, f2)" by fastforce
      note kept = server_setup_files [OF assms(1) q]
      have s: "server_bind F path f = (case ?steps f1 of (Ok _, f) \<Rightarrow> (Ok \<lparr>sv_path = path, sv_identity = ident\<rparr>, f)
          | (Err e, f) \<Rightarrow> (Err e, server_drop F \<lparr>sv_path = path, sv_identity = ident\<rparr> f)
          | (Panic, f) \<Rightarrow> (Panic, server_drop F \<lparr>sv_path = path, sv_identity = ident\<rparr> f))"
        using b \<open>b = Inr u\<close> Inr \<open>ident' = ident\<close> by (simp add: server_bind_def Let_def)
      show thesis
      proof (cases q)
        case (Ok v)
        with s q assms(2) kept i show thesis by (intro bound [of ident]) simp_all
      next
        case (Err e)
        with s q assms(2) kept i show thesis by (intro undone [of e f2 ident]) simp_all
      qed (use kept in simp)
    qed
  qed
qed

lemma socket_file:
  assumes "files_law F files" and "server_bind F path f = (r, f')"
  shows "case r of
      Ok sv \<Rightarrow> files f path = None \<and> sv_path sv = path \<and> files f' = (files f)(path \<mapsto> sv_identity sv) \<and>
        (\<forall>g. files (server_drop F sv g) = files g \<or>
           files g path = Some (sv_identity sv) \<and> files (server_drop F sv g) = (files g)(path := None))
    | Err e \<Rightarrow> files f' = files f \<or> files f path = None \<and> (\<exists>ident. files f' = (files f)(path \<mapsto> ident))
    | Panic \<Rightarrow> False"
  using assms
proof (cases rule: server_bind_cases)
  case (undone e ident f1)
  with server_drop_files [OF assms(1), of "\<lparr>sv_path = path, sv_identity = ident\<rparr>" f1] show ?thesis
    by (cases ident) auto
next
  case (bound ident)
  with server_drop_files [OF assms(1), of "\<lparr>sv_path = path, sv_identity = ident\<rparr>"] show ?thesis by auto
qed auto

text \<open>C37. Binding the control socket never replaces a file, and neither a failed bind nor the end of the server removes any file but the
  socket this server created: a file that has taken its place is left alone.\<close>

theorem socket_file_safe:
  assumes "files_law F files" and "server_bind F path f = (r, f')"
  shows "case r of
      Ok sv \<Rightarrow> files f path = None \<and> sv_path sv = path \<and> files f' = (files f)(path \<mapsto> sv_identity sv) \<and>
        (\<forall>g. files (server_drop F sv g) = files g \<or>
           files g path = Some (sv_identity sv) \<and> files (server_drop F sv g) = (files g)(path := None))
    | Err e \<Rightarrow> files f' = files f \<or> files f path = None \<and> (\<exists>ident. files f' = (files f)(path \<mapsto> ident))
    | Panic \<Rightarrow> False"
  by (rule socket_file [OF assms])

text \<open>A bind that fails after the socket exists leaves it behind exactly when the file cannot be looked at or removed. The first
  case is in the server's hands: it has no value yet whose \<open>Drop\<close> would remove the file.\<close>

lemma failed_bind_leftover:
  assumes "files_law F files" and "server_bind F path f = (Err e, f')" and "files f' \<noteq> files f"
  shows "(\<exists>e. fs_identity F path f' = Inl e) \<or>
    (\<exists>ident f1. files f1 = (files f)(path \<mapsto> ident) \<and> f' = server_drop F \<lparr>sv_path = path, sv_identity = ident\<rparr> f1 \<and>
       files f' path = Some ident)"
  using assms(1,2)
proof (cases rule: server_bind_cases)
  case (undone e ident f1)
  with server_drop_files [OF assms(1), of "\<lparr>sv_path = path, sv_identity = ident\<rparr>" f1] assms(3) show ?thesis
    by (cases ident) (auto simp: fun_upd_idem)
qed (use assms(3) in auto)

end
