(* ===== verification/Cli.thy ===== *)
theory Cli
  imports Server Terminal Vmm Vmnet Peer "HOL-Library.List_Lexorder"
begin

text \<open>
  The demo's command line (\<open>src/demo/src/main.rs\<close>) and the program that runs a VM against the
  local test peer (\<open>main\<close> of \<open>src/demo/examples/net-peer.rs\<close>): disks by name, the commands that talk to a control socket, and the
  command that puts the terminal, the guard, the control server and the machine together. Parsing of the
  arguments (clap) is not part of the sources; a command is its result. A run returns nothing if the machine never stops.
  Lemmas: the disks are the named ones or the offending argument is reported; whatever happens, the terminal, the signal handlers and
  the socket's file are put back and the VM is stopped before the guard waits for its thread.
\<close>

section \<open>Arguments\<close>

record run_args =
  ra_disk :: "string list"
  ra_memory_mib :: u64
  ra_vcpus :: u32
  ra_virtio_mem_size_mib :: "u64 option"
  ra_virtio_mem_block_size_mib :: u64
  ra_control_socket :: "string option"
  ra_read_only :: bool
  ra_net :: bool
  ra_lenient :: bool

datatype Command = CmdPause string | CmdResume string | CmdStop string | CmdStatus string
  | CmdMemorySet string u64 | CmdMemoryStatus string | CmdRun run_args

text \<open>\<open>[NAME=]PATH\<close>: a bare path gets the name of its position.\<close>

definition disk_name :: "nat \<Rightarrow> string" where
  "disk_name index = ''disk'' @ decimal index"

definition disk_argument :: "nat \<Rightarrow> string \<Rightarrow> string \<times> string" where
  "disk_argument index value = (case split_once CHR ''='' value of Some np \<Rightarrow> np | None \<Rightarrow> (disk_name index, value))"

fun disk_paths_from :: "nat \<Rightarrow> string list \<Rightarrow> (string, string) btree \<Rightarrow> ((string, string) btree, DemoError) result" where
  "disk_paths_from index [] paths = Ok paths"
| "disk_paths_from index (value # vals) paths = (case disk_argument index value of (name, file) \<Rightarrow>
     if file = [] then Err (DemoError.Arguments (ArgumentError.EmptyDiskPath name))
     else if bt_get paths name \<noteq> None then Err (DemoError.Arguments (ArgumentError.DuplicateDisk name))
     else disk_paths_from (index + 1) vals (bt_insert name file paths))"

definition disk_paths :: "string list \<Rightarrow> ((string, string) btree, DemoError) result" where
  "disk_paths disks = disk_paths_from 0 disks []"

text \<open>\<open>str::parse::<u32>\<close>: an optional plus sign, then digits.\<close>

fun parse_digits :: "string \<Rightarrow> nat \<Rightarrow> ext_error + u32" where
  "parse_digits [] n = Inr (word_of_nat n)"
| "parse_digits (c # cs) n =
     (if \<not> (48 \<le> (of_char c :: nat) \<and> (of_char c :: nat) \<le> 57) then Inl ''invalid digit found in string''
      else if 2 ^ 32 \<le> 10 * n + digit_value c then Inl ''number too large to fit in target type''
      else parse_digits cs (10 * n + digit_value c))"

definition parse_u32 :: "string \<Rightarrow> ext_error + u32" where
  "parse_u32 s = (case s of
     [] \<Rightarrow> Inl ''cannot parse integer from empty string''
   | c # cs \<Rightarrow> if cs = [] \<and> (c = CHR ''+'' \<or> c = CHR ''-'') then Inl ''invalid digit found in string''
       else if c = CHR ''+'' then parse_digits cs 0 else parse_digits s 0)"

section \<open>Commands to a control socket\<close>

text \<open>\<open>control_command\<close>: what is printed, and the result.\<close>

definition control_command ::
  "json_api \<Rightarrow> causes \<Rightarrow> 'c stream_ops \<Rightarrow> (string \<Rightarrow> IoError + 'c) \<Rightarrow> string \<Rightarrow> Request \<Rightarrow>
    (json \<times> (unit, DemoError) result) option" where
  "control_command J X S connect socket req = map_option (\<lambda>r.
     let response = response_of J X r in
     (response, if json_index response ''ok'' \<noteq> JBool True then Err (DemoError.Protocol (ProtocolError.RequestFailed response)) else Ok ()))
     (client_request J S socket (connect socket) req)"

text \<open>The socket and request of a command that has one.\<close>

definition control_request :: "Command \<Rightarrow> (string \<times> Request) option" where
  "control_request cmd = (case cmd of
     CmdPause socket \<Rightarrow> Some (socket, Pause)
   | CmdResume socket \<Rightarrow> Some (socket, Resume)
   | CmdStop socket \<Rightarrow> Some (socket, Stop)
   | CmdStatus socket \<Rightarrow> Some (socket, Status)
   | CmdMemorySet socket mib \<Rightarrow> Some (socket, MemorySet mib)
   | CmdMemoryStatus socket \<Rightarrow> Some (socket, MemoryStatus)
   | CmdRun _ \<Rightarrow> None)"

definition exit_code :: "(unit, DemoError) result \<Rightarrow> nat" where
  "exit_code r = (case r of Ok _ \<Rightarrow> 0 | Err _ \<Rightarrow> 1 | Panic \<Rightarrow> 101)"

text \<open>What \<open>main\<close> prints at the end.\<close>

definition final_message :: "json_api \<Rightarrow> causes \<Rightarrow> (unit, DemoError) result \<Rightarrow> string option" where
  "final_message J X r =
     (case r of Err e \<Rightarrow> Some (''w-vmm: '' @ diagnostic (demo_chain X (json_text J) e)) | _ \<Rightarrow> None)"

section \<open>Running a machine\<close>

text \<open>The program's host outside the machine: disks, the vmnet framework, the terminal, the files, and the images it has closed.\<close>

record ('os, 'f, 'o, 'd, 'i) demo_host =
  dh_disks :: 'os
  dh_net :: 'f
  dh_tty :: 'o
  dh_files :: 'd
  dh_closed :: "(string, 'i disk) btree"

text \<open>\<open>collect\<close> over \<open>Disk::open\<close>: the first failure drops the disks opened so far.\<close>

fun open_disks ::
  "('g, 'h, 'i, 'os) disk_os \<Rightarrow> ('i, 'm) imago \<Rightarrow> bool \<Rightarrow> (string \<times> string) list \<Rightarrow> (string, 'i disk) btree \<Rightarrow>
    (('os, 'f, 'o, 'd, 'i) demo_host, (string, 'i disk) btree, StorageError) prog" where
  "open_disks OS I ro [] opened h = (Ok opened, h)"
| "open_disks OS I ro ((name, file) # rest) opened h = (case disk_open OS I file ro (dh_disks h) of
     (Ok d, os) \<Rightarrow> open_disks OS I ro rest (bt_insert name d opened) (h\<lparr>dh_disks := os\<rparr>)
   | (Err e, os) \<Rightarrow> (Err e, h\<lparr>dh_disks := os, dh_closed := map (map_prod id (disk_drop I)) opened\<rparr>)
   | (Panic, os) \<Rightarrow> (Panic, h\<lparr>dh_disks := os, dh_closed := map (map_prod id (disk_drop I)) opened\<rparr>))"

text \<open>The destructors of disks and network that no machine has taken.\<close>

definition close_devices ::
  "('i, 'm) imago \<Rightarrow> ('n \<Rightarrow> 'f \<Rightarrow> 'f) \<Rightarrow> (string, 'i disk) btree \<Rightarrow> 'n option \<Rightarrow> ('os, 'f, 'o, 'd, 'i) demo_host \<Rightarrow>
    ('os, 'f, 'o, 'd, 'i) demo_host" where
  "close_devices I drop_net disks nic h =
     h\<lparr>dh_net := (case nic of None \<Rightarrow> dh_net h | Some n \<Rightarrow> drop_net n (dh_net h)), dh_closed := map (map_prod id (disk_drop I)) disks\<rparr>"

text \<open>The end of both programs: bind the guard, bind the control socket, run. On an error the machine is dropped,
  with its devices and the terminal, and then the guard; after a run, which has taken the machine, the server and then the guard.
  \<open>meanwhile\<close> is what happens to the host during the run.\<close>

record ('os, 'f, 'o, 't, 'd, 'i, 'm) demo_env =
  dm_imago :: "('i, 'm) imago"
  dm_tty :: "('o, 't) tty_ops"
  dm_spawned :: "IoError + unit"
  dm_files :: "'d fs_ops"
  dm_builtin :: bool
  dm_meanwhile :: "('os, 'f, 'o, 'd, 'i) demo_host \<Rightarrow> ('os, 'f, 'o, 'd, 'i) demo_host"

definition abandon ::
  "('n \<Rightarrow> 'f \<Rightarrow> 'f) \<Rightarrow> ('os, 'f, 'o, 't, 'd, 'i, 'm) demo_env \<Rightarrow> ('v, 'i disk, 'n, 'q, 'm, 'u, 'c) env \<Rightarrow> 't terminal \<Rightarrow> guard \<Rightarrow>
    (string, 'i disk) btree \<Rightarrow> 'n option \<Rightarrow> ('os, 'f, 'o, 'd, 'i) demo_host \<times> ('v, 'i disk, 'n, 'q, 'm, 'u) world \<Rightarrow>
    ('os, 'f, 'o, 'd, 'i) demo_host \<times> ('v, 'i disk, 'n, 'q, 'm, 'u) world" where
  "abandon drop_net D E t g disks nic = (\<lambda>(h, w).
     let h = close_devices (dm_imago D) drop_net disks nic h in
     (h\<lparr>dh_tty := guard_release (dm_tty D) g (terminal_drop (dm_tty D) t (dh_tty h))\<rparr>, vmm_drop E False True w))"

text \<open>\<open>control_socket.map(Server::bind).transpose()\<close>.\<close>

definition bind_socket :: "'d fs_ops \<Rightarrow> string option \<Rightarrow> ('d, server option, ProtocolError) prog" where
  "bind_socket F socket f = (case socket of None \<Rightarrow> (Ok None, f) | Some p \<Rightarrow> bnd (server_bind F p) (\<lambda>sv. ret (Some sv)) f)"

definition launch ::
  "('n \<Rightarrow> 'f \<Rightarrow> 'f) \<Rightarrow> ('os, 'f, 'o, 't, 'd, 'i, 'm) demo_env \<Rightarrow> ('v, 'i disk, 'n, 'q, 'm, 'u, 'c) env \<Rightarrow> nat \<Rightarrow> VmConfig \<Rightarrow>
    (string, 'i disk) btree \<Rightarrow> 'n option \<Rightarrow> virtio_mem option \<Rightarrow> 't terminal \<Rightarrow> guard \<Rightarrow> string option \<Rightarrow>
    ('os, 'f, 'o, 'd, 'i) demo_host \<times> ('v, 'i disk, 'n, 'q, 'm, 'u) world \<Rightarrow>
    ((unit, DemoError) result \<times> ('os, 'f, 'o, 'd, 'i) demo_host \<times> ('v, 'i disk, 'n, 'q, 'm, 'u) world) option" where
  "launch drop_net D E thread config disks nic mem t g socket = (\<lambda>(h, w).
     let v = vmm_new config disks nic mem (); w = w\<lparr>w_control := vmm_control v\<rparr> in
     case guard_bind (dm_tty D) (dm_spawned D) (g, dh_tty h) of
       (Err e, g, s) \<Rightarrow> Some (Err (DemoError.Terminal e), abandon drop_net D E t g disks nic (h\<lparr>dh_tty := s\<rparr>, w))
     | (Panic, g, s) \<Rightarrow> Some (Panic, abandon drop_net D E t g disks nic (h\<lparr>dh_tty := s\<rparr>, w))
     | (Ok _, g, s) \<Rightarrow>
         (let h = h\<lparr>dh_tty := s\<rparr> in
          case bind_socket (dm_files D) socket (dh_files h) of
            (Err e, f) \<Rightarrow> Some (Err (DemoError.Protocol e), abandon drop_net D E t g disks nic (h\<lparr>dh_files := f\<rparr>, w))
          | (Panic, f) \<Rightarrow> Some (Panic, abandon drop_net D E t g disks nic (h\<lparr>dh_files := f\<rparr>, w))
          | (Ok server, f) \<Rightarrow>
              map_option (\<lambda>(r, w).
                let h = dm_meanwhile D (h\<lparr>dh_files := f\<rparr>);
                    h = h\<lparr>dh_tty := terminal_drop (dm_tty D) t (dh_tty h)\<rparr>;
                    h = (case server of None \<Rightarrow> h | Some sv \<Rightarrow> h\<lparr>dh_files := server_drop (dm_files D) sv (dh_files h)\<rparr>)
                in (map_err DemoError.Vmm r, h\<lparr>dh_tty := guard_release (dm_tty D) g (dh_tty h)\<rparr>, w))
                (vmm_run (dm_builtin D) E thread v w)))"

text \<open>The command \<open>run\<close>.\<close>

definition run_machine ::
  "('g, 'h, 'i, 'os) disk_os \<Rightarrow> ('f, 'm) vmnet_api \<Rightarrow> ('os, 'f, 'o, 't, 'd, 'i, 'm) demo_env \<Rightarrow>
    ('v, 'i disk, vmnet \<times> 'f, 'q, 'm, 'u, 'c) env \<Rightarrow> nat \<Rightarrow> run_args \<Rightarrow>
    ('os, 'f, 'o, 'd, 'i) demo_host \<times> ('v, 'i disk, vmnet \<times> 'f, 'q, 'm, 'u) world \<Rightarrow>
    ((unit, DemoError) result \<times> ('os, 'f, 'o, 'd, 'i) demo_host \<times> ('v, 'i disk, vmnet \<times> 'f, 'q, 'm, 'u) world) option" where
  "run_machine OS V D E thread args = (\<lambda>(h, w).
     let drop_net = (\<lambda>(n, _) f. vmnet_drop V (n, f)) in
     case disk_paths (ra_disk args) of Err e \<Rightarrow> Some (Err e, h, w) | Panic \<Rightarrow> Some (Panic, h, w) | Ok paths \<Rightarrow>
     case open_disks OS (dm_imago D) (ra_read_only args) paths [] h of
       (Err e, h) \<Rightarrow> Some (Err (DemoError.Storage e), h, w) | (Panic, h) \<Rightarrow> Some (Panic, h, w) | (Ok disks, h) \<Rightarrow>
     case (if ra_net args then (case vmnet_shared V (dh_net h) of
             (Ok n, f) \<Rightarrow> (Ok (Some (n, f)), f) | (Err e, f) \<Rightarrow> (Err e, f) | (Panic, f) \<Rightarrow> (Panic, f))
           else (Ok None, dh_net h)) of
       (Err e, f) \<Rightarrow> Some (Err (DemoError.Net e), close_devices (dm_imago D) drop_net disks None (h\<lparr>dh_net := f\<rparr>), w)
     | (Panic, f) \<Rightarrow> Some (Panic, close_devices (dm_imago D) drop_net disks None (h\<lparr>dh_net := f\<rparr>), w)
     | (Ok nic, f) \<Rightarrow>
     let h = h\<lparr>dh_net := f\<rparr> in
     case (case ra_virtio_mem_size_mib args of None \<Rightarrow> Ok None
         | Some mib \<Rightarrow> and_then (virtio_mem_new mib (ra_virtio_mem_block_size_mib args)) (\<lambda>m. Ok (Some m))) of
       Err e \<Rightarrow> Some (Err (DemoError.Memory e), close_devices (dm_imago D) drop_net disks nic h, w)
     | Panic \<Rightarrow> Some (Panic, close_devices (dm_imago D) drop_net disks nic h, w)
     | Ok mem \<Rightarrow>
     case terminal_new (dm_tty D) (dh_tty h) of
       (Err e, s) \<Rightarrow> Some (Err (DemoError.Terminal e), close_devices (dm_imago D) drop_net disks nic (h\<lparr>dh_tty := s\<rparr>), w)
     | (Panic, s) \<Rightarrow> Some (Panic, close_devices (dm_imago D) drop_net disks nic (h\<lparr>dh_tty := s\<rparr>), w)
     | (Ok (t, g), s) \<Rightarrow>
         launch drop_net D E thread \<lparr>memory_mib = ra_memory_mib args, vcpu_count = ra_vcpus args, strict_mode = \<not> ra_lenient args\<rparr>
           disks nic mem t g (ra_control_socket args) (h\<lparr>dh_tty := s\<rparr>, w))"

text \<open>\<open>run\<close>: a command for a control socket, or a machine.\<close>

definition run_command ::
  "json_api \<Rightarrow> causes \<Rightarrow> 'x stream_ops \<Rightarrow> (string \<Rightarrow> IoError + 'x) \<Rightarrow>
    ('g, 'h, 'i, 'os) disk_os \<Rightarrow> ('f, 'm) vmnet_api \<Rightarrow> ('os, 'f, 'o, 't, 'd, 'i, 'm) demo_env \<Rightarrow>
    ('v, 'i disk, vmnet \<times> 'f, 'q, 'm, 'u, 'c) env \<Rightarrow> nat \<Rightarrow> Command \<Rightarrow>
    ('os, 'f, 'o, 'd, 'i) demo_host \<times> ('v, 'i disk, vmnet \<times> 'f, 'q, 'm, 'u) world \<Rightarrow>
    ((unit, DemoError) result \<times> ('os, 'f, 'o, 'd, 'i) demo_host \<times> ('v, 'i disk, vmnet \<times> 'f, 'q, 'm, 'u) world) option" where
  "run_command J X S connect OS V D E thread cmd = (\<lambda>(h, w).
     case control_request cmd of
       Some (socket, req) \<Rightarrow> map_option (\<lambda>(printed, r). (r, h, w)) (control_command J X S connect socket req)
     | None \<Rightarrow> (case cmd of CmdRun args \<Rightarrow> run_machine OS V D E thread args (h, w) | _ \<Rightarrow> Some (Panic, h, w)))"

text \<open>\<open>main\<close> of the test peer's program; the two environment variables are arguments.\<close>

definition peer_main ::
  "('g, 'h, 'i, 'os) disk_os \<Rightarrow> ('os, 'f, 'o, 't, 'd, 'i, 'm) demo_env \<Rightarrow> ('v, 'i disk, peer, 'q, 'm, 'u, 'c) env \<Rightarrow> nat \<Rightarrow>
    string list \<Rightarrow> string option \<Rightarrow> string option \<Rightarrow>
    ('os, 'f, 'o, 'd, 'i) demo_host \<times> ('v, 'i disk, peer, 'q, 'm, 'u) world \<Rightarrow>
    ((unit, DemoError) result \<times> ('os, 'f, 'o, 'd, 'i) demo_host \<times> ('v, 'i disk, peer, 'q, 'm, 'u) world) option" where
  "peer_main OS D E thread args vcpus socket = (\<lambda>(h, w).
     case args of [] \<Rightarrow> Some (Err (DemoError.Arguments ArgumentError.PeerUsage), h, w) | cmd # files \<Rightarrow>
     if cmd \<noteq> ''run'' then Some (Err (DemoError.Arguments ArgumentError.PeerUsage), h, w) else
     case open_disks OS (dm_imago D) False (map (\<lambda>(i, p). (disk_name i, p)) (enumerate 0 files)) [] h of
       (Err e, h) \<Rightarrow> Some (Err (DemoError.Storage e), h, w) | (Panic, h) \<Rightarrow> Some (Panic, h, w) | (Ok disks, h) \<Rightarrow>
     case (case vcpus of None \<Rightarrow> Ok 1 | Some s \<Rightarrow> of_sum ArgumentError.CpuCount (parse_u32 s)) of
       Err e \<Rightarrow> Some (Err (DemoError.Arguments e), close_devices (dm_imago D) (\<lambda>_ :: peer. id) disks None h, w)
     | Panic \<Rightarrow> Some (Panic, close_devices (dm_imago D) (\<lambda>_ :: peer. id) disks None h, w)
     | Ok n \<Rightarrow>
     case terminal_new (dm_tty D) (dh_tty h) of
       (Err e, s) \<Rightarrow> Some (Err (DemoError.Terminal e), close_devices (dm_imago D) (\<lambda>_ :: peer. id) disks None (h\<lparr>dh_tty := s\<rparr>), w)
     | (Panic, s) \<Rightarrow> Some (Panic, close_devices (dm_imago D) (\<lambda>_ :: peer. id) disks None (h\<lparr>dh_tty := s\<rparr>), w)
     | (Ok (t, g), s) \<Rightarrow>
     let h = h\<lparr>dh_tty := s\<rparr>;
         undo = (\<lambda>h. close_devices (dm_imago D) (\<lambda>_ :: peer. id) disks None
           (h\<lparr>dh_tty := terminal_drop (dm_tty D) t (guard_release (dm_tty D) g (dh_tty h))\<rparr>)) in
     case (case socket of None \<Rightarrow> Ok None | Some _ \<Rightarrow> and_then (virtio_mem_new 1024 2) (\<lambda>m. Ok (Some m))) of
       Err e \<Rightarrow> Some (Err (DemoError.Memory e), undo h, w)
     | Panic \<Rightarrow> Some (Panic, undo h, w)
     | Ok mem \<Rightarrow> launch (\<lambda>_ :: peer. id) D E thread (default_config\<lparr>vcpu_count := n\<rparr>) disks (Some \<lparr>peer_replies = []\<rparr>) mem t g socket (h, w))"

section \<open>Disk arguments\<close>

definition named :: "nat \<Rightarrow> string list \<Rightarrow> (string \<times> string) list" where
  "named index vals = map (\<lambda>(i, v). disk_argument i v) (enumerate index vals)"

lemma named_simps [simp]: "named i [] = []" "named i (v # vs) = disk_argument i v # named (Suc i) vs"
  by (simp_all add: named_def)

text \<open>Why an argument is refused, after the disks before it.\<close>

definition offends :: "(string \<times> string) list \<Rightarrow> string \<times> string \<Rightarrow> DemoError \<Rightarrow> bool" where
  "offends before d e \<longleftrightarrow> snd d = [] \<and> e = DemoError.Arguments (ArgumentError.EmptyDiskPath (fst d)) \<or>
     snd d \<noteq> [] \<and> fst d \<in> fst ` set before \<and> e = DemoError.Arguments (ArgumentError.DuplicateDisk (fst d))"

lemma disk_paths_from_ok:
  assumes "bt_inv paths"
  shows "case disk_paths_from i vals paths of
      Ok m \<Rightarrow> bt_inv m \<and> set m = set paths \<union> set (named i vals) \<and>
        distinct (map fst (named i vals)) \<and> fst ` set paths \<inter> fst ` set (named i vals) = {} \<and> (\<forall>(n, p) \<in> set (named i vals). p \<noteq> [])
    | Err e \<Rightarrow> \<exists>k < length vals. offends (paths @ named i (take k vals)) (disk_argument (i + k) (vals ! k)) e
    | Panic \<Rightarrow> False"
  using assms
proof (induction vals arbitrary: i paths)
  case (Cons v vs)
  obtain n p where np: "disk_argument i v = (n, p)" by fastforce
  have get: "bt_get paths n = None \<longleftrightarrow> n \<notin> fst ` set paths" by (simp add: bt_get_def map_of_eq_None_iff)
  show ?case
  proof (cases "p = [] \<or> bt_get paths n \<noteq> None")
    case True
    then obtain e where "disk_paths_from i (v # vs) paths = Err e" "offends paths (n, p) e"
      using np get by (cases "p = []") (auto simp: offends_def)
    with np show ?thesis by (auto intro!: exI [of _ 0])
  next
    case False
    let ?m = "bt_insert n p paths"
    have m: "bt_inv ?m" "set ?m = insert (n, p) (set paths)" "n \<notin> fst ` set paths" "p \<noteq> []"
      using False Cons.prems get by (auto simp: set_bt_insert)
    have r: "disk_paths_from i (v # vs) paths = disk_paths_from (Suc i) vs ?m" using np False by simp
    show ?thesis
    proof (cases "disk_paths_from (Suc i) vs ?m")
      case (Ok x)
      with Cons.IH [OF m(1), of "Suc i"] have "bt_inv x" "set x = set ?m \<union> set (named (Suc i) vs)"
        "distinct (map fst (named (Suc i) vs))" "fst ` set ?m \<inter> fst ` set (named (Suc i) vs) = {}"
        "\<forall>(n, p) \<in> set (named (Suc i) vs). p \<noteq> []" by simp_all
      with Ok r np m show ?thesis by auto
    next
      case (Err e)
      then obtain k where k: "k < length vs" "offends (?m @ named (Suc i) (take k vs)) (disk_argument (Suc i + k) (vs ! k)) e"
        using Cons.IH [OF m(1), of "Suc i"] by (simp only: result.case) (elim exE conjE)
      have "offends (?m @ named (Suc i) (take k vs)) = offends (paths @ named i (take (Suc k) (v # vs)))"
        by (intro ext) (simp add: offends_def m(2) np)
      with k show ?thesis unfolding r Err result.case by (intro exI [of _ "Suc k"]) simp
    next
      case Panic
      with Cons.IH [OF m(1), of "Suc i"] show ?thesis by simp
    qed
  qed
qed simp


lemma bare_names_distinct: "(\<forall>v \<in> set vals. CHR ''='' \<notin> set v) \<Longrightarrow> distinct (map fst (named i vals))"
proof (induction vals arbitrary: i)
  case (Cons v vs)
  have "fst p \<in> disk_name ` {j. i < j}" if "p \<in> set (named (Suc i) vs)" for p
    using that Cons.prems by (fastforce simp: named_def in_set_enumerate_eq disk_argument_def split_once_None [THEN iffD2])
  moreover have "disk_name i \<notin> disk_name ` {j. i < j}" by (auto simp: disk_name_def)
  ultimately show ?case using Cons
    by (fastforce simp: disk_argument_def split_once_None [THEN iffD2])
qed simp

section \<open>Putting things back\<close>

text \<open>What can be observed of the terminal, and of the files: as before, or with a control socket of our own left.\<close>

definition observe :: "('o \<Rightarrow> 't) \<Rightarrow> ('o \<Rightarrow> int) \<Rightarrow> ('o \<Rightarrow> nat set) \<Rightarrow> 'o \<Rightarrow> 't \<times> int \<times> nat set" where
  "observe mode fl regs s = (mode s, fl s, regs s)"

definition only_socket :: "string option \<Rightarrow> (string \<Rightarrow> (nat \<times> nat) option) \<Rightarrow> (string \<Rightarrow> (nat \<times> nat) option) \<Rightarrow> bool" where
  "only_socket socket fs fs' \<longleftrightarrow> fs' = fs \<or> (\<exists>p ident. socket = Some p \<and> fs p = None \<and> fs' = fs(p \<mapsto> ident))"

text \<open>What the rest of the host does during a run leaves the terminal's settings and the files alone.\<close>

definition undisturbed ::
  "('os, 'f, 'o, 't, 'd, 'i, 'm) demo_env \<Rightarrow> ('o \<Rightarrow> 't) \<Rightarrow> ('o \<Rightarrow> int) \<Rightarrow> ('o \<Rightarrow> nat set) \<Rightarrow>
    ('d \<Rightarrow> string \<Rightarrow> (nat \<times> nat) option) \<Rightarrow> bool" where
  "undisturbed D mode fl regs files \<longleftrightarrow> tty_law (dm_tty D) mode fl regs \<and> files_law (dm_files D) files \<and>
     (\<forall>h. observe mode fl regs (dh_tty (dm_meanwhile D h)) = observe mode fl regs (dh_tty h)) \<and>
     (\<forall>h. files (dh_files (dm_meanwhile D h)) = files (dh_files h))"

lemma guard_bind_observed:
  assumes "tty_law T mode fl regs" and "guard_bind T spawned (g, s) = (r, g', s')"
  shows "r \<noteq> Panic \<and> observe mode fl regs s' = observe mode fl regs s \<and> guard_release T g' = guard_release T g"
proof -
  obtain c s1 where c: "ty_clone T s = (c, s1)" by fastforce
  have "observe mode fl regs s1 = observe mode fl regs s" using tty_same [OF assms(1), of s c s1] c by (simp add: observe_def)
  then show ?thesis using assms(2) c
    by (auto simp: guard_bind_def guard_release_def fun_eq_iff split: if_splits sum.splits)
qed

lemma vmm_drop_stopped: "vm_lifecycle (w_control (vmm_drop E p b w)) = VmStopped"
  by (simp add: vmm_drop_def update_control_def on_control_def dropped_def finish_def)

lemma bind_socket_files:
  assumes "files_law F files" and "bind_socket F socket f = (x, f')"
  shows "x \<noteq> Panic \<and> (\<forall>e. x = Err e \<longrightarrow> only_socket socket (files f) (files f')) \<and>
    (\<forall>sv fs. x = Ok sv \<and> files fs = files f' \<longrightarrow> only_socket socket (files f)
      (files (case sv of None \<Rightarrow> fs | Some sv \<Rightarrow> server_drop F sv fs)))"
proof (cases socket)
  case (Some p)
  obtain z f1 where z: "server_bind F p f = (z, f1)" by fastforce
  note sock = socket_file [OF assms(1) z]
  show ?thesis
  proof (cases z)
    case (Ok sv)
    with z assms(2) Some have x: "x = Ok (Some sv)" "f1 = f'" by (simp_all add: bind_socket_def prog_defs)
    from sock Ok x(2) have "files f p = None" "files f' = (files f)(p \<mapsto> sv_identity sv)"
      "\<And>fs. files (server_drop F sv fs) = files fs \<or> files (server_drop F sv fs) = (files fs)(p := None)"
      by auto
    then have "only_socket socket (files f) (files (server_drop F sv fs))" if "files fs = files f'" for fs
      using that Some unfolding only_socket_def by (metis fun_upd_triv fun_upd_upd)
    with x show ?thesis by simp
  next
    case (Err e)
    with z assms(2) Some sock show ?thesis by (auto simp: bind_socket_def only_socket_def prog_defs)
  next
    case Panic
    with sock show ?thesis by simp
  qed
qed (use assms(2) in \<open>auto simp: bind_socket_def only_socket_def\<close>)

lemma launch_puts_back:
  assumes und: "undisturbed D mode fl regs files"
    and undo: "\<And>s. observe mode fl regs s = observe mode fl regs (dh_tty h) \<Longrightarrow>
      observe mode fl regs (guard_release (dm_tty D) g (terminal_drop (dm_tty D) t s)) = o0"
    and handles: "\<forall>n. e_others E n = call_handles (calls n)" and dev: "rt_devices (w_rt w) = []"
    and run: "launch drop_net D E thread config disks nic mem t g socket (h, w) = Some (r, h', w')"
  shows "observe mode fl regs (dh_tty h') = o0 \<and> only_socket socket (files (dh_files h)) (files (dh_files h')) \<and>
    vm_lifecycle (w_control w') = VmStopped"
proof -
  let ?v = "vmm_new config disks nic mem ()"
  let ?w = "w\<lparr>w_control := vmm_control ?v\<rparr>"
  have law: "tty_law (dm_tty D) mode fl regs" "files_law (dm_files D) files" using und by (simp_all add: undisturbed_def)
  obtain a g1 s1 where b: "guard_bind (dm_tty D) (dm_spawned D) (g, dh_tty h) = (a, g1, s1)"
    by (cases "guard_bind (dm_tty D) (dm_spawned D) (g, dh_tty h)") auto
  note b' = guard_bind_observed [OF law(1) b]
  have ab: "observe mode fl regs (dh_tty h2) = o0 \<and> dh_files h2 = dh_files h1 \<and> vm_lifecycle (w_control w2) = VmStopped"
    if "abandon drop_net D E t g1 disks nic (h1, ?w) = (h2, w2)" "dh_tty h1 = s1" for h1 h2 w2
    using that undo [of s1] b' vmm_drop_stopped by (auto simp: abandon_def close_devices_def Let_def)
  show ?thesis
  proof (cases a)
    case (Err e)
    with run b ab [of "h\<lparr>dh_tty := s1\<rparr>"] show ?thesis by (simp add: launch_def Let_def only_socket_def)
  next
    case Panic
    with b' show ?thesis by simp
  next
    case (Ok u)
    obtain x f where q: "bind_socket (dm_files D) socket (dh_files h) = (x, f)" by fastforce
    note bound = bind_socket_files [OF law(2) q]
    show ?thesis
    proof (cases x)
      case (Err e)
      with run b Ok q ab [of "h\<lparr>dh_tty := s1, dh_files := f\<rparr>"] bound show ?thesis
        by (simp add: launch_def Let_def)
    next
      case Panic
      with bound show ?thesis by simp
    next
      case (Ok sv)
      let ?h = "dm_meanwhile D (h\<lparr>dh_tty := s1, dh_files := f\<rparr>)"
      obtain y w2 where v: "vmm_run (dm_builtin D) E thread ?v ?w = Some (y, w2)" "w2 = w'"
        "dh_tty h' = guard_release (dm_tty D) g1 (terminal_drop (dm_tty D) t (dh_tty ?h))"
        "dh_files h' = (case sv of None \<Rightarrow> dh_files ?h | Some sv \<Rightarrow> server_drop (dm_files D) sv (dh_files ?h))"
        using run b \<open>a = Ok u\<close> q Ok by (auto simp: launch_def Let_def split: option.splits)
      have "observe mode fl regs (dh_tty ?h) = observe mode fl regs s1" "files (dh_files ?h) = files f"
        using und by (simp_all add: undisturbed_def)
      moreover have "settled (w_control w')"
        using run_settles [OF handles refl, of ?w config disks nic mem "()" thread y w2 "dm_builtin D"] v(1,2) dev by simp
      ultimately show ?thesis using v(3,4) undo [of "dh_tty ?h"] b' bound Ok by (simp add: settled_def)
    qed
  qed
qed

lemma open_disks_keeps:
  "open_disks OS I ro paths opened h = (r, h') \<Longrightarrow> dh_tty h' = dh_tty h \<and> dh_files h' = dh_files h \<and> dh_net h' = dh_net h"
proof (induction OS I ro paths opened h rule: open_disks.induct)
  case (2 OS I ro name f rest opened h)
  then show ?case by (auto split: prod.splits result.splits)
qed simp

lemma close_devices_keeps [simp]:
  "dh_tty (close_devices I d disks nic h) = dh_tty h" "dh_files (close_devices I d disks nic h) = dh_files h"
  by (simp_all add: close_devices_def)

lemma terminal_new_undone:
  assumes "tty_law T mode fl regs" and "\<forall>s. \<not> isl (fst (ty_tcsetattr T (mode s0) s))"
    and "\<forall>s. \<not> isl (fst (ty_setfl T (fl s0) s))" and "terminal_new T s0 = (r, s1)"
  shows "r \<noteq> Panic \<and> (\<forall>e. r = Err e \<longrightarrow> observe mode fl regs s1 = observe mode fl regs s0) \<and>
    (\<forall>t g s. r = Ok (t, g) \<longrightarrow> observe mode fl regs s = observe mode fl regs s1 \<longrightarrow>
      observe mode fl regs (guard_release T g (terminal_drop T t s)) = observe mode fl regs s0)"
  using terminal_restored [OF assms] by (cases r) (auto simp: observe_def Let_def)

text \<open>The settings of a host that can be set again.\<close>

definition resettable :: "('o, 't) tty_ops \<Rightarrow> ('o \<Rightarrow> 't) \<Rightarrow> ('o \<Rightarrow> int) \<Rightarrow> 'o \<Rightarrow> bool" where
  "resettable T mode fl s0 \<longleftrightarrow> (\<forall>s. \<not> isl (fst (ty_tcsetattr T (mode s0) s))) \<and> (\<forall>s. \<not> isl (fst (ty_setfl T (fl s0) s)))"

text \<open>From the terminal on.\<close>

lemma started_puts_back:
  assumes und: "undisturbed D mode fl regs files" and "resettable (dm_tty D) mode fl (dh_tty h)"
    and "\<forall>n. e_others E n = call_handles (calls n)" and "rt_devices (w_rt w) = []"
    and new: "terminal_new (dm_tty D) (dh_tty h) = (Ok (t, g), s)"
    and run: "launch drop_net D E thread config disks nic mem t g socket (h\<lparr>dh_tty := s\<rparr>, w) = Some (r, h', w')"
  shows "observe mode fl regs (dh_tty h') = observe mode fl regs (dh_tty h) \<and>
    only_socket socket (files (dh_files h)) (files (dh_files h')) \<and> vm_lifecycle (w_control w') = VmStopped"
proof -
  have "tty_law (dm_tty D) mode fl regs" using und by (simp add: undisturbed_def)
  from terminal_new_undone [OF this _ _ new] assms(2)
  have "observe mode fl regs (guard_release (dm_tty D) g (terminal_drop (dm_tty D) t x)) = observe mode fl regs (dh_tty h)"
    if "observe mode fl regs x = observe mode fl regs (dh_tty (h\<lparr>dh_tty := s\<rparr>))" for x
    using that by (simp add: resettable_def)
  from launch_puts_back [OF und this assms(3,4) run] show ?thesis by simp
qed


lemma peer_memory: "\<exists>m. virtio_mem_new 1024 2 = Ok m"
  unfolding virtio_mem_new_def by (simp add: is_power_of_two_def mib_bytes_def checked_mul_def MIB_def HOTPLUG_BLOCK_SIZE_def is_multiple_of_def max_def Let_def)

text \<open>The same for the test peer's program.\<close>

lemma peer_puts_back:
  assumes "undisturbed D mode fl regs files" and "resettable (dm_tty D) mode fl (dh_tty h)"
    and "\<forall>n. e_others E n = call_handles (calls n)" and "rt_devices (w_rt w) = []"
    and "peer_main OS D E thread args vcpus socket (h, w) = Some (r, h', w')"
  shows "observe mode fl regs (dh_tty h') = observe mode fl regs (dh_tty h) \<and>
    only_socket socket (files (dh_files h)) (files (dh_files h')) \<and> (w' = w \<or> vm_lifecycle (w_control w') = VmStopped)"
proof -
  note law = assms(1) [unfolded undisturbed_def, THEN conjunct1]
  consider (usage) "w' = w" "h' = h" | (run) fs where "args = ''run'' # fs"
    using assms(5) by (cases args) (auto simp: peer_main_def split: if_splits)
  then show ?thesis
  proof cases
    case run
    obtain x h1 where o: "open_disks OS (dm_imago D) False (map (\<lambda>(i, p). (disk_name i, p)) (enumerate 0 fs)) [] h = (x, h1)" by fastforce
    note h1 = open_disks_keeps [OF o]
    show ?thesis
    proof (cases x)
      case x: (Ok disks)
      define n where "n = (case vcpus of None \<Rightarrow> Ok 1 | Some s \<Rightarrow> of_sum ArgumentError.CpuCount (parse_u32 s))"
      show ?thesis
      proof (cases n)
        case n: (Ok k)
        obtain z s where t: "terminal_new (dm_tty D) (dh_tty h1) = (z, s)" by fastforce
        have res: "resettable (dm_tty D) mode fl (dh_tty h1)" using assms(2) h1 by simp
        note new = terminal_new_undone [OF law res [unfolded resettable_def, THEN conjunct1] res [unfolded resettable_def, THEN conjunct2] t]
        obtain mem where mem: "(case socket of None \<Rightarrow> Ok None | Some _ \<Rightarrow> and_then (virtio_mem_new 1024 2) (\<lambda>m. Ok (Some m))) = Ok mem"
          using peer_memory by (cases socket) auto
        show ?thesis
        proof (cases z)
          case z: (Ok tg)
          then obtain t' g where tg: "z = Ok (t', g)" by (cases tg) auto
          show ?thesis
            using started_puts_back [OF assms(1) res assms(3,4), of t' g s] assms(5) run o x n t tg mem h1
            by (simp add: peer_main_def Let_def flip: n_def)
        qed (use new assms(5) run o x n t h1 in \<open>auto simp: peer_main_def Let_def only_socket_def simp flip: n_def\<close>)
      qed (use assms(5) run o x h1 in \<open>auto simp: peer_main_def Let_def only_socket_def simp flip: n_def\<close>)
    qed (use assms(5) run o h1 in \<open>auto simp: peer_main_def only_socket_def\<close>)
  qed (simp add: only_socket_def)
qed

text \<open>A command for a control socket succeeds exactly when its response reports a success.\<close>

lemma control_command_result:
  "control_command J X S connect socket req = Some (response, r) \<Longrightarrow>
    exit_code r = 0 \<longleftrightarrow> json_index response ''ok'' = JBool True"
  by (auto simp: control_command_def exit_code_def Let_def split: if_splits)

text \<open>A number that was printed is read back.\<close>

lemma parse_digits_value:
  assumes "\<forall>c \<in> set s. 48 \<le> (of_char c :: nat) \<and> (of_char c :: nat) \<le> 57" and "foldl (\<lambda>a c. 10 * a + digit_value c) n s < 2 ^ 32"
  shows "parse_digits s n = Inr (word_of_nat (foldl (\<lambda>a c. 10 * a + digit_value c) n s))"
  using assms
proof (induction s arbitrary: n)
  case (Cons c s)
  have grows: "n \<le> foldl (\<lambda>a c. 10 * a + digit_value c) n s" for n s
    by (induction s arbitrary: n) (simp, fastforce intro: order_trans [rotated])
  from grows [of "10 * n + digit_value c" s] Cons show ?case by simp
qed simp

lemma parse_decimal:
  assumes "n < 2 ^ 32"
  shows "parse_u32 (decimal n) = Inr (word_of_nat n)"
proof -
  have digits: "\<forall>c \<in> set (decimal n). 48 \<le> (of_char c :: nat) \<and> (of_char c :: nat) \<le> 57" for n
  proof (induction n rule: decimal.induct)
    case (1 n)
    then show ?case by (subst decimal.simps) (auto simp: digit_def of_char_of)
  qed
  obtain c cs where d: "decimal n = c # cs" using decimal_not_Nil [of n] by (cases "decimal n") auto
  have "(of_char CHR ''+'' :: nat) = 43" "(of_char CHR ''-'' :: nat) = 45" by simp_all
  with digits [of n] d have "c \<noteq> CHR ''+''" "c \<noteq> CHR ''-''" by auto
  moreover have "parse_digits (decimal n) 0 = Inr (word_of_nat n)"
    using parse_digits_value [of "decimal n" 0] digits [of n] assms by (simp add: decimal_value)
  ultimately show ?thesis by (simp add: parse_u32_def d)
qed

end
