(* ===== verification/Examples.thy ===== *)
theory Examples
  imports Block Sample
begin

text \<open>
  The properties of the components at concrete inputs, on one small machine: the sample memory
  and queues, a disk of 1024 bytes held in memory, and the block device over it. Each theorem
  discharges the hypotheses of a property and evaluates its conclusion.
\<close>

section \<open>A disk held in memory\<close>

definition flat_imago :: "(nat \<Rightarrow> u8, sample_mem) imago" where
  "flat_imago = \<lparr>
     im_readv = (\<lambda>segs off (i, m). (Inr (), i, m\<lparr>sm_bytes :=
       scatter (all_cells segs) (get_at (unat off) (length (all_cells segs)) i) (sm_bytes m)\<rparr>)),
     im_writev = (\<lambda>segs off (i, m).
       (Inr (), put_at (unat off) (map (sm_bytes m) (all_cells segs)) i, m)),
     im_flush = (\<lambda>i. (Inr (), i)), im_sync = (\<lambda>i. (Inr (), i)), im_size = (\<lambda>i. 1024), im_iov_limit = 2\<rparr>"

definition flat_disk :: "(nat \<Rightarrow> u8) disk" where
  "flat_disk = \<lparr>dimage = (\<lambda>a. word_of_nat (a mod 7)), readonly = False, dsize = 1024, path = ''d''\<rparr>"

definition flat_mem :: sample_mem where
  "flat_mem = \<lparr>sm_table = [], sm_ring = [], sm_bytes = (\<lambda>a. word_of_nat (a mod 251)), sm_used = []\<rparr>"

definition two_slices :: "vslice list" where
  "two_slices = [\<lparr>vs_ptr = 4, vs_len = 2\<rparr>, \<lparr>vs_ptr = 9, vs_len = 1\<rparr>, \<lparr>vs_ptr = 5, vs_len = 1\<rparr>]"

lemma flat_laws:
  "writev_law flat_imago id sm_bytes" "readv_law flat_imago id sm_bytes"
  by (auto simp: flat_imago_def writev_law_def readv_law_def)

lemmas flat_eval = disk_write_def disk_read_def transfer_def Let_def prog_defs bounds_def checked_add_def
  two_slices_def flat_imago_def flat_disk_def iov_max_def on_image_def segments_overlap_def
  usize_saturating_add_def usize_add_def all_cells_def cells_def upt_rec

lemma run_split: "fst r = Ok () \<Longrightarrow> r = (Ok (), fst (snd r), snd (snd r))"
  by (cases r) auto

theorem disk_write_flat_example:
  "dimage (fst (snd (disk_write flat_imago 512 two_slices (flat_disk, flat_mem)))) 514 = 9"
proof -
  have "fst (disk_write flat_imago 512 two_slices (flat_disk, flat_mem)) = Ok ()"
    by (simp add: flat_eval)
  from disk_write_flat [OF flat_laws(1) run_split [OF this]] show ?thesis
    by (simp add: put_at_def two_slices_def cells_def all_cells_def upt_rec flat_mem_def)
qed

theorem disk_read_flat_example:
  "sm_bytes (snd (snd (disk_read flat_imago 512 two_slices (flat_disk, flat_mem)))) 5 = 4"
proof -
  have ok: "fst (disk_read flat_imago 512 two_slices (flat_disk, flat_mem)) = Ok ()"
    by (simp add: flat_eval)
  have "\<forall>s \<in> set two_slices. vs_ptr s + vs_len s < 2 ^ 64" by (simp add: two_slices_def)
  from disk_read_flat [OF flat_laws(2) this run_split [OF ok]] show ?thesis
    by (simp add: scatter_def get_at_def two_slices_def cells_def all_cells_def upt_rec flat_disk_def)
qed


text \<open>An operating system whose only file is a directory.\<close>

definition dir_os :: "(nat, nat, nat, nat list) disk_os" where
  "dir_os = \<lparr>os_open = (\<lambda>p w os. (Inr 3, os)), os_is_file = (\<lambda>f os. (Inr False, os)),
     os_flock = (\<lambda>f e os. (Inr (), os)), os_read_exact_at = (\<lambda>f n off os. (Inr [], os)),
     os_try_clone = (\<lambda>f os. (Inr f, os)), os_image_file = (\<lambda>f os. (Inr f, os)),
     os_qcow2_open = (\<lambda>g w os. (Inr 0, os)), os_close = (\<lambda>f os. f # os)\<rparr>"


section \<open>A block device on the sample machine\<close>

definition sample_block :: "(nat \<Rightarrow> u8) disk block" where
  "sample_block = \<lparr>bdisk = flat_disk, bname = ''d'', bid = put_bytes 0 [100] (replicate 20 0)\<rparr>"

definition sample_mmio :: "((nat \<Rightarrow> u8) disk block, sample_queue) mmio" where
  "sample_mmio = \<lparr>device = sample_block,
     queues = \<lparr>rings = [\<lparr>sq_ready = True, sq_size = 4, sq_next = 0, sq_desc = 0, sq_avail = 0, sq_used = 0\<rparr>],
       negotiated = push_bit 32 1, interrupt = 0\<rparr>,
     feature_sel = 0, driver_sel = 0, queue_sel = 0, features = push_bit 32 1 OR 0x204, mstatus = 0xf,
     strict = False, rejected = 0\<rparr>"

abbreviation sample_ops :: "((nat \<Rightarrow> u8) disk block, sample_queue, sample_mem) virtio_ops" where
  "sample_ops \<equiv> block_ops_of sample (disk_ops flat_imago)"

lemma sample_more_laws [simp]: "ranges_law sample" "quiet_law sample"
  by (auto simp: ranges_law_def quiet_law_def sample_def sample_read_def)

theorem rejected_write_keeps_registers_example:
  "\<exists>r t'. mmio_write sample sample_ops 0x38 64 (sample_mmio, flat_mem) = (r, t', flat_mem) \<and>
     registers t' = registers sample_mmio \<and> r = Ok () \<and> rejected t' = 1"
proof -
  have c: "configure sample sample_ops 0x38 64 flat_mem sample_mmio =
      (Err DeviceError.QueueConfigurationAfterDriverOk, sample_mmio)"
    by (simp add: configure_def configure_queue_def queue_registers_def sample_mmio_def DRIVER_OK_def)
  have "\<not> strict sample_mmio" "rejected sample_mmio = 0" by (simp_all add: sample_mmio_def)
  with rejected_write_keeps_registers [OF _ _ c] show ?thesis by simp
qed

text \<open>A device whose poll always reports a guest error.\<close>

definition faulty_ops :: "(unit, sample_queue, sample_mem) virtio_ops" where
  "faulty_ops = \<lparr>vd_required_features = \<lambda>d. 0, vd_generation = \<lambda>d. 0, vd_device_id = \<lambda>d. 2, vd_features = \<lambda>d. 0,
     vd_queue_count = \<lambda>d. 0, vd_read_config = \<lambda>d off n. replicate n 0, vd_notify = \<lambda>i. ret (),
     vd_poll = throw DeviceError.InvalidVirtqueue, vd_reset = ret (), vd_flush = ret ()\<rparr>"

definition faulty_mmio :: "(unit, sample_queue) mmio" where
  "faulty_mmio = \<lparr>device = (), queues = \<lparr>rings = [], negotiated = push_bit 32 1, interrupt = 0\<rparr>, feature_sel = 0,
     driver_sel = 0, queue_sel = 0, features = push_bit 32 1, mstatus = 0xf, strict = False, rejected = 0\<rparr>"


theorem isolated_until_reset_example:
  "\<exists>t'. mmio_run sample sample_ops [Write 0x50 0, Poll, Write 0x70 0x4f, Write 0x44 0]
     (sample_mmio\<lparr>mstatus := 0x4f\<rparr>, flat_mem) = (t', flat_mem) \<and> needs_reset t' \<and> device t' = sample_block"
proof -
  have "needs_reset (sample_mmio\<lparr>mstatus := 0x4f\<rparr>)" by (simp add: needs_reset_def NEEDS_RESET_def)
  from isolated_until_reset [OF this, of "[Write 0x50 0, Poll, Write 0x70 0x4f, Write 0x44 0]"]
  show ?thesis by (simp add: sample_mmio_def)
qed

text \<open>A pending read of one sector: header, 512 bytes of data, status.\<close>

definition desc :: "u64 \<Rightarrow> u32 \<Rightarrow> u16 \<Rightarrow> u16 \<Rightarrow> descriptor" where
  "desc a n fl nx = \<lparr>d_addr = a, d_len = n, d_flags = fl, d_next = nx, d_has_next = (fl AND 1 \<noteq> 0),
     d_write_only = (fl AND 2 \<noteq> 0), d_indirect = (fl AND 4 \<noteq> 0)\<rparr>"

definition read_mem :: sample_mem where
  "read_mem = \<lparr>sm_table = [desc 0 16 1 1, desc 1024 512 3 2, desc 2048 1 2 0], sm_ring = [0],
     sm_bytes = (\<lambda>a. 0), sm_used = []\<rparr>"

lemma pop_walk_4: "pop_walk C q 4 f i ds = pop_walk C q (Suc (Suc (Suc (Suc 0)))) f i ds"
  by (simp add: numeral_eq_Suc del: pop_walk.simps)


theorem pinned_covers_pending_example:
  "case pinned sample (queues sample_mmio) flat_mem of
     (Ok pins, m') \<Rightarrow> queue_uses sample (rings (queues sample_mmio) ! 0) flat_mem \<subseteq> set pins
   | (Err e, m') \<Rightarrow> False | (Panic, m') \<Rightarrow> False"
proof -
  have run: "pinned sample (queues sample_mmio) flat_mem = (Ok [(0, 64), (0, 14), (0, 38)], flat_mem)"
    by (simp add: pinned_def pinned_queue_def prog_defs sample_def sample_mmio_def flat_mem_def sample_limit_def)
  from pinned_covers_pending [OF sample_more_laws(2), where qs = "queues sample_mmio" and m = flat_mem] show ?thesis
    unfolding run by (simp add: sample_def sample_mmio_def)
qed

theorem block_request_accesses_example:
  "\<exists>res s' log m'. block_request sample (logged (disk_ops flat_imago)) (bid sample_block) (sm_table read_mem) 0
     ((flat_disk, []), read_mem) = (res, (s', log), m') \<and>
   (log = [] \<or> log = [FlushOp] \<or>
    (\<exists>off segs ss. slices sample read_mem (butlast (sm_table read_mem)) = Inr ss \<and>
      all_cells segs = drop 16 (all_cells ss) \<and>
      access_ok (bs_size (disk_ops flat_imago) flat_disk) off (length (all_cells segs)) \<and>
      (log = [ReadOp off segs] \<or> \<not> bs_read_only (disk_ops flat_imago) flat_disk \<and>
       log \<in> {[WriteOp off segs], [WriteOp off segs, FlushOp]})))"
proof -
  obtain res s' log m' where run: "block_request sample (logged (disk_ops flat_imago)) (bid sample_block)
      (sm_table read_mem) 0 ((flat_disk, []), read_mem) = (res, (s', log), m')"
    by (metis surj_pair)
  from block_request_accesses [OF sample_laws(2,1,3) run] run show ?thesis by blast
qed

definition write_mem :: sample_mem where
  "write_mem = \<lparr>sm_table = [desc 0 16 1 1, desc 1024 512 1 2, desc 2048 1 2 0], sm_ring = [0],
     sm_bytes = (\<lambda>a. if a = 0 then 1 else 0), sm_used = []\<rparr>"

theorem write_through_without_flush_example:
  "last (snd (fst (snd (execute sample (logged (disk_ops flat_imago)) (bid sample_block)
     (butlast (sm_table write_mem)) 0 ((flat_disk, []), write_mem))))) = FlushOp"
proof -
  have ss: "slices sample write_mem (butlast (sm_table write_mem)) =
      Inr [\<lparr>vs_ptr = 0, vs_len = 16\<rparr>, \<lparr>vs_ptr = 1024, vs_len = 512\<rparr>]"
    by (simp add: slices_def sample_def write_mem_def desc_def sample_limit_def)
  have p: "parse_request sample (butlast (sm_table write_mem)) write_mem =
      (Ok \<lparr>kind = 1, sector = 0, payload = 512, data = [desc 1024 512 1 2],
         buffers = [\<lparr>vs_ptr = 1024, vs_len = 512\<rparr>]\<rparr>, write_mem)"
    unfolding parse_request_def
    by (simp add: prog_defs ss) (simp add: prog_defs write_mem_def desc_def usize_add_def copy_to.simps range_slices_def
        range_from.simps sample_def upt_rec)
  let ?run = "execute sample (logged (disk_ops flat_imago)) (bid sample_block)
     (butlast (sm_table write_mem)) 0 ((flat_disk, []), write_mem)"
  have run: "?run = (Ok (BLK_S_OK, 1), (fst (fst (snd ?run)), [WriteOp 0 [\<lparr>vs_ptr = 1024, vs_len = 512\<rparr>], FlushOp]), snd (snd ?run))"
    by (simp add: execute_def prog_defs p dispatch_def BLK_T_IN_def BLK_T_OUT_def block_transfer_def Let_def
        desc_def logged_def disk_ops_def used_length_def checked_mul_def bounds_def checked_add_def flat_disk_def
        lift_storage_def flush_backend_def disk_write_def transfer_def usize_add_def on_image_def flat_imago_def
        disk_flush_def on_caches_def)
  from write_through_without_flush [OF run] show ?thesis
    by (subst run) simp
qed

end
