(* ===== verification/Scenarios.thy ===== *)
theory Scenarios
  imports Examples Vmnet Macos Runtime
begin

text \<open>
  The properties of the network device, the boot layout, dynamic memory, the lifecycle, the vCPUs, the
  built-in platform and the runtime at concrete inputs: each theorem discharges the hypotheses of a
  property on a small scenario. The frameworks of the host are replaced by functions that always succeed.
\<close>

section \<open>Network\<close>

definition quiet_vmnet :: "(unit, sample_mem) vmnet_api" where
  "quiet_vmnet = \<lparr>vf_describe = (\<lambda>f. (1, f)), vf_start_interface = (\<lambda>d n f. ((1, Inl Timeout), f)),
     vf_stop_interface = (\<lambda>i f. ((VMNET_SUCCESS, Inr VMNET_SUCCESS), f)),
     vf_read = (\<lambda>i fr n x. ((VMNET_SUCCESS, 0, 0, []), x)), vf_write = (\<lambda>i fr n x. ((BUFFER_EXHAUSTED, 0), x))\<rparr>"

definition quiet_nic :: vmnet where
  "quiet_nic = \<lparr>vn_interface = Some 1, vn_mac = [2, 0, 0, 0, 0, 1], vn_max_frame = 1514, vn_ipv4 = no_ipv4\<rparr>"

definition two_queues :: "sample_queue queues" where
  "two_queues = \<lparr>rings = replicate 2 \<lparr>sq_ready = True, sq_size = 4, sq_next = 0, sq_desc = 0, sq_avail = 0, sq_used = 0\<rparr>,
     negotiated = push_bit 32 1, interrupt = 0\<rparr>"


definition waiting_net :: "(vmnet \<times> unit) net" where
  "waiting_net = \<lparr>backend = (quiet_nic, ()), nconfig = replicate 12 0, rx = replicate 1526 0, pending_tx = Some 3,
     tx = replicate 60 7\<rparr>"


text \<open>The parser of an octet also takes a leading plus sign.\<close>

lemma parse_mac_plus: "parse_mac ''+2:00:00:00:00:01'' = Ok [2, 0, 0, 0, 0, 1]"
  by code_simp

section \<open>Boot\<close>

text \<open>The smallest image: a header of 64 bytes with the magic, an image size of 64 bytes and text offset zero.\<close>

definition small_kernel :: bytes where
  "small_kernel = replicate 16 0 @ 64 # replicate 39 0 @ [0x41, 0x52, 0x4d, 0x64] @ replicate 4 0"

lemma small_layout: "layout_new 128 small_kernel 4096 =
    Ok \<lparr>bl_size = 0x8000000, bl_entry = 0x40000000, bl_initrd = 0x47df0000, bl_dtb = 0x47e00000\<rparr>"
proof -
  have k: "kernel_word small_kernel 16 = 64" "kernel_word small_kernel 24 = 0" "kernel_word small_kernel 8 = 0"
    by code_simp+
  have "sub_bytes 56 4 small_kernel = [0x41, 0x52, 0x4d, 0x64]" "length small_kernel = 64" by code_simp+
  then show ?thesis unfolding layout_new_def k Let_def
    by (simp add: RAM_def BOOT_MIB_def is_multiple_of_def checked_add_def boot_mib_bytes_def checked_sub_def checked_mul_def word_le_nat_alt word_less_nat_alt max_def)
qed

theorem layout_disjoint_example: "0x40000000 + 64 \<le> unat (0x47df0000 :: u64) \<and>
    unat (0x47e00000 :: u64) + 0x200000 = 0x40000000 + 0x8000000"
  using layout_disjoint [OF small_layout] by (simp add: RAM_def)

section \<open>Lifecycle\<close>

text \<open>A VM that is started, asked to pause by one thread, stopped by another and cleaned up.\<close>

definition asked :: vm_control where
  "asked = snd (submit 1 OpPause (running (snd (begin_run 0 (control_new None)))))"

definition ended :: vm_control where
  "ended = finish None (cleaning (snd (stop 2 asked)))"

lemma asked_reach: "control_reach (asked, Loop None)"
proof -
  let ?a = "snd (begin_run 0 (control_new None))"
  have "control_reach (?a, Loop None)"
    by (rule control_reach.step [OF control_reach.init control_step.begins [of 0]]) (simp add: begin_run_def control_new_def)
  then have "control_reach (running ?a, Loop None)" by (rule control_reach.step) (rule control_step.runs)
  then show ?thesis unfolding asked_def
    by (rule control_reach.step) (rule control_step.submits [of 1 OpPause _ "fst (submit 1 OpPause (running ?a))"], simp)
qed

lemma ended_reach: "control_reach (ended, Done)"
proof -
  have "control_reach (snd (stop 2 asked), Loop None)"
    by (rule control_reach.step [OF asked_reach], rule control_step.stops [of 2 _ "fst (stop 2 asked)"]) simp
  then have "control_reach (cleaning (snd (stop 2 asked)), Cleaning)" by (rule control_reach.step) (rule control_step.cleans)
  then show ?thesis unfolding ended_def by (rule control_reach.step) (rule control_step.finishes, simp)
qed

theorem requests_answered_once_example: "map fst (replies ended) = [0] \<and> requests ended = []"
  using requests_answered_once [OF ended_reach] by (simp add: ended_def asked_def) (code_simp)

theorem stop_is_final_example: "vm_lifecycle (snd (stop 2 asked)) = VmStopping \<and> vm_lifecycle (cleaning (snd (stop 2 asked))) \<in> {VmStopping, VmStopped}"
proof -
  have r: "control_reach (snd (stop 2 asked), Loop None)"
    by (rule control_reach.step [OF asked_reach], rule control_step.stops [of 2 _ "fst (stop 2 asked)"]) simp
  have "vm_lifecycle (snd (stop 2 asked)) = VmStopping" by code_simp
  with stop_is_final [OF r control_step.cleans] show ?thesis by blast
qed

section \<open>Virtual processors\<close>

text \<open>A framework in which every call succeeds and nothing is remembered.\<close>

definition calm_hv :: "unit hv" where
  "calm_hv = \<lparr>hv_vm_get_max_vcpu_count = (\<lambda>h. (0, 8)), hv_vm_config_get_default_ipa_size = (\<lambda>h. (0, 36)),
     hv_vm_create = (\<lambda>h. (0, h)), hv_vm_destroy = (\<lambda>h. (0, h)), hv_vm_map = (\<lambda>p a n fl h. (0, h)),
     hv_vm_unmap = (\<lambda>a n h. (0, h)), hv_gic_config_create = (\<lambda>h. (1, h)),
     hv_gic_config_set_distributor_base = (\<lambda>c a h. (0, h)), hv_gic_config_set_redistributor_base = (\<lambda>c a h. (0, h)),
     hv_gic_create = (\<lambda>c h. (0, h)), hv_gic_get_redistributor_region_size = (\<lambda>h. (0, 0x20000)),
     hv_gic_get_intid = (\<lambda>k h. (0, 27)), hv_gic_get_spi_interrupt_range = (\<lambda>h. (0, 32, 988)),
     hv_gic_set_spi = (\<lambda>i b h. (0, h)), hv_vcpu_create = (\<lambda>h. (0, 1, h)), hv_vcpu_destroy = (\<lambda>c h. (0, h)),
     hv_vcpu_get_reg = (\<lambda>c r h. (0, 0)), hv_vcpu_set_reg = (\<lambda>c r v h. (0, h)), hv_vcpu_set_sys_reg = (\<lambda>c r v h. (0, h)),
     os_release = (\<lambda>p h. h), page_size = 16384\<rparr>"


section \<open>Dynamic memory\<close>

text \<open>A device of 256 MiB in blocks of 128 MiB, attached and asked for one block, and a host allocator.\<close>

definition plug_status :: MemoryStatus where
  "plug_status = \<lparr>region_size_mib = 256, block_size_mib = 128, requested_size_mib = 128, plugged_size_mib = 0,
     driver_ready = False, lifecycle = Created\<rparr>"

definition plug_device :: virtio_mem where
  "plug_device = \<lparr>control = plug_status, vstart = 0x80000000, capacity = 0x10000000, block_size = 0x8000000,
     block_len = 0x8000000, requested = 0x8000000, plugged = 0, generation = 1, blocks = []\<rparr>"

definition plug_host :: "nat \<Rightarrow> u64" where
  "plug_host n = 0x100000000"

definition plug_alloc :: alloc where
  "plug_alloc a n = (if n < 2 ^ 64 then Inr \<lparr>r_start = a, r_len = word_of_nat n, r_ptr = plug_host 0, r_alloc = 0\<rparr> else Inl ''size'')"

lemma plug_alloc_law: "host_alloc_law plug_host plug_alloc"
  by (auto simp: host_alloc_law_def plug_alloc_def plug_host_def unat_of_nat take_bit_eq_mod split: if_splits)

lemma plug_reach: "memory_reach sample calm_hv plug_host plug_device ([], ()) flat_mem"
proof -
  let ?v = "plug_device\<lparr>control := plug_status\<lparr>requested_size_mib := 0\<rparr>, vstart := 0, requested := 0, generation := 0\<rparr>"
  have n: "virtio_mem_new 256 128 = Ok ?v"
    by (simp add: virtio_mem_new_def is_power_of_two_def mib_bytes_def checked_mul_def MIB_def HOTPLUG_BLOCK_SIZE_def
        is_multiple_of_def memory_control_new_def plug_device_def plug_status_def word_le_nat_alt max_def)
  have a: "attach_at 0x80000000 ?v = (Ok (), ?v\<lparr>vstart := 0x80000000\<rparr>)"
    by (simp add: attach_at_def prog_defs plug_device_def plug_status_def alignment_def HOTPLUG_BLOCK_SIZE_def is_multiple_of_def
        checked_add_def mib_bytes_def checked_mul_def MIB_def max_def)
  have r0: "memory_reach sample calm_hv plug_host (?v\<lparr>vstart := 0x80000000\<rparr>) ([], ()) flat_mem"
    by (rule memory_reach.created [OF n a])
  have t: "set_requested_mib 128 (control (?v\<lparr>vstart := 0x80000000\<rparr>)) = (Ok (), plug_status)"
    by (simp add: set_requested_mib_def prog_defs validate_target_def plug_device_def plug_status_def is_multiple_of_def word_less_nat_alt)
  from memory_reach.synced [OF memory_reach.targeted [OF r0 t], of False] show ?thesis
    by (simp add: sync_target_def plug_device_def plug_status_def MIB_def)
qed

text \<open>The guest plugs the first block: type 0, address, one block.\<close>

definition plug_request :: bytes where
  "plug_request = [0, 0, 0, 0, 0, 0, 0, 0, 0, 0, 0, 0x80, 0, 0, 0, 0, 1, 0, 0, 0, 0, 0, 0, 0]"

definition plug_region :: region where
  "plug_region = \<lparr>r_start = 0x80000000, r_len = 0x8000000, r_ptr = 0x100000000, r_alloc = 0\<rparr>"

definition plugged_device :: virtio_mem where
  "plugged_device = plug_device\<lparr>control := plug_status\<lparr>plugged_size_mib := 128\<rparr>, plugged := 0x8000000, generation := 2,
     blocks := [(0x80000000, plug_region)]\<rparr>"

lemma plug_bytes: "word_of_nat (le_nat (sub_bytes 0 2 plug_request)) = (0 :: u16)"
  "word_of_nat (le_nat (sub_bytes 8 8 plug_request)) = (0x80000000 :: u64)"
  "word_of_nat (le_nat (sub_bytes 16 2 plug_request)) = (1 :: u64)"
  by (simp_all add: plug_request_def sub_bytes_def)

lemma plug_decide: "decide plug_device 0 0x80000000 1 [] = Inr [0x80000000]"
  by (simp add: decide_def request_addresses_def plug_device_def plug_status_def checked_mul_def checked_add_def is_multiple_of_def
      is_plugged_def bt_get_def count_def MIB_def saturating_sub_def word_le_nat_alt word_less_nat_alt)

lemma plug_map: "hvf_map calm_hv plug_region ([], ()) = (Ok (), [(0x80000000, plug_region)], ())"
  by (simp add: hvf_map_def plug_region_def calm_hv_def is_multiple_of_def prog_defs ipa_bits_def hv_query_def hv_call_def check_def
      validate_ipa_range_def mappings_map_def checked_add_def bt_last_below_def word_le_nat_alt word_less_nat_alt split: prod.splits)

lemma plug_run: "memory_request sample (hvf_mapper calm_hv) plug_alloc plug_request [] (plug_device, ([], ()), flat_mem) =
    (Ok (0, 0), plugged_device, ([(0x80000000, plug_region)], ()), flat_mem)"
proof -
  have a: "plug_alloc 0x80000000 0x8000000 = Inr plug_region" by (simp add: plug_alloc_def plug_region_def plug_host_def)
  have c: "change sample (hvf_mapper calm_hv) plug_alloc [0x80000000] True (plug_device, ([], ()), flat_mem) =
      (Ok True, plug_device\<lparr>blocks := [(0x80000000, plug_region)]\<rparr>, ([(0x80000000, plug_region)], ()), flat_mem)"
    using a plug_map by (simp add: change_def hvf_mapper_def commit_blocks_def plug_device_def sample_def)
  show ?thesis
    unfolding memory_request_def by (simp add: bnd_def get_state_def modify_def ret_def Let_def plug_bytes plug_decide c)
      (simp add: account_def count_def plug_device_def plugged_device_def plug_status_def)
qed

lemma plug_ok: "memory_ok plug_host plug_device ([], ())" and plugged_ok: "memory_ok plug_host plugged_device ([(0x80000000, plug_region)], ())"
  using memory_reach_ok [OF plug_reach] memory_reach_ok [OF memory_reach.requested [OF plug_reach plug_alloc_law plug_run]] by simp_all




section \<open>The built-in platform\<close>

definition small_config :: VmConfig where
  "small_config = \<lparr>memory_mib = 128, vcpu_count = 1, strict_mode = False\<rparr>"

definition small_needs :: DeviceRequirements where
  "small_needs = \<lparr>rq_devices = [KindMemory], rq_hotplug = Some \<lparr>rq_capacity = 0x10000000, rq_alignment = 0x8000000\<rparr>\<rparr>"

definition small_machine :: MachineLayout where
  "small_machine = \<lparr>ml_ram = [\<lparr>mr_address = 0x40000000, mr_size = 0x8000000\<rparr>],
     ml_uart = \<lparr>io_space = SpaceMmio, io_address = UART, io_size = UART_SIZE, io_irq = UART_IRQ\<rparr>,
     ml_virtio = [\<lparr>io_space = SpaceMmio, io_address = 0x0a000000, io_size = 0x1000, io_irq = 34\<rparr>],
     ml_hotplug = Some \<lparr>mr_address = 0x48000000, mr_size = 0x10000000\<rparr>\<rparr>"

theorem macos_layout_accepted_example:
  "\<exists>l h'. macos_layout calm_hv small_kernel 4096 small_config small_needs () = (Ok l, h') \<and> validate l small_config small_needs = Ok ()"
proof -
  have v: "virtio_regions 1 \<noteq> Panic" "\<exists>rs. virtio_regions 1 = Ok rs"
    by (simp_all add: virtio_regions_def VIRTIO_IRQ_BASE_def)
  then obtain rs where rs: "virtio_regions 1 = Ok rs" by blast
  have k: "small_config = \<lparr>memory_mib = 128, vcpu_count = 1, strict_mode = False\<rparr>" by (rule small_config_def)
  have h: "macos_hotplug \<lparr>mr_address = RAM, mr_size = 0x8000000\<rparr> (rq_hotplug small_needs) =
      Ok (Some \<lparr>mr_address = 0x48000000, mr_size = 0x10000000\<rparr>)"
    by (simp add: macos_hotplug_def small_needs_def RAM_def checked_add_def checked_next_multiple_of_def)
  have c: "check_ipa calm_hv [\<lparr>mr_address = RAM, mr_size = 0x8000000\<rparr>, \<lparr>mr_address = 0x48000000, mr_size = 0x10000000\<rparr>] () = (Ok (), ())"
    by (simp add: prog_defs ipa_bits_def hv_query_def check_def calm_hv_def validate_ipa_range_def checked_add_def RAM_def
        word_le_nat_alt word_less_nat_alt)
  have m: "max_vcpus calm_hv () = (Ok 8, ())" by (simp add: max_vcpus_def hv_query_def check_def calm_hv_def)
  have n: "length (rq_devices small_needs) = 1" by (simp add: small_needs_def)
  have "\<exists>l h'. macos_layout calm_hv small_kernel 4096 small_config small_needs () = (Ok l, h')"
    unfolding macos_layout_def k VmConfig.simps small_layout n rs Let_def
    by (simp add: bnd_def pure_res_def ret_def m h c word_le_nat_alt del: check_ipa.simps)
  then obtain l h' where l: "macos_layout calm_hv small_kernel 4096 small_config small_needs () = (Ok l, h')" by blast
  have "validate l small_config small_needs = Ok ()"
    by (rule macos_layout_accepted [OF l]) (simp_all add: small_needs_def)
  with l show ?thesis by blast
qed

definition running_vm :: "cpu_event list \<Rightarrow> unit macos_vm" where
  "running_vm evs = \<lparr>mv_cpus = Some (shared_new 1), mv_events = Some evs, mv_inner = ([(0x80000000, plug_region)], ()),
     mv_config = small_config, mv_boot = None\<rparr>"

section \<open>A machine\<close>

definition memory_mmio :: "(((nat \<Rightarrow> u8) disk, vmnet \<times> unit) Device, sample_queue) mmio" where
  "memory_mmio = \<lparr>device = DevMem plugged_device,
     queues = \<lparr>rings = [\<lparr>sq_ready = True, sq_size = 4, sq_next = 0, sq_desc = 0, sq_avail = 0, sq_used = 0\<rparr>],
       negotiated = push_bit 32 1 OR 2, interrupt = 0\<rparr>,
     feature_sel = 0, driver_sel = 0, queue_sel = 0, features = push_bit 32 1 OR 2, mstatus = 0xf, strict = False, rejected = 0\<rparr>"

abbreviation all_devices :: "(((nat \<Rightarrow> u8) disk, vmnet \<times> unit) Device, sample_queue, sample_mem) virtio_ops" where
  "all_devices \<equiv> device_ops sample (disk_ops flat_imago) (vmnet_ops quiet_vmnet)"

theorem transport_invariant_example:
  "\<exists>t t' m'. mmio_new sample all_devices (DevMem plug_device) = Ok t \<and>
     mmio_run sample all_devices [Write 0x70 1, Write 0x70 3, Write 0x70 0xb, Poll] (with_strict False t, flat_mem) = (t', m') \<and>
     length (rings (queues t')) = device_queue_count (device t')"
proof -
  obtain t where t: "mmio_new sample all_devices (DevMem plug_device) = Ok t"
    by (simp add: mmio_new_def sample_def)
  obtain t' m' where r: "mmio_run sample all_devices [Write 0x70 1, Write 0x70 3, Write 0x70 0xb, Poll] (with_strict False t, flat_mem) = (t', m')"
    by fastforce
  from transport_invariant [OF t r] t r show ?thesis by blast
qed

text \<open>A UART without input or output, and a guest image that is not needed.\<close>

definition calm_uart :: "unit uart_ops" where
  "calm_uart = \<lparr>ua_fifo_capacity = (\<lambda>u. 0), ua_recv = (\<lambda>n u. (Inr (0, []), u)), ua_enqueue = (\<lambda>bs u. (Inr (), u)),
     ua_read = (\<lambda>off u. (0, u)), ua_write = (\<lambda>off v u. (Inr (), u)), ua_interrupt_identification = (\<lambda>u. 1)\<rparr>"

definition small_boot :: "(sample_queue, sample_mem, unit) boot_env" where
  "small_boot = \<lparr>be_crates = sample, be_writer = \<lparr>fw_new = Inr (), fw_call = (\<lambda>c f. Inr f), fw_finish = (\<lambda>f. Inr [])\<rparr>,
     be_loader = (\<lambda>a bs m. (Inr a, m)), be_kernel = small_kernel, be_initrd = [], be_spawn = (\<lambda>i. None)\<rparr>"

text \<open>The vCPUs come to rest while the host waits for a pause.\<close>

definition settle :: "cpus \<Rightarrow> cpus" where
  "settle c = c\<lparr>running_flags := map (\<lambda>_. False) (running_flags c)\<rparr>"

definition calm_env ::
  "(nat \<Rightarrow> host_call list) \<Rightarrow> (unit macos_vm, (nat \<Rightarrow> u8) disk, vmnet \<times> unit, sample_queue, sample_mem, unit, access) env" where
  "calm_env calls = \<lparr>e_crates = sample, e_block = disk_ops flat_imago, e_net = vmnet_ops quiet_vmnet,
     e_platform = \<lparr>pl_layout = (\<lambda>config needs. fst (macos_layout calm_hv small_kernel 0 config needs ())),
       pl_create = (\<lambda>config. fst (macos_create calm_hv config ()))\<rparr>,
     e_vm = macos_ops calm_hv small_boot False settle [] [False], e_uart = calm_uart, e_alloc = (\<lambda>n. plug_alloc),
     e_from_regions = (\<lambda>rs. Inr flat_mem), e_others = (\<lambda>n. call_handles (calls n)), e_causes = (\<lambda>e. [])\<rparr>"

definition calm_world :: "(unit macos_vm, (nat \<Rightarrow> u8) disk, vmnet \<times> unit, sample_queue, sample_mem, unit) world" where
  "calm_world = \<lparr>w_rt = \<lparr>rt_vm = Some (running_vm []), rt_layout = small_machine, rt_devices = [memory_mmio], rt_base = [],
       rt_mapped = 0, rt_has_memory = True, rt_strict = False\<rparr>,
     w_view = flat_mem, w_uart = (), w_control = running (snd (begin_run 0 (control_new (Some plug_status)))), w_clock = 0\<rparr>"

text \<open>A read of the device's identification.\<close>

definition id_read :: "nat \<Rightarrow> access IoAccess" where
  "id_read n = \<lparr>a_space = SpaceMmio, a_address = 0x0a000000, a_width = n, a_write = False, a_value = 0,
     a_completion = \<lparr>ac_addr = 0x0a000000, ac_width = n, ac_write = False, ac_value = 0\<rparr>\<rparr>"

lemma id_window: "\<not> within (id_read n) (ml_uart small_machine)" "position (within (id_read n)) (ml_virtio small_machine) = Some 0"
  by (simp_all add: within_def id_read_def small_machine_def UART_def UART_SIZE_def checked_sub_def word_le_nat_alt)

lemmas calm_eval = calm_env_def calm_world_def handle_io_def bnd_def get_state_def ret_def Let_def id_window finish_io_def
  on_vm_def slot_level_iff macos_ops_def macos_set_irq_def on_inner_def zoom_snd_def spi_def hv_call_def check_def calm_hv_def
  running_vm_def on_slot_def set_device_def memory_mmio_def device_access_def access_value_def

theorem access_completed_after_line_example:
  "\<exists>w' v line level v1. handle_io (calm_env (\<lambda>n. [])) (id_read 4) calm_world = (Ok (), w') \<and>
     rt_vm (w_rt calm_world) = Some v \<and> line_of (calm_env (\<lambda>n. [])) (id_read 4) w' = Some (line, level) \<and>
     vm_set_irq (e_vm (calm_env (\<lambda>n. []))) line level v = (Ok (), v1)"
proof -
  have "fits (id_read 4) (ml_virtio small_machine ! 0)"
    by (simp add: fits_def id_read_def small_machine_def checked_add_def word_le_nat_alt)
  then have "fst (handle_io (calm_env (\<lambda>n. [])) (id_read 4) calm_world) = Ok ()"
    by (simp add: calm_eval) (simp add: id_read_def small_machine_def mmio_read_def ret_def)
  then obtain w' where w': "handle_io (calm_env (\<lambda>n. [])) (id_read 4) calm_world = (Ok (), w')" by (metis prod.collapse)
  from access_completed_after_line [OF w'] w' show ?thesis by blast
qed



end
