(* ===== verification/DemoScenarios.thy ===== *)
theory DemoScenarios
  imports Cli InProcess Scenarios
begin

text \<open>
  Concrete inputs for the theorems on the entry points, the demo program and the examples: an example run, a stream and a clock, a
  directory, a terminal, and what the theorems say of them.
\<close>

section \<open>The example program\<close>

text \<open>A UART that keeps what is written to it.\<close>

definition log_uart :: "bytes uart_ops" where
  "log_uart = \<lparr>ua_fifo_capacity = (\<lambda>u. 0), ua_recv = (\<lambda>n u. (Inr (0, []), u)), ua_enqueue = (\<lambda>bs u. (Inr (), u)),
     ua_read = (\<lambda>off u. (0, u)), ua_write = (\<lambda>off v u. (Inr (), u @ [v])), ua_interrupt_identification = (\<lambda>u. 1)\<rparr>"

definition two_mib :: region where
  "two_mib = \<lparr>r_start = 0x100000, r_len = 0x200000, r_ptr = 0, r_alloc = 0\<rparr>"

definition hello_env :: "(inproc_vm, (nat \<Rightarrow> u8) disk, unit, sample_queue, sample_mem, bytes, usize) env" where
  "hello_env = \<lparr>e_crates = sample, e_block = disk_ops flat_imago, e_net = no_net_ops, e_platform = inproc_platform,
     e_vm = inproc_ops, e_uart = log_uart, e_alloc = (\<lambda>n a l. Inr two_mib), e_from_regions = (\<lambda>rs. Inr flat_mem),
     e_others = (\<lambda>n. call_handles []), e_causes = (\<lambda>e. [])\<rparr>"

definition hello_world :: "(inproc_vm, (nat \<Rightarrow> u8) disk, unit, sample_queue, sample_mem, bytes) world" where
  "hello_world = \<lparr>w_rt = example_runtime, w_view = flat_mem, w_uart = [], w_control = control_new None, w_clock = 0\<rparr>"

lemma hello_laws: "example_env hello_env two_mib flat_mem" "console_law (e_uart hello_env) (\<lambda>u. True) id"
  "rt_devices (w_rt hello_world) = []" "w_control hello_world = control_new None" "w_uart hello_world = []"
  by (auto simp: example_env_def hello_env_def console_law_def log_uart_def console_recv_def call_handles_def hello_world_def
      example_runtime_def)

theorem hello_run_example: "\<exists>w'. example_main hello_env 0 hello_world = Some (Ok (), w') \<and> w_uart w' = hello \<and> length hello = 30"
  using hello_run [OF hello_laws(1,2) _ hello_laws(4,3), of 0] hello_laws(5) by (auto simp: length_hello)


section \<open>The test peer\<close>

text \<open>An ARP request for the peer's address.\<close>

definition arp_request :: bytes where
  "arp_request = [0xff, 0xff, 0xff, 0xff, 0xff, 0xff, 2, 0, 0, 0, 0, 1, 8, 6, 0, 1, 8, 0, 6, 4, 0, 1,
     2, 0, 0, 0, 0, 1, 192, 0, 2, 2, 0, 0, 0, 0, 0, 0, 192, 0, 2, 1]"

theorem peer_answers_valid_example:
  "\<exists>p. fst (peer_send sample (Host arp_request) (\<lparr>peer_replies = []\<rparr>, flat_mem)) = Ok True \<and>
    fst (snd (peer_send sample (Host arp_request) (\<lparr>peer_replies = []\<rparr>, flat_mem))) = p \<and>
    (\<exists>reply. peer_replies p = [reply] \<and> valid_arp arp_request reply)"
proof -
  have arp: "is_arp arp_request" "\<not> is_echo arp_request" by (simp_all add: is_arp_def is_echo_def arp_request_def sub_bytes_def PEER_IP_def)
  have "\<exists>reply. peer_answer arp_request = Ok (Some reply)"
    using arp by (simp add: peer_answer_def arp_reply_def put_at_def) (simp add: arp_request_def)
  then obtain reply where "peer_answer arp_request = Ok (Some reply)" by blast
  then have s: "peer_send sample (Host arp_request) (\<lparr>peer_replies = []\<rparr>, flat_mem) = (Ok True, \<lparr>peer_replies = [reply]\<rparr>, flat_mem)"
    by (simp add: peer_send_def)
  from peer_answers_valid [OF frame_bytes.simps(2) _ s] arp show ?thesis unfolding s by (auto simp: arp_request_def)
qed

section \<open>The guard\<close>

text \<open>Bound, and notified by a signal.\<close>

definition notified :: guard_sys where
  "notified = (guard_init None)\<lparr>gs_pc := Reading, gs_notes := 1\<rparr>"

lemma notified_reach: "guard_reach 9 notified"
proof -
  have "guard_reach 9 ((guard_init None)\<lparr>gs_pc := Reading\<rparr>)"
    by (rule guard_reach.step [OF guard_reach.init guard_step.binds]) (simp_all add: guard_init_def)
  from guard_reach.step [OF this guard_step.notifies] show ?thesis by (simp add: notified_def guard_init_def)
qed


text \<open>The VM is dropped without a run, then the guard, whose thread is still reading.\<close>

definition released :: guard_sys where
  "released = notified\<lparr>gs_vm := dropped False (control_new None), gs_owner := Done, gs_closing := True, gs_shut := True\<rparr>"

lemma released_reach: "guard_reach 9 released"
proof -
  have "guard_step 9 notified (notified\<lparr>gs_vm := dropped False (control_new None), gs_owner := Done\<rparr>)"
    by (rule guard_step.vm, simp only: notified_def guard_init_def guard_sys.simps control_step.drops)
      (simp add: dropped_def finish_def control_new_def)
  from guard_reach.step [OF guard_reach.step [OF guard_reach.step [OF notified_reach this] guard_step.closes] guard_step.shuts]
  show ?thesis by (simp add: released_def)
qed

theorem guard_drop_returns_example: "\<exists>g'. thread_step 9 released g' \<and> guard_rank (gs_pc g') < 3"
  using guard_drop_returns [OF released_reach]
  by (auto simp: released_def notified_def guard_init_def dropped_def finish_def control_new_def)

section \<open>Streams\<close>

text \<open>A stream by what the client still sends and what was written to it, under a clock that ticks with every poll.\<close>

definition pipe :: "(nat \<times> bytes \<times> bytes) stream_ops" where
  "pipe = \<lparr>st_now = (\<lambda>(t, i, out). (t, t, i, out)), st_poll = (\<lambda>k (t, i, out). (Inr 1, t + 1, i, out)),
     st_read = (\<lambda>(t, i, out). case i of [] \<Rightarrow> (Inr None, t, i, out) | b # bs \<Rightarrow> (Inr (Some b), t, bs, out)),
     st_set_write_timeout = (\<lambda>c. (Inr (), c)), st_write = (\<lambda>bs (t, i, out). (Inr (), t, i, out @ bs))\<rparr>"

definition pipe_input :: "nat \<times> bytes \<times> bytes \<Rightarrow> bytes" where
  "pipe_input = (\<lambda>(t, i, out). i)"

lemma pipe_laws: "clock_law pipe" "input_law pipe pipe_input" "delivers pipe pipe_input"
  by (auto simp: clock_law_def input_law_def delivers_def pipe_def pipe_input_def split: list.splits)

text \<open>A format in which only one word is a request, and every response has one letter.\<close>

definition word_json :: json_api where
  "word_json = \<lparr>js_from_slice = (\<lambda>bs. if bs = [115] then Inr Status else Inl ''expected value''), js_to_string = (\<lambda>r. Inr [115]),
     js_display = (\<lambda>v. [118]), js_value = (\<lambda>bs. Inr (success (vm_status (control_new None))))\<rparr>"

definition no_wait :: waiting where
  "no_wait P c = (if P c then Some c else None)"

lemma pipe_ops [simp]:
  "st_now pipe (t, i, out) = (t, t, i, out)" "st_poll pipe k (t, i, out) = (Inr 1, t + 1, i, out)"
  "st_read pipe (t, b # bs, out) = (Inr (Some b), t, bs, out)" "st_set_write_timeout pipe c = (Inr (), c)"
  "st_write pipe bs (t, i, out) = (Inr (), t, i, out @ bs)"
  by (simp_all add: pipe_def)

lemma served:
  "serve_connection word_json (\<lambda>e. []) pipe no_wait 1 ((0, [115, 10], []), control_new None) =
    Some (Ok (), (2, [], [118, 10]), control_new None)"
  by (simp add: serve_connection_def answer_def line_def line_loop.simps [of pipe] TIMEOUT_def LIMIT_def word_json_def
      handle_def perform_def response_of_def)



theorem client_gets_response_example:
  "client_request word_json pipe ''s'' (Inr (0, [118, 10], [])) Status = Some (Ok (success (vm_status (control_new None))))"
  by (rule client_gets_response [OF pipe_laws(3), where d = "[115]" and ?c1.0 = "(0, [118, 10], [])" and ?c2.0 = "(0, [118, 10], [115, 10])" and rest = "[]"])
    (simp_all add: word_json_def pipe_input_def)


section \<open>Files, a terminal and a command\<close>

text \<open>A directory as a map from names to identities, in which a new file gets the identity \<open>(1, 7)\<close>.\<close>

definition directory :: "(string \<Rightarrow> (nat \<times> nat) option) fs_ops" where
  "directory = \<lparr>fs_bind = (\<lambda>p f. if f p = None then (Inr (), f(p \<mapsto> (1, 7))) else (Inl (IoError OtherKind ''in use''), f)),
     fs_identity = (\<lambda>p f. case f p of None \<Rightarrow> Inl (IoError OtherKind ''not found'') | Some i \<Rightarrow> Inr i),
     fs_set_permissions = (\<lambda>p mode f. (Inr (), f)), fs_set_nonblocking = (\<lambda>f. (Inr (), f)), fs_spawn = (\<lambda>f. (Inr (), f)),
     fs_remove = (\<lambda>p f. (Inr (), f(p := None)))\<rparr>"

lemma directory_law: "files_law directory id"
  by (auto simp: files_law_def directory_def split: option.splits if_splits)

lemma directory_bind: "server_bind directory ''s'' (\<lambda>p. None) = (Ok \<lparr>sv_path = ''s'', sv_identity = (1, 7)\<rparr>, (\<lambda>p. None)(''s'' \<mapsto> (1, 7)))"
  by (simp add: server_bind_def directory_def prog_defs)

text \<open>A file that replaced the socket survives the server.\<close>

theorem socket_file_safe_example:
  "server_drop directory \<lparr>sv_path = ''s'', sv_identity = (1, 7)\<rparr> ((\<lambda>p. None)(''s'' \<mapsto> (1, 8))) = (\<lambda>p. None)(''s'' \<mapsto> (1, 8))"
  using socket_file_safe [OF directory_law directory_bind] by (auto dest!: spec [of _ "(\<lambda>p. None)(''s'' \<mapsto> (1, 8))"])


text \<open>A terminal by its mode, the input's flags and the registered handlers.\<close>

definition console_tty :: "(bool \<times> int \<times> nat list, bool) tty_ops" where
  "console_tty = \<lparr>ty_pair = (\<lambda>s. (Inr (), s)), ty_set_nonblocking = (\<lambda>s. (Inr (), s)), ty_clone = (\<lambda>s. (Inr (), s)),
     ty_register = (\<lambda>sig (m, f, r). (Inr (Suc (sum_list r)), m, f, Suc (sum_list r) # r)),
     ty_unregister = (\<lambda>i (m, f, r). (m, f, filter (\<lambda>x. x \<noteq> i) r)), ty_shutdown = id, ty_getfl = (\<lambda>(m, f, r). f), ty_isatty = (\<lambda>s. True),
     ty_tcgetattr = (\<lambda>(m, f, r). Inr m), ty_makeraw = (\<lambda>m. False), ty_tcsetattr = (\<lambda>x (m, f, r). (Inr (), x, f, r)),
     ty_setfl = (\<lambda>x (m, f, r). (Inr (), m, x, r)), ty_nonblock = 4, ty_read = (\<lambda>n s. (Inr [], s)), ty_notify = (\<lambda>s. (Inr (), s))\<rparr>"

abbreviation tty_mode :: "bool \<times> int \<times> nat list \<Rightarrow> bool" where "tty_mode \<equiv> fst"
abbreviation tty_flags :: "bool \<times> int \<times> nat list \<Rightarrow> int" where "tty_flags \<equiv> fst \<circ> snd"
abbreviation tty_handlers :: "bool \<times> int \<times> nat list \<Rightarrow> nat set" where "tty_handlers \<equiv> set \<circ> snd \<circ> snd"

lemma fresh_handler: "Suc (sum_list r) \<notin> set r"
proof
  assume "Suc (sum_list r) \<in> set r"
  then have "Suc (sum_list r) \<le> sum_list r" by (rule member_le_sum_list) simp
  then show False by simp
qed

lemma console_tty_law: "tty_law console_tty tty_mode tty_flags tty_handlers"
  by (auto simp: tty_law_def console_tty_def fresh_handler)

definition demo_console :: "(nat list, unit, bool \<times> int \<times> nat list, bool, string \<Rightarrow> (nat \<times> nat) option, nat \<Rightarrow> u8, sample_mem) demo_env" where
  "demo_console = \<lparr>dm_imago = flat_imago, dm_tty = console_tty, dm_spawned = Inr (), dm_files = directory,
     dm_builtin = False, dm_meanwhile = id\<rparr>"

definition demo_run_env :: "(inproc_vm, (nat \<Rightarrow> u8) disk, vmnet \<times> unit, sample_queue, sample_mem, bytes, usize) env" where
  "demo_run_env = \<lparr>e_crates = sample, e_block = disk_ops flat_imago, e_net = vmnet_ops quiet_vmnet, e_platform = inproc_platform,
     e_vm = inproc_ops, e_uart = log_uart, e_alloc = (\<lambda>n a l. Inr two_mib), e_from_regions = (\<lambda>rs. Inr flat_mem),
     e_others = (\<lambda>n. call_handles []), e_causes = (\<lambda>e. [])\<rparr>"

definition no_os :: "(nat, nat, nat \<Rightarrow> u8, nat list) disk_os" where
  "no_os = \<lparr>os_open = (\<lambda>p w os. (Inl (IoError OtherKind ''not found''), os)), os_is_file = (\<lambda>f os. (Inr False, os)),
     os_flock = (\<lambda>f e os. (Inr (), os)), os_read_exact_at = (\<lambda>f n off os. (Inr [], os)),
     os_try_clone = (\<lambda>f os. (Inr f, os)), os_image_file = (\<lambda>f os. (Inr f, os)),
     os_qcow2_open = (\<lambda>g w os. (Inr (\<lambda>a. 0), os)), os_close = (\<lambda>f os. f # os)\<rparr>"

definition bare_args :: run_args where
  "bare_args = \<lparr>ra_disk = [], ra_memory_mib = 512, ra_vcpus = 1, ra_virtio_mem_size_mib = None, ra_virtio_mem_block_size_mib = 2,
     ra_control_socket = Some ''s'', ra_read_only = False, ra_net = False, ra_lenient = False\<rparr>"

definition demo_start :: "(nat list, unit, bool \<times> int \<times> nat list, string \<Rightarrow> (nat \<times> nat) option, nat \<Rightarrow> u8) demo_host" where
  "demo_start = \<lparr>dh_disks = [], dh_net = (), dh_tty = (True, 2, [5]), dh_files = (\<lambda>p. None), dh_closed = []\<rparr>"

definition demo_world :: "(inproc_vm, (nat \<Rightarrow> u8) disk, vmnet \<times> unit, sample_queue, sample_mem, bytes) world" where
  "demo_world = \<lparr>w_rt = \<lparr>rt_vm = None, rt_layout = example_layout, rt_devices = [], rt_base = [], rt_mapped = 0,
       rt_has_memory = False, rt_strict = True\<rparr>, w_view = flat_mem, w_uart = [], w_control = control_new None, w_clock = 0\<rparr>"

lemma demo_returns:
  "\<exists>h' w'. run_machine no_os quiet_vmnet demo_console demo_run_env 0 bare_args (demo_start, demo_world) =
    Some (Err (DemoError.Vmm (VmmError.Platform PlatformError.NoDefaultPlatform)), h', w') \<and> w' \<noteq> demo_world"
proof -
  have t: "terminal_new console_tty (True, 2, [5]) =
      (Ok (\<lparr>tm_saved = Some True, tm_flags = 2\<rparr>, \<lparr>g_signals = [6, 12, 24], g_bound = False\<rparr>), False, 2 OR 4, [24, 12, 6, 5])"
    by (simp add: terminal_new_def guard_new_def stop_signals_def console_tty_def prog_defs set_raw_def set_input_def Let_def)
  have v: "vmm_run False demo_run_env 0 (vmm_new config [] None None ()) (demo_world\<lparr>w_control := control_new None\<rparr>) =
      Some (Err (VmmError.Platform PlatformError.NoDefaultPlatform), vmm_drop demo_run_env False False
        (snd (update_control demo_run_env (finish (outcome_of demo_run_env
          (Err (VmmError.Platform PlatformError.NoDefaultPlatform) :: (unit, VmmError) result)))
          (demo_world\<lparr>w_control := (control_new None)\<lparr>owner := Some 0, vm_lifecycle := VmStarting\<rparr>, w_clock := 1\<rparr>))))" for config
    by (simp add: vmm_run_def run_owned_def platform_run_def vmm_new_def on_control_def begin_run_def demo_run_env_def demo_world_def
        call_handles_def control_new_def put_status_def)
  have s: "vm_lifecycle (w_control (vmm_drop demo_run_env False False x)) \<noteq> vm_lifecycle (w_control demo_world)" for x
    by (simp add: vmm_drop_stopped demo_world_def control_new_def)
  have c: "ty_clone console_tty x = (Inr (), x)" "vmm_control (vmm_new config [] None None ()) = control_new None" for x config
    by (simp_all add: console_tty_def vmm_new_def)
  have b: "bind_socket directory (Some ''s'') (\<lambda>p. None) =
      (Ok (Some \<lparr>sv_path = ''s'', sv_identity = (1, 7)\<rparr>), (\<lambda>p. None)(''s'' \<mapsto> (1, 7)))"
    by (simp add: bind_socket_def prog_defs directory_bind)
  show ?thesis
    by (simp add: run_machine_def disk_paths_def bare_args_def demo_start_def demo_console_def t launch_def Let_def guard_bind_def
        c v b) (use s in metis)
qed


text \<open>A mapping that the hypervisor refuses, below the device that asked for it.\<close>

theorem diagnostic_exact_example:
  "diagnostic (vmm_chain (\<lambda>e. []) (VmmError.Device (DeviceError.Memory (MemoryError.Mapping
     (PlatformError.Hypervisor ''map'' 0xfae94001))))) = ''memory mapping: map: Hypervisor.framework error 0xfae94001''"
proof -
  let ?e = "VmmError.Device (DeviceError.Memory (MemoryError.Mapping (PlatformError.Hypervisor ''map'' 0xfae94001)))"
  have "diagnostic (vmm_chain (\<lambda>e. []) ?e) = hd (vmm_chain (\<lambda>e. []) ?e)"
    by (rule mp [OF conjunct2 [OF diagnostic_exact]]) (simp add: tidy_causes_def)
  also have "\<dots> = ''memory mapping: map: Hypervisor.framework error 0xfae94001''"
    by (simp add: caused_def lower_hex_def lower_hex_digits.simps lower_hex_digit_def digit_def char_of_def bit_Suc_0_iff)
  finally show ?thesis .
qed

end
