(* ===== verification/TestGuest.thy ===== *)
theory TestGuest
  imports Mmio
begin

text \<open>
  What the tests of the devices run on: a guest memory of 128 KiB and the split queues of virtio-queue, with descriptor
  table, available ring and used ring in that memory, little-endian. It satisfies the laws of the crates.
  The tests of the transport and of the block device have half of that memory and use none of the rest.
  A test is a program that panics where an assertion or an \<open>unwrap\<close> of the test fails.
\<close>

section \<open>Guest memory\<close>

type_synonym guest = "nat \<Rightarrow> u8"

definition guest_limit :: nat where
  "guest_limit = 0x20000"

definition load_bytes :: "nat \<Rightarrow> nat \<Rightarrow> guest \<Rightarrow> bytes" where
  "load_bytes a n m = map m [a ..< a + n]"

definition store_bytes :: "nat \<Rightarrow> bytes \<Rightarrow> guest \<Rightarrow> guest" where
  "store_bytes a bs m x = (if a \<le> x \<and> x < a + length bs then bs ! (x - a) else m x)"

definition in_guest :: "nat \<Rightarrow> nat \<Rightarrow> bool" where
  "in_guest a n \<longleftrightarrow> a + n \<le> guest_limit"

section \<open>Split queues\<close>

record guest_queue =
  gq_max :: u16
  gq_size :: u16
  gq_ready :: bool
  gq_desc :: u64
  gq_avail :: u64
  gq_used :: u64
  gq_next_avail :: u16
  gq_next_used :: u16

definition gq_reset :: "guest_queue \<Rightarrow> guest_queue" where
  "gq_reset q = \<lparr>gq_max = gq_max q, gq_size = gq_max q, gq_ready = False, gq_desc = 0, gq_avail = 0, gq_used = 0, gq_next_avail = 0,
     gq_next_used = 0\<rparr>"

definition gq_valid :: "guest_queue \<Rightarrow> bool" where
  "gq_valid q \<longleftrightarrow> gq_ready q \<and> in_guest (unat (gq_desc q)) (16 * unat (gq_size q)) \<and>
     in_guest (unat (gq_avail q)) (6 + 2 * unat (gq_size q)) \<and> in_guest (unat (gq_used q)) (6 + 8 * unat (gq_size q))"

definition half :: "u32 option \<Rightarrow> u32 option \<Rightarrow> u64 \<Rightarrow> u64" where
  "half lo hi a =
     (let a = (case lo of None \<Rightarrow> a | Some v \<Rightarrow> (a AND push_bit 32 0xffffffff) OR ucast v)
      in case hi of None \<Rightarrow> a | Some v \<Rightarrow> (a AND 0xffffffff) OR push_bit 32 (ucast v))"

definition guest_u16 :: "nat \<Rightarrow> guest \<Rightarrow> u16" where
  "guest_u16 a m = word_of_nat (le_nat (load_bytes a 2 m))"

definition guest_descriptor :: "nat \<Rightarrow> guest \<Rightarrow> descriptor" where
  "guest_descriptor a m =
     (let flags = guest_u16 (a + 12) m in
      \<lparr>d_addr = word_of_nat (le_nat (load_bytes a 8 m)), d_len = word_of_nat (le_nat (load_bytes (a + 8) 4 m)), d_flags = flags,
       d_next = guest_u16 (a + 14) m, d_has_next = (flags AND 1 \<noteq> 0), d_write_only = (flags AND 2 \<noteq> 0),
       d_indirect = (flags AND 4 \<noteq> 0)\<rparr>)"

definition gq_iter_next :: "guest_queue \<times> guest \<Rightarrow> (ext_error + u16 option) \<times> guest_queue \<times> guest" where
  "gq_iter_next = (\<lambda>(q, m).
     if guest_u16 (unat (gq_avail q) + 2) m = gq_next_avail q then (Inr None, q, m)
     else (Inr (Some (guest_u16 (unat (gq_avail q) + 4 + 2 * (unat (gq_next_avail q) mod unat (gq_size q))) m)),
           q\<lparr>gq_next_avail := gq_next_avail q + 1\<rparr>, m))"

definition gq_add_used :: "u16 \<Rightarrow> u32 \<Rightarrow> guest_queue \<times> guest \<Rightarrow> (ext_error + unit) \<times> guest_queue \<times> guest" where
  "gq_add_used i n = (\<lambda>(q, m).
     if gq_size q \<le> i then (Inl ''invalid descriptor index'', q, m)
     else let slot = unat (gq_used q) + 4 + 8 * (unat (gq_next_used q) mod unat (gq_size q));
              q = q\<lparr>gq_next_used := gq_next_used q + 1\<rparr>
          in (Inr (), q, store_bytes (unat (gq_used q) + 2) (le_bytes 2 (unat (gq_next_used q)))
                (store_bytes slot (le_bytes 4 (unat i) @ le_bytes 4 (unat n)) m)))"

definition guest :: "(guest_queue, guest) crates" where
  "guest = \<lparr>
     cm_check_range = (\<lambda>m a n. in_guest (unat a) n),
     cm_read_slice = (\<lambda>a n m. (if in_guest (unat a) n then Inr (load_bytes (unat a) n m) else Inl ''range'', m)),
     cm_write_slice = (\<lambda>a bs m. if in_guest (unat a) (length bs) then (Inr (), store_bytes (unat a) bs m) else (Inl ''range'', m)),
     cm_read_descriptor = (\<lambda>a m. (if in_guest (unat a) 16 then Inr (guest_descriptor (unat a) m) else Inl ''range'', m)),
     cm_get_slices = (\<lambda>m a n. [if in_guest (unat a) n then Inr \<lparr>vs_ptr = unat a, vs_len = n\<rparr> else Inl ''range'']),
     cm_subslice = (\<lambda>s off n. if off + n \<le> vs_len s then Some \<lparr>vs_ptr = vs_ptr s + off, vs_len = n\<rparr> else None),
     cm_copy_to = (\<lambda>s n m. (load_bytes (vs_ptr s) n m, m)),
     cm_copy_from = (\<lambda>s bs m. store_bytes (vs_ptr s) bs m),
     cm_insert_region = (\<lambda>m r. Inl ''fixed''),
     cm_remove_region = (\<lambda>m a n. Inl ''fixed''),
     cq_new = (\<lambda>n. Some \<lparr>gq_max = n, gq_size = n, gq_ready = False, gq_desc = 0, gq_avail = 0, gq_used = 0, gq_next_avail = 0, gq_next_used = 0\<rparr>),
     cq_ready = gq_ready,
     cq_set_ready = (\<lambda>b q. q\<lparr>gq_ready := b\<rparr>),
     cq_is_valid = (\<lambda>q m. gq_valid q),
     cq_reset = gq_reset,
     cq_size = gq_size,
     cq_try_set_size = (\<lambda>n q. if is_power_of_two n \<and> n \<le> gq_max q then (Inr (), q\<lparr>gq_size := n\<rparr>) else (Inl ''invalid size'', q)),
     cq_desc_table = gq_desc,
     cq_avail_ring = gq_avail,
     cq_used_ring = gq_used,
     cq_set_desc_table = (\<lambda>lo hi q. q\<lparr>gq_desc := half lo hi (gq_desc q)\<rparr>),
     cq_set_avail_ring = (\<lambda>lo hi q. q\<lparr>gq_avail := half lo hi (gq_avail q)\<rparr>),
     cq_set_used_ring = (\<lambda>lo hi q. q\<lparr>gq_used := half lo hi (gq_used q)\<rparr>),
     cq_next_avail = gq_next_avail,
     cq_set_next_avail = (\<lambda>n q. q\<lparr>gq_next_avail := n\<rparr>),
     cq_avail_idx = (\<lambda>q m. (Inr (guest_u16 (unat (gq_avail q) + 2) m), m)),
     cq_iter_next = gq_iter_next,
     cq_add_used = gq_add_used\<rparr>"

lemma guest_laws [simp]: "subslice_law guest" "get_slices_law guest" "copy_to_law guest" "queue_config_law guest"
  by (auto simp: guest_def subslice_law_def get_slices_law_def copy_to_law_def queue_config_law_def load_bytes_def gq_reset_def
      split: if_splits)

section \<open>Tests as programs\<close>

definition assert :: "bool \<Rightarrow> ('s, unit, 'e) prog" where
  "assert b s = (if b then (Ok (), s) else (Panic, s))"

definition is_err :: "('s, 'a, 'e) prog \<Rightarrow> ('s, unit, 'e) prog" where
  "is_err p s = (case p s of (r, s') \<Rightarrow> (case r of Err _ \<Rightarrow> Ok () | _ \<Rightarrow> Panic, s'))"

definition fails_with :: "'e \<Rightarrow> ('s, 'a, 'e) prog \<Rightarrow> ('s, unit, 'e) prog" where
  "fails_with e p s = (case p s of (r, s') \<Rightarrow> (if r = Err e then Ok () else Panic, s'))"

definition unwrapped :: "('s, 'a, 'e) prog \<Rightarrow> ('s, 'a, 'f) prog" where
  "unwrapped p s = (case p s of (r, s') \<Rightarrow> (case r of Ok x \<Rightarrow> Ok x | _ \<Rightarrow> Panic, s'))"

fun steps :: "('s, unit, 'e) prog list \<Rightarrow> ('s, unit, 'e) prog" where
  "steps [] s = (Ok (), s)"
| "steps (p # ps) s = (case p s of (r, s') \<Rightarrow> (case r of Ok _ \<Rightarrow> steps ps s' | Err e \<Rightarrow> (Err e, s') | Panic \<Rightarrow> (Panic, s')))"

definition passes :: "('s, 'e) result \<Rightarrow> ('s, unit, 'e) prog \<Rightarrow> bool" where
  "passes init p = (case init of Ok s \<Rightarrow> fst (p s) = Ok () | _ \<Rightarrow> False)"

text \<open>Rules that evaluate a program only once its state is known.\<close>

lemma at_state:
  "bnd f g s = (case f s of (r, s') \<Rightarrow> (case r of Ok x \<Rightarrow> g x s' | Err e \<Rightarrow> (Err e, s') | Panic \<Rightarrow> (Panic, s')))"
  "get_state s = (Ok s, s)" "modify h s = (Ok (), h s)" "ret x s = (Ok x, s)" "panic s = (Panic, s)" "throw e s = (Err e, s)"
  "pure_res r s = (r, s)"
  by (simp_all add: prog_defs split: prod.splits result.splits)

lemma le_bytes_values:
  "le_bytes 2 v = [word_of_nat (v mod 256), word_of_nat (v div 256 mod 256)]"
  "le_bytes 4 v = le_bytes 2 v @ le_bytes 2 (v div 256 div 256)"
  "le_bytes 8 v = le_bytes 4 v @ le_bytes 4 (v div 256 div 256 div 256 div 256)"
proof -
  have eqs: "(2 :: nat) = Suc (Suc 0)" "(4 :: nat) = Suc (Suc (Suc (Suc 0)))" "(8 :: nat) = Suc (Suc (Suc (Suc (Suc (Suc (Suc (Suc 0)))))))"
    by simp_all
  show "le_bytes 2 v = [word_of_nat (v mod 256), word_of_nat (v div 256 mod 256)]"
    "le_bytes 4 v = le_bytes 2 v @ le_bytes 2 (v div 256 div 256)"
    "le_bytes 8 v = le_bytes 4 v @ le_bytes 4 (v div 256 div 256 div 256 div 256)"
    by (simp_all only: eqs le_bytes.simps append.simps)
qed

text \<open>Reading what was written, byte by byte or as a whole.\<close>

lemma load_small:
  "load_bytes a 1 m = [m a]"
  "load_bytes a (Suc 0) m = [m a]"
  "load_bytes a 2 m = [m a, m (a + 1)]"
  "load_bytes a 4 m = [m a, m (a + 1), m (a + 2), m (a + 3)]"
  "load_bytes a 8 m = [m a, m (a + 1), m (a + 2), m (a + 3), m (a + 4), m (a + 5), m (a + 6), m (a + 7)]"
  "load_bytes a 16 m = load_bytes a 8 m @ load_bytes (a + 8) 8 m"
  by (simp_all add: load_bytes_def upt_rec numeral_eq_Suc)

lemma load_same: "length bs = n \<Longrightarrow> load_bytes a n (store_bytes a bs m) = bs"
  by (intro nth_equalityI) (auto simp: load_bytes_def store_bytes_def)

lemma load_inside: "b \<le> a \<Longrightarrow> a + n \<le> b + length bs \<Longrightarrow> load_bytes a n (store_bytes b bs m) = take n (drop (a - b) bs)"
  by (intro nth_equalityI) (auto simp: load_bytes_def store_bytes_def)

lemma load_other: "a + n \<le> b \<or> b + length bs \<le> a \<Longrightarrow> load_bytes a n (store_bytes b bs m) = load_bytes a n m"
  by (auto simp: load_bytes_def store_bytes_def)

lemma u64_max_value: "u64_max = 18446744073709551615"
  by (simp add: u64_max_def)

lemmas test_prog_defs = at_state assert_def is_err_def fails_with_def unwrapped_def

section \<open>The driver\<close>

definition drive :: "('d, guest_queue, guest) virtio_ops \<Rightarrow> u64 \<Rightarrow> u32 \<Rightarrow> (('d, guest_queue) mmio \<times> guest, unit, DeviceError) prog" where
  "drive V offset value s = mmio_write guest V offset value s"

definition initialize_queue :: "('d, guest_queue, guest) virtio_ops \<Rightarrow> u32 \<Rightarrow> (('d, guest_queue) mmio \<times> guest, unit, DeviceError) prog" where
  "initialize_queue V index =
     (let base = 0x1000 + index * 0x3000 in
      steps [drive V 0x30 index, drive V 0x38 8, drive V 0x80 base, drive V 0x90 (base + 0x1000), drive V 0xa0 (base + 0x2000), drive V 0x44 1])"

definition initialize :: "('d, guest_queue, guest) virtio_ops \<Rightarrow> (('d, guest_queue) mmio \<times> guest, unit, DeviceError) prog" where
  "initialize V s = unwrapped (steps ([
     drive V 0x70 1, drive V 0x70 3, drive V 0x24 1, drive V 0x20 1, drive V 0x24 0, drive V 0x20 (ucast (features (fst s))), drive V 0x70 11] @
     map (\<lambda>i. initialize_queue V (word_of_nat i)) [0 ..< length (rings (queues (fst s)))] @ [drive V 0x70 15])) s"

lemma guest_eq [simp]:
  "cq_ready guest = gq_ready" "cq_is_valid guest q m = gq_valid q" "cq_reset guest = gq_reset"
  "cq_set_ready guest b q = q\<lparr>gq_ready := b\<rparr>" "cq_size guest = gq_size"
  "cq_try_set_size guest n q = (if is_power_of_two n \<and> n \<le> gq_max q then (Inr (), q\<lparr>gq_size := n\<rparr>) else (Inl ''invalid size'', q))"
  "cq_set_desc_table guest lo hi q = q\<lparr>gq_desc := half lo hi (gq_desc q)\<rparr>"
  "cq_set_avail_ring guest lo hi q = q\<lparr>gq_avail := half lo hi (gq_avail q)\<rparr>"
  "cq_set_used_ring guest lo hi q = q\<lparr>gq_used := half lo hi (gq_used q)\<rparr>"
  "cq_add_used guest = gq_add_used" "cq_desc_table guest = gq_desc" "cq_avail_ring guest = gq_avail" "cq_used_ring guest = gq_used"
  "cq_next_avail guest = gq_next_avail" "cq_set_next_avail guest n q = q\<lparr>gq_next_avail := n\<rparr>" "cq_avail_idx guest q m = (Inr (guest_u16 (unat (gq_avail q) + 2) m), m)"
  "cq_iter_next guest = gq_iter_next" "cm_check_range guest m a k = in_guest (unat a) k"
  "cm_read_descriptor guest a m = (if in_guest (unat a) 16 then Inr (guest_descriptor (unat a) m) else Inl ''range'', m)"
  by (simp_all add: guest_def)

lemma drive_eq: "drive V offset value (t, m) =
  (if offset = 0x50 then
     (if active t \<and> unat value < length (rings (queues t)) \<and> gq_ready (rings (queues t) ! unat value)
      then run_contained (vd_notify V (unat value)) (t, m) else (Ok (), t, m))
   else case configure guest V offset value m t of (r, t') \<Rightarrow>
     (case r of Err e \<Rightarrow> if \<not> strict t' \<and> is_guest e then (Ok (), t'\<lparr>rejected := rejected t' + 1\<rparr>, m) else (Err e, t', m)
      | Ok x \<Rightarrow> (Ok x, t', m) | Panic \<Rightarrow> (Panic, t', m)))"
  by (simp add: drive_def mmio_write_def guest_def split: prod.splits result.splits)

lemma contained_eq: "run_contained f (t, m) = (case f (device t, queues t, m) of (r, d, qs, m') \<Rightarrow>
    (case contain r (t\<lparr>device := d, queues := qs\<rparr>) of (x, t') \<Rightarrow>
      (case x of Ok _ \<Rightarrow> Ok () | Err e \<Rightarrow> Err e | Panic \<Rightarrow> Panic, t', m')))"
  by (simp add: run_contained_def split: prod.splits result.splits)

lemma ext_at_state:
  "call_ext w f s = (case f s of (r, s') \<Rightarrow> (case r of Inl e \<Rightarrow> Err (w e) | Inr x \<Rightarrow> Ok x, s'))"
  "zoom_snd g (a, s) = (case g s of (r, s') \<Rightarrow> (r, a, s'))"
  by (simp_all add: call_ext_def zoom_snd_def split: prod.splits sum.splits)

lemma pop_walk_step: "pop_walk C q (numeral k) first index descs m =
  (if index \<ge> cq_size C q then (Err (DeviceError.DescriptorIndexOutOfRange index (cq_size C q)), m)
   else case read_descriptor C q index m of (r, m') \<Rightarrow> (case r of
     Ok d \<Rightarrow>
       (if d_indirect d then (Err DeviceError.UnnegotiatedIndirectDescriptor, m')
        else if \<not> (d_flags d AND NOT 3 = 0 \<and> cm_check_range C m' (d_addr d) (unat (d_len d)))
        then (Err (DeviceError.InvalidDescriptorFlagsRange (d_addr d) (d_len d) (d_flags d)), m')
        else if \<not> d_has_next d then (Ok (Some \<lparr>head = first, descriptors = descs @ [d]\<rparr>), m')
        else pop_walk C q (pred_numeral k) first (d_next d) (descs @ [d]) m')
   | Err e \<Rightarrow> (Err e, m') | Panic \<Rightarrow> (Panic, m')))"
  by (simp add: numeral_eq_Suc prog_defs split: prod.splits result.splits)

lemma loop_step: "loop_upto (numeral k) body s = (case body s of (r, s') \<Rightarrow> (case r of
    Ok go \<Rightarrow> if go then loop_upto (pred_numeral k) body s' else (Ok (), s') | Err e \<Rightarrow> (Err e, s') | Panic \<Rightarrow> (Panic, s')))"
  by (simp add: numeral_eq_Suc prog_defs split: prod.splits result.splits)

lemmas queue_eqs = available_def pinned_def pinned_queue_def pop_def pop_walk_step read_descriptor_def ext_at_state on_ring_def guest_u16_def
  load_small store_bytes_def guest_descriptor_def gq_iter_next_def Let_def upt_rec

lemmas transport_eqs = drive_eq contained_eq configure_def configure_queue_def configure_status_def accepted_status_def acceptable_def
  queue_registers_def active_def set_ring_def MAX_QUEUE_def DRIVER_OK_def FEATURES_OK_def NEEDS_RESET_def VERSION_1_def
  guest_limit_def in_guest_def gq_valid_def gq_reset_def half_def is_power_of_two_def

lemma small_words [simp]: "\<not> (8 :: u16) \<le> 1" "\<not> (8 :: u16) \<le> 0"
  by (simp_all add: word_le_nat_alt)

lemma guest_memory_at [simp]:
  "cm_write_slice guest a bs m = (if in_guest (unat a) (length bs) then (Inr (), store_bytes (unat a) bs m) else (Inl ''range'', m))"
  "cm_get_slices guest m a n = [if in_guest (unat a) n then Inr \<lparr>vs_ptr = unat a, vs_len = n\<rparr> else Inl ''range'']"
  "cm_subslice guest s off n = (if off + n \<le> vs_len s then Some \<lparr>vs_ptr = vs_ptr s + off, vs_len = n\<rparr> else None)"
  "cm_copy_to guest s n m = (load_bytes (vs_ptr s) n m, m)"
  "cm_copy_from guest s bs m = store_bytes (vs_ptr s) bs m"
  by (simp_all add: guest_def)

end
