(* ===== verification/MmioTests.thy ===== *)
theory MmioTests
  imports TestGuest
begin

text \<open>
  The unit tests of the transport (\<open>devices/mmio.rs\<close>): the fake device with two queues, and each
  test as a program on device and guest memory. Lemmas: the model passes every test.
\<close>

record fake_device =
  fd_notifications :: nat
  fd_polls :: nat
  fd_resets :: nat
  fd_error :: "DeviceError option"

type_synonym fake_mmio = "(fake_device, guest_queue) mmio"

type_synonym mmio_test = "(fake_mmio \<times> guest, unit, DeviceError) prog"

definition fake_ops :: "(fake_device, guest_queue, guest) virtio_ops" where
  "fake_ops = \<lparr>
     vd_required_features = (\<lambda>d. 0),
     vd_generation = (\<lambda>d. 0),
     vd_device_id = (\<lambda>d. 42),
     vd_features = (\<lambda>d. 0),
     vd_queue_count = (\<lambda>d. 2),
     vd_read_config = (\<lambda>d. read_config [0x12, 0x34, 0x56]),
     vd_notify = (\<lambda>i (d, s). (case fd_error d of None \<Rightarrow> Ok () | Some e \<Rightarrow> Err e, d\<lparr>fd_notifications := fd_notifications d + 1\<rparr>, s)),
     vd_poll = (\<lambda>(d, s). (case fd_error d of None \<Rightarrow> Ok () | Some e \<Rightarrow> Err e, d\<lparr>fd_polls := fd_polls d + 1\<rparr>, s)),
     vd_reset = (\<lambda>d. (Ok (), d\<lparr>fd_resets := fd_resets d + 1\<rparr>)),
     vd_flush = (\<lambda>d. (Ok (), d))\<rparr>"

definition fake_setup :: "(fake_mmio \<times> guest, DeviceError) result" where
  "fake_setup = and_then (mmio_new guest fake_ops \<lparr>fd_notifications = 0, fd_polls = 0, fd_resets = 0, fd_error = None\<rparr>)
     (\<lambda>t. Ok (t, (\<lambda>a. 0)))"

definition wr :: "u64 \<Rightarrow> u32 \<Rightarrow> mmio_test" where
  "wr offset value s = drive fake_ops offset value s"

definition holds :: "(fake_mmio \<Rightarrow> bool) \<Rightarrow> mmio_test" where
  "holds P s = (if P (fst s) then (Ok (), s) else (Panic, s))"

definition rd :: "fake_mmio \<Rightarrow> u64 \<Rightarrow> usize \<Rightarrow> u64 option" where
  "rd t offset width = mmio_read guest fake_ops t offset width"

definition poke :: "(fake_mmio \<Rightarrow> fake_mmio) \<Rightarrow> mmio_test" where
  "poke f s = (Ok (), f (fst s), snd s)"

definition with_queues :: "(guest_queue queues \<times> guest, 'a, DeviceError) prog \<Rightarrow> (fake_mmio \<times> guest, 'a, DeviceError) prog" where
  "with_queues p s = (case p (queues (fst s), snd s) of (r, qs, m) \<Rightarrow> (r, (fst s)\<lparr>queues := qs\<rparr>, m))"

section \<open>The tests\<close>

definition test_registers_negotiation_and_reset :: mmio_test where
  "test_registers_negotiation_and_reset = steps [
     holds (\<lambda>t. rd t 0 4 = Some 0x74726976 \<and> rd t 8 4 = Some 42),
     holds (\<lambda>t. rd t 0x100 4 = Some 0x563412 \<and> rd t 0x101 2 = Some 0x5634 \<and> rd t 0x200 8 = Some 0),
     holds (\<lambda>t. rd t u64_max 8 = None \<and> rd t 0x100 0 = None \<and> rd t 0x100 3 = None \<and> rd t 0x70 2 = None \<and> rd t 0xffc 8 = None),
     wr 0x50 0,
     holds (\<lambda>t. fd_notifications (device t) = 0),
     initialize fake_ops,
     wr 0x50 1,
     holds (\<lambda>t. fd_notifications (device t) = 1),
     wr 0x50 2,
     holds (\<lambda>t. fd_notifications (device t) = 1),
     wr 0x30 0xffffffff,
     holds (\<lambda>t. rd t 0x34 4 = Some 0 \<and> rd t 0x44 4 = Some 0),
     wr 0x30 0,
     is_err (wr 0x38 4),
     is_err (wr 0x70 3),
     with_queues (complete guest 0 0 12),
     with_queues (complete guest 1 0 0),
     holds interrupt_pending,
     wr 0x64 1,
     holds (\<lambda>t. \<not> interrupt_pending t),
     wr 0x70 0,
     holds (\<lambda>t. fd_resets (device t) = 1 \<and> negotiated (queues t) = 0 \<and>
       list_all (\<lambda>q. \<not> gq_ready q \<and> gq_next_used q = 0) (rings (queues t))),
     initialize fake_ops,
     holds (\<lambda>t. mstatus t = 15)]"

definition test_rejects_unknown_features :: mmio_test where
  "test_rejects_unknown_features = steps [
     wr 0x70 3,
     wr 0x24 1,
     wr 0x20 3,
     wr 0x70 11,
     holds (\<lambda>t. mstatus t AND 8 = 0),
     is_err (wr 0x70 15),
     wr 0x70 0,
     initialize fake_ops,
     poke (\<lambda>t. t\<lparr>mstatus := 11, queues := (queues t)\<lparr>rings := (rings (queues t))[1 := (rings (queues t) ! 1)\<lparr>gq_ready := False\<rparr>]\<rparr>\<rparr>),
     is_err (wr 0x70 15)]"

text \<open>Every guest-visible register of the transport.\<close>

definition all_registers :: "fake_mmio \<Rightarrow> u64 option list" where
  "all_registers t = map (\<lambda>i. rd t (word_of_nat (4 * i)) 4) [0 ..< 64]"

definition rejected_case :: "bool \<Rightarrow> (u64 \<times> u32) list \<Rightarrow> u64 \<Rightarrow> u32 \<Rightarrow> mmio_test" where
  "rejected_case strict_mode before offset value = steps [
     steps (map (\<lambda>(o', v). wr o' v) before),
     bnd get_state (\<lambda>(t, _). steps [
       (if strict_mode then is_err (wr offset value) else wr offset value),
       holds (\<lambda>t'. all_registers t' = all_registers t \<and> negotiated (queues t') = negotiated (queues t) \<and> mstatus t' = 3 \<and>
         \<not> gq_ready (rings (queues t') ! 0))])]"

definition test_rejected_writes_change_nothing :: "bool \<Rightarrow> mmio_test" where
  "test_rejected_writes_change_nothing strict_mode = steps [
     poke (with_strict strict_mode),
     wr 0x70 3,
     wr 0x24 1,
     wr 0x20 3,
     rejected_case strict_mode [] 0x70 15,
     rejected_case strict_mode [] 0x70 1,
     rejected_case strict_mode [(0x80, 0xfffff000)] 0x44 1,
     rejected_case strict_mode [] 0x44 2,
     rejected_case strict_mode [] 0x38 3,
     rejected_case strict_mode [] 0x38 129,
     holds (\<lambda>t. rejected t = (if strict_mode then 0 else 6)),
     wr 0x70 11,
     holds (\<lambda>t. mstatus t = 3)]"

definition write_u16 :: "nat \<Rightarrow> u16 \<Rightarrow> mmio_test" where
  "write_u16 a v s = (Ok (), fst s, store_bytes a (le_bytes 2 (unat v)) (snd s))"

definition test_queues_disable_after_driver_ok :: mmio_test where
  "test_queues_disable_after_driver_ok = steps [
     initialize fake_ops,
     wr 0x30 0,
     wr 0x44 0,
     holds (\<lambda>t. rd t 0x44 4 = Some 0),
     fails_with DeviceError.QueueConfigurationAfterDriverOk (wr 0x44 1),
     is_err (wr 0x38 8),
     wr 0x70 (15 OR 0x80),
     poke (\<lambda>t. t\<lparr>mstatus := 15\<rparr>),
     wr 0x50 0,
     holds (\<lambda>t. fd_notifications (device t) = 0),
     wr 0x50 1,
     holds (\<lambda>t. fd_notifications (device t) = 1),
     write_u16 0x2002 9,
     bnd (with_queues (available guest 0)) (\<lambda>n. assert (n = 0)),
     (\<lambda>(t, m). assert (fst (pinned guest (queues t) m) = Ok [(0x4000, 128), (0x5000, 22), (0x6000, 70)]) (t, m)),
     bnd (with_queues (pop guest 0)) (\<lambda>c. assert (c = None))]"

definition guest_fault :: DeviceError where
  "guest_fault = DeviceError.CyclicDescriptorChain"

definition host_fault :: DeviceError where
  "host_fault = DeviceError.Storage (StorageError.Backend ''host'')"

definition set_error :: "DeviceError \<Rightarrow> mmio_test" where
  "set_error e = poke (\<lambda>t. t\<lparr>device := (device t)\<lparr>fd_error := Some e\<rparr>\<rparr>)"

definition poll :: mmio_test where
  "poll s = mmio_poll fake_ops s"

definition test_lenient_isolates :: mmio_test where
  "test_lenient_isolates = steps [
     poke (with_strict False),
     initialize fake_ops,
     set_error guest_fault,
     wr 0x50 0,
     holds (\<lambda>t. rd t 0x70 4 = Some 0x4f \<and> rd t 0x60 4 = Some 2),
     wr 0x50 0,
     poll,
     holds (\<lambda>t. fd_notifications (device t) = 1 \<and> fd_polls (device t) = 0),
     wr 0x70 15,
     holds (\<lambda>t. mstatus t = 0x4f),
     wr 0x70 (0x4f OR 0x80),
     wr 0x70 0,
     holds (\<lambda>t. mstatus t = 0 \<and> rd t 0x60 4 = Some 0),
     initialize fake_ops,
     poll,
     holds needs_reset,
     wr 0x70 0,
     wr 0x70 1,
     (\<lambda>(t, m). case contain (Err guest_fault :: (unit, DeviceError) result) t of (r, t) \<Rightarrow> assert (r = Ok None) (t, m)),
     holds (\<lambda>t. mstatus t = 0x41 \<and> rd t 0x60 4 = Some 0),
     wr 0x70 0,
     initialize fake_ops,
     set_error host_fault,
     bnd get_state (\<lambda>s. assert (case fst (wr 0x50 0 s) of Err (DeviceError.Storage _) \<Rightarrow> True | _ \<Rightarrow> False)),
     is_err (wr 0x50 0),
     is_err poll,
     holds (\<lambda>t. \<not> needs_reset t)]"

definition test_strict_returns_guest_errors :: mmio_test where
  "test_strict_returns_guest_errors = steps [initialize fake_ops, set_error guest_fault, is_err (wr 0x50 0), holds (\<lambda>t. mstatus t = 15)]"

definition write_descriptor :: "nat \<Rightarrow> u64 \<Rightarrow> u32 \<Rightarrow> u16 \<Rightarrow> u16 \<Rightarrow> mmio_test" where
  "write_descriptor a addr len flags nxt s = (Ok (), fst s,
     store_bytes a (le_bytes 8 (unat addr) @ le_bytes 4 (unat len) @ le_bytes 2 (unat flags) @ le_bytes 2 (unat nxt)) (snd s))"

definition test_descriptor_validation :: "u16 \<Rightarrow> u16 \<Rightarrow> u64 \<Rightarrow> DeviceError \<Rightarrow> mmio_test" where
  "test_descriptor_validation flags nxt addr e = steps [
     initialize fake_ops,
     write_descriptor 0x1000 addr 16 flags nxt,
     write_u16 0x2002 1,
     fails_with e (with_queues (pop guest 0))]"

definition test_queue_memory :: mmio_test where
  "test_queue_memory = steps [
     initialize fake_ops,
     write_u16 0x2002 9,
     is_err (with_queues (available guest 0)),
     wr 0x70 0,
     fails_with (DeviceError.QueueTooLarge 129 128) (wr 0x38 129),
     is_err (wr 0x38 3),
     wr 0x80 0xfffff000,
     is_err (wr 0x44 1)]"

section \<open>The model passes the tests\<close>

lemma two_times: "replicate 2 x = [x, x]"
  by (simp add: numeral_eq_Suc)

definition fresh_ring :: guest_queue where
  "fresh_ring = \<lparr>gq_max = 128, gq_size = 128, gq_ready = False, gq_desc = 0, gq_avail = 0, gq_used = 0, gq_next_avail = 0, gq_next_used = 0\<rparr>"

lemma fake_setup_value: "fake_setup = Ok (\<lparr>device = \<lparr>fd_notifications = 0, fd_polls = 0, fd_resets = 0, fd_error = None\<rparr>,
    queues = \<lparr>rings = [fresh_ring, fresh_ring], negotiated = 0, interrupt = 0\<rparr>, feature_sel = 0, driver_sel = 0, queue_sel = 0,
    features = 0x100000000, mstatus = 0, strict = True, rejected = 0\<rparr>, \<lambda>a. 0)"
  by (simp add: fake_setup_def mmio_new_def guest_def fake_ops_def MAX_QUEUE_def VERSION_1_def two_times fresh_ring_def)

lemma fake_ops_eq [simp]:
  "vd_required_features fake_ops d = 0" "vd_generation fake_ops d = 0" "vd_device_id fake_ops d = 42"
  "vd_read_config fake_ops d = read_config [0x12, 0x34, 0x56]"
  "vd_notify fake_ops i (d, s) = (case fd_error d of None \<Rightarrow> Ok () | Some e \<Rightarrow> Err e, d\<lparr>fd_notifications := fd_notifications d + 1\<rparr>, s)"
  "vd_poll fake_ops (d, s) = (case fd_error d of None \<Rightarrow> Ok () | Some e \<Rightarrow> Err e, d\<lparr>fd_polls := fd_polls d + 1\<rparr>, s)"
  "vd_reset fake_ops d = (Ok (), d\<lparr>fd_resets := fd_resets d + 1\<rparr>)"
  by (simp_all add: fake_ops_def)

lemma registers_ignore_rejected: "n \<noteq> 0 \<Longrightarrow>
  all_registers \<lparr>device = d, queues = qs, feature_sel = f, driver_sel = g, queue_sel = k, features = fs, mstatus = st, strict = b, rejected = n\<rparr> =
  all_registers \<lparr>device = d, queues = qs, feature_sel = f, driver_sel = g, queue_sel = k, features = fs, mstatus = st, strict = b, rejected = 0\<rparr>"
  by (simp only: all_registers_def rd_def mmio_read_def mmio.simps)

lemmas driver_eqs = wr_def initialize_def initialize_queue_def upt_rec holds_def poke_def test_prog_defs rd_def with_queues_def

lemma rejects_unknown_features: "passes fake_setup test_rejects_unknown_features"
  by (simp add: passes_def fake_setup_value fresh_ring_def test_rejects_unknown_features_def driver_eqs transport_eqs)

lemma registers_negotiation_and_reset: "passes fake_setup test_registers_negotiation_and_reset"
  by (simp add: passes_def fake_setup_value fresh_ring_def test_registers_negotiation_and_reset_def driver_eqs transport_eqs
      mmio_read_def read_config_def upt_rec u64_max_value complete_def on_ring_def gq_add_used_def interrupt_pending_def le_bytes_values)

lemma rejected_writes_change_nothing: "passes fake_setup (test_rejected_writes_change_nothing strict_mode)"
  by (cases strict_mode; simp add: passes_def fake_setup_value fresh_ring_def test_rejected_writes_change_nothing_def rejected_case_def
      driver_eqs transport_eqs registers_ignore_rejected with_strict_def)

lemma queues_disable_after_driver_ok: "passes fake_setup test_queues_disable_after_driver_ok"
  by (simp add: passes_def fake_setup_value fresh_ring_def test_queues_disable_after_driver_ok_def driver_eqs transport_eqs
      mmio_read_def write_u16_def queue_eqs le_bytes_values)

lemma lenient_isolates: "passes fake_setup test_lenient_isolates"
  by (simp add: passes_def fake_setup_value fresh_ring_def test_lenient_isolates_def driver_eqs transport_eqs set_error_def guest_fault_def
      host_fault_def poll_def mmio_poll_def mmio_read_def with_strict_def config_changed_def needs_reset_def)

lemma strict_returns_guest_errors: "passes fake_setup test_strict_returns_guest_errors"
  by (simp add: passes_def fake_setup_value fresh_ring_def test_strict_returns_guest_errors_def driver_eqs transport_eqs set_error_def
      guest_fault_def)

lemma queue_memory: "passes fake_setup test_queue_memory"
  by (simp add: passes_def fake_setup_value fresh_ring_def test_queue_memory_def driver_eqs transport_eqs write_u16_def queue_eqs
      le_bytes_values)

lemma descriptor_validation:
  "passes fake_setup (test_descriptor_validation 1 9 0x8000 (DeviceError.DescriptorIndexOutOfRange 9 8))"
  "passes fake_setup (test_descriptor_validation 1 0 0x8000 DeviceError.CyclicDescriptorChain)"
  "passes fake_setup (test_descriptor_validation 4 0 0x8000 DeviceError.UnnegotiatedIndirectDescriptor)"
  "passes fake_setup (test_descriptor_validation 8 0 0x8000 (DeviceError.InvalidDescriptorFlagsRange 0x8000 16 8))"
  "passes fake_setup (test_descriptor_validation 0 0 u64_max (DeviceError.InvalidDescriptorFlagsRange u64_max 16 0))"
  by (simp_all add: passes_def fake_setup_value fresh_ring_def test_descriptor_validation_def driver_eqs transport_eqs write_u16_def
      write_descriptor_def queue_eqs le_bytes_values u64_max_value)

end
