(* ===== verification/MemoryTests.thy ===== *)
theory MemoryTests
  imports VirtioMem TestGuest
begin

text \<open>
  The unit tests of dynamic memory (\<open>devices/memory.rs\<close>), except the one that drives the device through its queue: the two
  helpers under \<open>cfg(test)\<close>, the fake mapper, and each test as the conjunction of what it asserts, in its order.
  Guest memory is a list of regions with one byte per address; an allocation is identified by the address it was made for.
  Lemmas: the model passes every test.
\<close>

section \<open>Helpers\<close>

definition rounded_up :: "u64 \<Rightarrow> u64 \<Rightarrow> u64 option" where
  "rounded_up a b = (if b = 0 then None else if a mod b = 0 then Some a else checked_add a (b - a mod b))"

definition attach :: "u64 \<Rightarrow> (virtio_mem, unit, MemoryError) prog" where
  "attach base_mib =
     bnd (pure_res (mib_bytes base_mib)) (\<lambda>base.
     bnd get_state (\<lambda>v.
     bnd (pure_res (ok_or (Option.bind (checked_add 0x40000000 base) (\<lambda>x. rounded_up x (alignment v)))
       MemoryError.HotplugOverflow)) attach_at))"

definition validate_ipa :: "u32 \<Rightarrow> virtio_mem \<Rightarrow> (unit, MemoryError) result" where
  "validate_ipa bits v =
     (case checked_add (vstart v) (capacity v) of
        Some e \<Rightarrow> if bits = 64 \<or> e \<le> push_bit (unat bits) 1 then Ok () else Err MemoryError.IpaOverflow
      | None \<Rightarrow> Err MemoryError.IpaOverflow)"

text \<open>The mapper of the tests: it fails at the calls it is told to.\<close>

record fake =
  fk_mapped :: "(u64, region) btree"
  fk_calls :: nat
  fk_fail :: "nat list"

definition fake_default :: fake where
  "fake_default = \<lparr>fk_mapped = [], fk_calls = 0, fk_fail = []\<rparr>"

definition fake_map :: "region \<Rightarrow> (fake, unit, MemoryError) prog" where
  "fake_map r f =
     (let f = f\<lparr>fk_calls := fk_calls f + 1\<rparr> in
      if fk_calls f \<in> set (fk_fail f) then (Err (MemoryError.Backend ''injected map failure''), f)
      else (if bt_get (fk_mapped f) (r_start r) = None then Ok () else Panic, f\<lparr>fk_mapped := bt_insert (r_start r) r (fk_mapped f)\<rparr>))"

definition fake_unmap :: "region \<Rightarrow> (fake, unit, MemoryError) prog" where
  "fake_unmap r f =
     (let f = f\<lparr>fk_calls := fk_calls f + 1\<rparr> in
      if fk_calls f \<in> set (fk_fail f) then (Err (MemoryError.Backend ''injected unmap failure''), f)
      else case bt_get (fk_mapped f) (r_start r) of
        None \<Rightarrow> (Err (MemoryError.Backend ''not mapped''), f)
      | Some m \<Rightarrow> (if r_ptr m = r_ptr r then Ok () else Panic, f\<lparr>fk_mapped := bt_remove (r_start r) (fk_mapped f)\<rparr>))"

definition fake_mapper :: "fake mapper_ops" where
  "fake_mapper = \<lparr>mp_map = fake_map, mp_unmap = fake_unmap\<rparr>"

text \<open>Guest memory by its regions.\<close>

record view =
  vw_regions :: "region list"
  vw_bytes :: "u64 \<Rightarrow> u8"

definition view_insert :: "view \<Rightarrow> region \<Rightarrow> ext_error + view" where
  "view_insert m r =
     (if list_ex (\<lambda>x. r_start x < r_start r + r_len r \<and> r_start r < r_start x + r_len x) (vw_regions m) then Inl ''overlap''
      else Inr \<lparr>vw_regions = vw_regions m @ [r], vw_bytes = (\<lambda>x. if r_start r \<le> x \<and> x < r_start r + r_len r then 0 else vw_bytes m x)\<rparr>)"

definition view_remove :: "view \<Rightarrow> u64 \<Rightarrow> u64 \<Rightarrow> ext_error + view" where
  "view_remove m a n =
     (if list_ex (\<lambda>x. r_start x = a \<and> r_len x = n) (vw_regions m)
      then Inr (m\<lparr>vw_regions := filter (\<lambda>x. \<not> (r_start x = a \<and> r_len x = n)) (vw_regions m)\<rparr>) else Inl ''absent'')"

definition view_check :: "view \<Rightarrow> u64 \<Rightarrow> usize \<Rightarrow> bool" where
  "view_check m a n =
     list_all (\<lambda>i. list_ex (\<lambda>x. r_start x \<le> a + word_of_nat i \<and> a + word_of_nat i < r_start x + r_len x) (vw_regions m)) [0 ..< n]"

definition view_write :: "u64 \<Rightarrow> bytes \<Rightarrow> view \<Rightarrow> view" where
  "view_write a bs m = m\<lparr>vw_bytes := (\<lambda>x. if unat (x - a) < length bs then bs ! unat (x - a) else vw_bytes m x)\<rparr>"

definition view_read :: "u64 \<Rightarrow> usize \<Rightarrow> view \<Rightarrow> bytes" where
  "view_read a n m = map (\<lambda>i. vw_bytes m (a + word_of_nat i)) [0 ..< n]"

definition small_view :: view where
  "small_view = \<lparr>vw_regions = [\<lparr>r_start = 0, r_len = 0x10000, r_ptr = 0, r_alloc = 0\<rparr>], vw_bytes = (\<lambda>x. 0)\<rparr>"

text \<open>The operations on regions that the tests use of vm-memory.\<close>

definition view_ops :: "('q, view) crates \<Rightarrow> bool" where
  "view_ops C \<longleftrightarrow> cm_insert_region C = view_insert \<and> cm_remove_region C = view_remove"

definition view_alloc :: alloc where
  "view_alloc a n = Inr \<lparr>r_start = a, r_len = word_of_nat n, r_ptr = a, r_alloc = unat a\<rparr>"

type_synonym memory_test = "(virtio_mem \<times> fake \<times> view, unit, MemoryError) prog"

definition check_state :: "(virtio_mem \<Rightarrow> fake \<Rightarrow> view \<Rightarrow> bool) \<Rightarrow> memory_test" where
  "check_state P = bnd get_state (\<lambda>(v, f, rs). assert (P v f rs))"

definition device_step :: "(virtio_mem, 'a, 'e) prog \<Rightarrow> (virtio_mem \<times> fake \<times> view, 'a, 'e) prog" where
  "device_step p = (\<lambda>(v, f, rs). case p v of (r, v') \<Rightarrow> (r, v', f, rs))"

definition set_target :: "u64 \<Rightarrow> (virtio_mem, unit, MemoryError) prog" where
  "set_target mib = (\<lambda>v. case set_requested_mib mib (control v) of (r, c) \<Rightarrow> (r, v\<lparr>control := c\<rparr>))"

definition set_fail :: "(fake \<Rightarrow> nat list) \<Rightarrow> memory_test" where
  "set_fail g = modify (\<lambda>(v, f, rs). (v, f\<lparr>fk_fail := g f\<rparr>, rs))"

definition req :: "u16 \<Rightarrow> u64 \<Rightarrow> u16 \<Rightarrow> bytes" where
  "req kind addr n = le_bytes 2 (unat kind) @ replicate 6 0 @ le_bytes 8 (unat addr) @ le_bytes 2 (unat n) @ replicate 6 0"

definition send :: "('q, view) crates \<Rightarrow> u16 \<Rightarrow> u64 \<Rightarrow> u16 \<Rightarrow> (u64 \<times> u64) list \<Rightarrow> (virtio_mem \<times> fake \<times> view, u16 \<times> u16, MemoryError) prog" where
  "send C kind addr n pins = memory_request C fake_mapper view_alloc (req kind addr n) pins"

definition answers :: "('q, view) crates \<Rightarrow> u16 \<Rightarrow> u64 \<Rightarrow> u16 \<Rightarrow> (u64 \<times> u64) list \<Rightarrow> u16 \<Rightarrow> memory_test" where
  "answers C kind addr n pins expected = bnd (send C kind addr n pins) (\<lambda>r. assert (fst r = expected))"

definition setup_with :: "u64 \<Rightarrow> (virtio_mem \<times> fake \<times> view, MemoryError) result" where
  "setup_with block_mib =
     (let capacity = max 128 (2 * block_mib) in
      and_then (virtio_mem_new capacity block_mib) (\<lambda>v.
      case bnd (set_target capacity) (\<lambda>_. attach 512) v of
        (r, v) \<Rightarrow> and_then r (\<lambda>_. Ok (v, fake_default, small_view))))"

section \<open>Requests\<close>

text \<open>Each of these tests is run for blocks of 1, 2, 4 and 256 MiB.\<close>

definition test_invalid_requests :: "('q, view) crates \<Rightarrow> u64 \<Rightarrow> memory_test" where
  "test_invalid_requests C block_mib =
     (let block = block_mib * MIB in
      bnd get_state (\<lambda>(v, _).
      let a = vstart v in steps [
        assert (block_size v = block),
        answers C 0 a 0 [] 3,
        answers C 0 (a + 1) 1 [] 3,
        answers C 0 (a - block) 1 [] 3,
        answers C 0 (a + capacity v) 1 [] 3,
        answers C 0 (- 1) 2 [] 3,
        answers C 7 a 1 [] 3]))"

definition test_requests_state_target_reset_and_holes :: "('q, view) crates \<Rightarrow> u64 \<Rightarrow> memory_test" where
  "test_requests_state_target_reset_and_holes C block_mib =
     (let block = block_mib * MIB in
      bnd get_state (\<lambda>(v, _).
      let a = vstart v in steps [
        assert (block_size v = block),
        bnd (send C 3 a 2 []) (\<lambda>r. assert (r = (0, 1))),
        answers C 0 a 1 [] 0,
        answers C 0 a 1 [] 3,
        bnd (send C 3 a 2 []) (\<lambda>r. assert (r = (0, 2))),
        check_state (\<lambda>v f m. \<not> view_check m (a + block - 8) 16),
        answers C 0 (a + block) 1 [] 0,
        check_state (\<lambda>v f m. view_check m (a + block - 8) 16),
        modify (\<lambda>(v, f, m). (v, f, view_write (a + block - 8) (replicate 16 42) m)),
        unwrapped (device_step memory_reset),
        check_state (\<lambda>v f m. view_read (a + block - 8) 16 m = replicate 16 42),
        check_state (\<lambda>v f m. list_all (\<lambda>r. r_len r = block) (bt_values (blocks v))),
        bnd (send C 3 a 2 []) (\<lambda>r. assert (r = (0, 0))),
        answers C 1 a 1 [(a + 16, 4)] 2,
        answers C 1 a 1 [] 0,
        answers C 1 a 2 [] 3,
        device_step (set_target 0),
        answers C 0 a 1 [] 1,
        answers C 2 (- 1) 0 [] 0,
        check_state (\<lambda>v f m. fk_mapped f = [] \<and> plugged_size_mib (control v) = 0)]))"

definition test_transactional_map_and_unmap_failure :: "('q, view) crates \<Rightarrow> u64 \<Rightarrow> memory_test" where
  "test_transactional_map_and_unmap_failure C block_mib =
     (let block = block_mib * MIB in
      bnd get_state (\<lambda>(v, _).
      let a = vstart v in steps [
        assert (block_size v = block),
        set_fail (\<lambda>f. [2]),
        answers C 0 a 2 [] 2,
        check_state (\<lambda>v f m. count v = 0 \<and> fk_mapped f = []),
        set_fail (\<lambda>f. []),
        bnd (send C 0 a 2 []) (\<lambda>_. ret ()),
        modify (\<lambda>(v, f, m). (v, f, view_write a [91] m)),
        set_fail (\<lambda>f. [fk_calls f + 2]),
        answers C 1 a 2 [] 2,
        check_state (\<lambda>v f m. count v = 2 \<and> length (fk_mapped f) = 2 \<and> view_read a 1 m = [91]),
        set_fail (\<lambda>f. [fk_calls f + 2, fk_calls f + 3]),
        is_err (send C 1 a 2 []),
        check_state (\<lambda>v f m. count v = 2 \<and> bt_keys (fk_mapped f) = [a + block])]))"

text \<open>The allocation of a block outlives device and view as long as the mapper holds it.\<close>

definition mapper_holds :: "fake \<Rightarrow> u64 \<Rightarrow> bool" where
  "mapper_holds f alloc \<longleftrightarrow> unat alloc \<in> r_alloc ` set (bt_values (fk_mapped f))"

definition stop_device :: memory_test where
  "stop_device = (\<lambda>(v, f, m). case memory_stop fake_mapper (v, f) of (r, v, f) \<Rightarrow> (r, v, f, m))"

definition test_rollback_allocations_live_through_vm_teardown :: "('q, view) crates \<Rightarrow> u64 \<Rightarrow> memory_test" where
  "test_rollback_allocations_live_through_vm_teardown C block_mib =
     (let block = block_mib * MIB in
      bnd get_state (\<lambda>(v, _).
      let a = vstart v in steps [
        assert (block_size v = block),
        set_fail (\<lambda>f. [2, 3]),
        is_err (send C 0 a 2 []),
        check_state (\<lambda>v f m. count v = 0 \<and> plugged_size_mib (control v) = 0 \<and> \<not> view_check m a 1),
        check_state (\<lambda>v f m. mapper_holds f a \<and> length (fk_mapped f) = 1),
        stop_device,
        check_state (\<lambda>v f m. mapper_holds f a)]))"

definition test_mapper_owns_regions_through_failed_unmaps :: "('q, view) crates \<Rightarrow> memory_test" where
  "test_mapper_owns_regions_through_failed_unmaps C =
     (let block = push_bit 20 2 in
      bnd get_state (\<lambda>(v, _).
      let a = vstart v in steps [
        answers C 0 a 2 [] 0,
        check_state (\<lambda>v f m. map r_alloc (bt_values (blocks v)) = [unat a, unat (a + block)]),
        answers C 1 (a + block) 1 [] 0,
        check_state (\<lambda>v f m. \<not> mapper_holds f (a + block) \<and> unat (a + block) \<notin> r_alloc ` set (bt_values (blocks v)) \<and>
          unat (a + block) \<notin> r_alloc ` set (vw_regions m)),
        set_fail (\<lambda>f. [fk_calls f + 1]),
        answers C 1 a 1 [] 2,
        check_state (\<lambda>v f m. count v = 1),
        set_fail (\<lambda>f. [fk_calls f + 1]),
        is_err stop_device,
        check_state (\<lambda>v f m. mapper_holds f a)]))"

section \<open>Capacity, targets and addresses\<close>

text \<open>Only the device matters here: a test starts from a new device and is a program on it.\<close>

definition check_device :: "(virtio_mem \<Rightarrow> bool) \<Rightarrow> (virtio_mem, unit, MemoryError) prog" where
  "check_device P = bnd get_state (\<lambda>v. assert (P v))"

definition refused :: "u64 \<Rightarrow> u64 \<Rightarrow> (virtio_mem, unit, MemoryError) prog" where
  "refused block_mib mib =
     bnd get_state (\<lambda>v. if is_multiple_of mib block_mib \<and> mib \<le> capacity v div MIB then ret ()
       else steps [is_err (set_target mib), check_device (\<lambda>v. requested_size_mib (control v) = block_mib)])"

definition test_configured_blocks :: "u64 \<Rightarrow> (virtio_mem, unit, MemoryError) prog" where
  "test_configured_blocks block_mib = steps [
     check_device (\<lambda>v. block_size_mib (control v) = block_mib),
     set_target block_mib,
     refused block_mib (block_mib + 1),
     refused block_mib (- 1),
     attach 129,
     check_device (\<lambda>v. Some (vstart v) = rounded_up (0x40000000 + 129 * MIB) (alignment v)),
     check_device (\<lambda>v. let config = memory_read_config v 0 56 in
       word_of_nat (le_nat (sub_bytes 0 8 config)) = block_mib * MIB \<and> word_of_nat (le_nat (sub_bytes 48 8 config)) = block_mib * MIB),
     bnd get_state (\<lambda>v. is_err (attach_at (vstart v + 1)))]"

definition test_targets :: "u64 \<Rightarrow> u64 \<Rightarrow> (virtio_mem, unit, MemoryError) prog" where
  "test_targets good bad = steps [set_target good, is_err (set_target bad), check_device (\<lambda>v. requested_size_mib (control v) = good)]"

definition test_impossible_devices :: bool where
  "test_impossible_devices \<longleftrightarrow>
     list_all (\<lambda>(cap, block). \<not> is_ok (virtio_mem_new cap block))
       [(128, 0), (128, 3), (128, 256), (0, 2), (384, 256), (128, push_bit 44 1), (- 1, 2)]"

definition test_huge_device :: "('q, view) crates \<Rightarrow> bool" where
  "test_huge_device C \<longleftrightarrow>
     (case virtio_mem_new (push_bit 43 1) (push_bit 43 1) of
        Ok huge \<Rightarrow> (case attach_at 0 huge of (r, huge) \<Rightarrow> r = Ok () \<and>
          fst (answers C 0 0 2 [] 3 (huge, fake_default, \<lparr>vw_regions = [\<lparr>r_start = 0, r_len = 4096, r_ptr = 0, r_alloc = 0\<rparr>], vw_bytes = (\<lambda>x. 0)\<rparr>)) = Ok ())
      | _ \<Rightarrow> False)"

text \<open>\<open>H\<close> is 128; the 32 concurrent changes of the target are one sequence.\<close>

definition test_capacities :: bool where
  "test_capacities \<longleftrightarrow>
     list_all (\<lambda>sz. \<not> is_ok (virtio_mem_new sz 2)) [0, 1, 129, - 1, (- 1 div 128) * 128] \<and>
     (case virtio_mem_new 16384 2 of
        Ok v \<Rightarrow> (case attach 32768 v of (r, v) \<Rightarrow> r = Ok () \<and> validate_ipa 36 v = Ok ())
      | _ \<Rightarrow> False)"

definition test_lifecycle :: "(virtio_mem, unit, MemoryError) prog" where
  "test_lifecycle = steps ([
     check_device (\<lambda>v. control v = \<lparr>region_size_mib = 128, block_size_mib = 2, requested_size_mib = 0, plugged_size_mib = 0,
       driver_ready = False, lifecycle = Created\<rparr>),
     check_device (\<lambda>v. fst (set_target 3 v) = Err (MemoryError.InvalidTarget 3 128 2)),
     is_err (set_target 256)] @
     map (\<lambda>n. set_target (word_of_nat (n mod 2) * 128)) [0 ..< 32] @ [
     set_target 128,
     is_err (attach (- 1)),
     attach (128 * 128 + 1),
     check_device (\<lambda>v. vstart v = 0x40000000 + 129 * HOTPLUG_BLOCK_SIZE \<and> vstart v mod HOTPLUG_BLOCK_SIZE = 0 \<and>
       requested v = HOTPLUG_BLOCK_SIZE),
     modify memory_start,
     check_device (\<lambda>v. lifecycle (control v) = Running),
     (\<lambda>v. case memory_stop fake_mapper (v, fake_default) of (r, v, _) \<Rightarrow> (r, v)),
     check_device (\<lambda>v. lifecycle (control v) = Stopped \<and> fst (set_target 0 v) = Err MemoryError.Stopped)])"

definition test_region_address_boundaries :: "(virtio_mem, unit, MemoryError) prog" where
  "test_region_address_boundaries = steps ([
     set_target 0, set_target 128, set_target 256] @
     concat (map (\<lambda>t. [is_err (set_target t), check_device (\<lambda>v. requested_size_mib (control v) = 256)]) [1, 127, 129, 384, - 1]) @ [
     bnd get_state (\<lambda>v. let base_mib = (push_bit 36 1 - 0x40000000 - capacity v) div MIB in steps [
       attach base_mib,
       check_device (\<lambda>v. validate_ipa 36 v = Ok ()),
       attach (base_mib + 1),
       check_device (\<lambda>v. \<not> is_ok (validate_ipa 36 v))]),
     is_err (attach (- 1 div MIB)),
     is_err (attach ((- 1 - 0x40000000) div MIB))])"

section \<open>The model passes the tests\<close>

definition fresh_device :: "u64 \<Rightarrow> u64 \<Rightarrow> virtio_mem" where
  "fresh_device cap_mib block_mib = \<lparr>control = \<lparr>region_size_mib = cap_mib, block_size_mib = block_mib, requested_size_mib = cap_mib,
      plugged_size_mib = 0, driver_ready = False, lifecycle = Created\<rparr>, vstart = 0x60000000, capacity = cap_mib * MIB,
      block_size = block_mib * MIB, block_len = unat (block_mib * MIB), requested = cap_mib * MIB, plugged = 0, generation = 0, blocks = []\<rparr>"

lemmas memory_defs = virtio_mem_new_def is_power_of_two_def mib_bytes_def MIB_def HOTPLUG_BLOCK_SIZE_def is_multiple_of_def memory_control_new_def
  set_requested_mib_def validate_target_def attach_def attach_at_def alignment_def rounded_up_def checked_add_def checked_mul_def

lemma fresh_devices:
  "setup_with 1 = Ok (fresh_device 128 1, fake_default, small_view)"
  "setup_with 2 = Ok (fresh_device 128 2, fake_default, small_view)"
  "setup_with 4 = Ok (fresh_device 128 4, fake_default, small_view)"
  "setup_with 256 = Ok (fresh_device 512 256, fake_default, small_view)"
  by (simp_all add: setup_with_def fresh_device_def set_target_def memory_defs prog_defs max_def)

lemma req_fields:
  "word_of_nat (le_nat (sub_bytes 0 2 (req kind addr n))) = kind"
  "word_of_nat (le_nat (sub_bytes 8 8 (req kind addr n))) = addr"
  "word_of_nat (le_nat (sub_bytes 16 2 (req kind addr n))) = (ucast n :: u64)"
  using unat_bound [of kind] unat_bound [of addr] unat_bound [of n]
  by (simp_all add: req_def sub_bytes_def le_nat_le_bytes)

lemma send_eq: "send C kind addr n pins (v, f, m) =
  (case decide v kind addr (ucast n) pins of Inl answer \<Rightarrow> (Ok answer, v, f, m)
   | Inr addrs \<Rightarrow> (case change C fake_mapper view_alloc addrs (kind = 0) (v, f, m) of
       (Ok changed, v, f, m) \<Rightarrow> if changed then (Ok (0, 0), account v, f, m) else (Ok (2, 0), v, f, m)
     | (Err e, s) \<Rightarrow> (Err e, s) | (Panic, s) \<Rightarrow> (Panic, s)))"
  by (simp add: send_def memory_request_def req_fields prog_defs split: sum.splits prod.splits result.splits)

lemmas test_defs = fake_default_def answers_def assert_def check_state_def is_err_def device_step_def set_target_def set_fail_def small_view_def
  unwrapped_def prog_defs

lemmas request_defs = send_eq decide_def request_addresses_def checked_mul_def checked_add_def is_multiple_of_def saturating_sub_def
  change_def account_def count_def fake_mapper_def fake_map_def fake_unmap_def view_alloc_def view_insert_def view_remove_def
  bt_get_def bt_keys_def bt_values_def bt_remove_def addresses_def commit_blocks_def is_plugged_def touches_pin_def saturating_add_def upt_rec

lemma invalid_requests: "block_mib \<in> {1, 2, 4, 256} \<Longrightarrow> passes (setup_with block_mib) (test_invalid_requests C block_mib)"
  by (elim insertE emptyE; simp add: passes_def fresh_devices test_invalid_requests_def fresh_device_def MIB_def test_defs request_defs)

lemma sixteen_times: "replicate 16 x = [x, x, x, x, x, x, x, x, x, x, x, x, x, x, x, x]"
  by (simp add: numeral_eq_Suc)

lemma requests_state_target_reset_and_holes:
  assumes "view_ops C" and "block_mib \<in> {1, 2, 4, 256}"
  shows "passes (setup_with block_mib) (test_requests_state_target_reset_and_holes C block_mib)"
  using assms
  by (elim insertE emptyE; simp add: passes_def fresh_devices test_requests_state_target_reset_and_holes_def fresh_device_def MIB_def
      view_ops_def test_defs request_defs view_check_def view_write_def view_read_def memory_reset_def set_requested_mib_def
      validate_target_def sixteen_times)

lemma transactional_map_and_unmap_failure:
  assumes "view_ops C" and "block_mib \<in> {1, 2, 4, 256}"
  shows "passes (setup_with block_mib) (test_transactional_map_and_unmap_failure C block_mib)"
  using assms
  by (elim insertE emptyE; simp add: passes_def fresh_devices test_transactional_map_and_unmap_failure_def fresh_device_def MIB_def
      view_ops_def test_defs request_defs view_write_def view_read_def)

lemma rollback_allocations_live_through_vm_teardown:
  assumes "view_ops C" and "block_mib \<in> {1, 2, 4, 256}"
  shows "passes (setup_with block_mib) (test_rollback_allocations_live_through_vm_teardown C block_mib)"
  using assms
  by (elim insertE emptyE; simp add: passes_def fresh_devices test_rollback_allocations_live_through_vm_teardown_def fresh_device_def MIB_def
      view_ops_def test_defs request_defs view_check_def mapper_holds_def stop_device_def memory_stop_def)

lemma mapper_owns_regions_through_failed_unmaps:
  assumes "view_ops C"
  shows "passes (setup_with 2) (test_mapper_owns_regions_through_failed_unmaps C)"
  using assms
  by (simp add: passes_def fresh_devices test_mapper_owns_regions_through_failed_unmaps_def fresh_device_def MIB_def
      view_ops_def test_defs request_defs mapper_holds_def stop_device_def memory_stop_def)

lemmas capacity_defs = memory_defs test_defs check_device_def set_target_def count_def

lemma config_fields:
  "word_of_nat (le_nat (sub_bytes 0 8 (memory_read_config v 0 56))) = block_size v"
  "word_of_nat (le_nat (sub_bytes 48 8 (memory_read_config v 0 56))) = requested v"
proof -
  have "read_config xs 0 (length xs) = xs" for xs
    by (intro nth_equalityI) (auto simp: read_config_def)
  from this [of "foldl (\<lambda>config (offset, value). put_bytes offset (le_bytes 8 (unat value)) config) (replicate 56 0)
       [(0, block_size v), (16, vstart v), (24, capacity v), (32, capacity v), (40, plugged v), (48, requested v)]"]
  show "word_of_nat (le_nat (sub_bytes 0 8 (memory_read_config v 0 56))) = block_size v"
    "word_of_nat (le_nat (sub_bytes 48 8 (memory_read_config v 0 56))) = requested v"
    using unat_bound [of "block_size v"] unat_bound [of "requested v"]
    by (simp_all add: memory_read_config_def put_bytes_def sub_bytes_def le_nat_le_bytes)
qed

lemma configured_blocks:
  "block_mib \<in> {1, 2, 4, 256} \<Longrightarrow> passes (virtio_mem_new (max 128 (2 * block_mib)) block_mib) (test_configured_blocks block_mib)"
  by (elim insertE emptyE; simp add: passes_def test_configured_blocks_def refused_def capacity_defs max_def config_fields)

lemma targets: "passes (virtio_mem_new 128 2) (test_targets 6 3)" "passes (virtio_mem_new 128 4) (test_targets 12 6)"
  by (simp_all add: passes_def test_targets_def capacity_defs max_def)

lemma impossible_devices: test_impossible_devices
  by (simp add: test_impossible_devices_def capacity_defs max_def)

lemma huge_device: "test_huge_device C"
  by (simp add: test_huge_device_def request_defs capacity_defs max_def)

lemma capacities: test_capacities
  by (simp add: test_capacities_def validate_ipa_def capacity_defs max_def)

lemma lifecycles: "passes (virtio_mem_new 128 2) test_lifecycle"
  by (simp add: passes_def test_lifecycle_def capacity_defs max_def memory_start_def memory_stop_def bt_values_def upt_rec)

lemma unused_device_stops: "case virtio_mem_new 128 2 of Ok v \<Rightarrow> lifecycle (control (memory_drop v)) = Stopped | _ \<Rightarrow> False"
  by (simp add: capacity_defs max_def memory_drop_def)

lemma region_address_boundaries: "passes (virtio_mem_new 256 2) test_region_address_boundaries"
  by (simp add: passes_def test_region_address_boundaries_def validate_ipa_def capacity_defs max_def)

lemma region_end_overflow: "case virtio_mem_new ((- 1 div HOTPLUG_BLOCK_SIZE) * 128) 2 of Ok huge \<Rightarrow> fst (is_err (attach 128) huge) = Ok () | _ \<Rightarrow> False"
  by (simp add: capacity_defs max_def)

end
