(* ===== verification/BlockTests.thy ===== *)
theory BlockTests
  imports Block TestGuest Messages
begin

text \<open>
  Unit tests of the block device (\<open>devices/block.rs\<close>): the fake backend, the driver that submits requests, and the tests as
  programs on device and guest memory. The slices a backend gets are recorded by their guest addresses.
  The tests over several regions or with more memory are not here.
  Lemmas: the model passes every test.
\<close>

section \<open>The fake backend\<close>

record fake_disk =
  fd_data :: bytes
  fd_ro :: bool
  fd_fail :: bool
  fd_flushes :: nat
  fd_addresses :: "nat list"
  fd_partial :: bool
  fd_capacity :: "u64 option"

definition fd_size :: "fake_disk \<Rightarrow> u64" where
  "fd_size d = (case fd_capacity d of Some n \<Rightarrow> n | None \<Rightarrow> word_of_nat (length (fd_data d)))"

definition fake_read :: "u64 \<Rightarrow> vslice list \<Rightarrow> (fake_disk \<times> guest, unit, StorageError) prog" where
  "fake_read off ss s = (case s of (d, m) \<Rightarrow>
     let d = d\<lparr>fd_addresses := map vs_ptr ss\<rparr> in
     if fd_partial d then (Err (StorageError.Backend ''partial read''), d,
       case ss of [] \<Rightarrow> m | first # _ \<Rightarrow> cm_copy_from guest first (take (vs_len first) [0x99]) m)
     else if fd_fail d then (Err (StorageError.Backend ''injected host I/O error''), d, m)
     else let len = sum_list (map vs_len ss) in
     case bounds (fd_size d) off len of
       Err e \<Rightarrow> (Err e, d, m) | Panic \<Rightarrow> (Panic, d, m)
     | Ok _ \<Rightarrow> (case unwrapped (copy_from guest ss (sub_bytes (unat off) len (fd_data d))) m of (r, m) \<Rightarrow> (r, d, m)))"

definition fake_write :: "u64 \<Rightarrow> vslice list \<Rightarrow> (fake_disk \<times> guest, unit, StorageError) prog" where
  "fake_write off ss s = (case s of (d, m) \<Rightarrow>
     let d = d\<lparr>fd_addresses := map vs_ptr ss\<rparr> in
     if fd_ro d \<or> fd_fail d then (Err (StorageError.Backend ''read-only/injected host I/O error''), d, m)
     else let len = sum_list (map vs_len ss) in
     case bounds (fd_size d) off len of
       Err e \<Rightarrow> (Err e, d, m) | Panic \<Rightarrow> (Panic, d, m)
     | Ok _ \<Rightarrow> (case copy_to guest ss len m of
          (Ok bs, m) \<Rightarrow> (Ok (), d\<lparr>fd_data := put_bytes (unat off) bs (fd_data d)\<rparr>, m)
        | (_, m) \<Rightarrow> (Panic, d, m)))"

definition fake_flush :: "(fake_disk, unit, StorageError) prog" where
  "fake_flush d =
     (if fd_fail d then Err (StorageError.Backend ''injected sync error'') else Ok (), d\<lparr>fd_flushes := fd_flushes d + 1\<rparr>)"

definition fake_storage :: "(fake_disk, guest) block_ops" where
  "fake_storage = \<lparr>bs_size = fd_size, bs_read_only = fd_ro, bs_read = fake_read, bs_write = fake_write, bs_flush = fake_flush\<rparr>"

section \<open>The driver\<close>

type_synonym test_block = "(fake_disk block, guest_queue) mmio"

type_synonym block_test = "(test_block \<times> guest, unit, DeviceError) prog"

definition test_ops :: "(fake_disk block, guest_queue, guest) virtio_ops" where
  "test_ops = block_ops_of guest fake_storage"

definition wrb :: "u64 \<Rightarrow> u32 \<Rightarrow> block_test" where
  "wrb offset value s = drive test_ops offset value s"

definition rdb :: "test_block \<Rightarrow> u64 \<Rightarrow> usize \<Rightarrow> u64 option" where
  "rdb t offset width = mmio_read guest test_ops t offset width"

definition test_disk :: "bool \<Rightarrow> bool \<Rightarrow> fake_disk" where
  "test_disk ro fail = \<lparr>fd_data = replicate 4096 0, fd_ro = ro, fd_fail = fail, fd_flushes = 0, fd_addresses = [], fd_partial = False,
     fd_capacity = None\<rparr>"

definition block_setup :: "bool \<Rightarrow> bool \<Rightarrow> (test_block \<times> guest, DeviceError) result" where
  "block_setup ro fail =
     and_then (block_new ''w-vmm-data-000000001'' (test_disk ro fail)) (\<lambda>b.
     and_then (mmio_new guest test_ops b) (\<lambda>t.
     case steps [wrb 0x70 1, wrb 0x70 3, wrb 0x24 1, wrb 0x20 1, wrb 0x24 0, wrb 0x20 (ucast (features t AND 0xffffffff)), wrb 0x70 11,
            wrb 0x38 8, wrb 0x80 0x1000, wrb 0x90 0x2000, wrb 0xa0 0x3000, wrb 0x44 1, wrb 0x70 15] (t, \<lambda>a. 0) of
       (r, s) \<Rightarrow> and_then r (\<lambda>_. Ok s)))"

definition write_guest :: "nat \<Rightarrow> bytes \<Rightarrow> block_test" where
  "write_guest a bs s = (Ok (), fst s, store_bytes a bs (snd s))"

definition descriptor_bytes :: "u64 \<Rightarrow> u32 \<Rightarrow> u16 \<Rightarrow> u16 \<Rightarrow> bytes" where
  "descriptor_bytes addr len flags nxt = le_bytes 8 (unat addr) @ le_bytes 4 (unat len) @ le_bytes 2 (unat flags) @ le_bytes 2 (unat nxt)"

definition publish :: block_test where
  "publish s = (let idx = gq_next_avail (rings (queues (fst s)) ! 0) in
     steps [write_guest (0x2004 + 2 * unat (idx mod 8)) (le_bytes 2 0), write_guest 0x2002 (le_bytes 2 (unat (idx + 1))), wrb 0x50 0] s)"

definition submit_request :: "u32 \<Rightarrow> u64 \<Rightarrow> u32 \<Rightarrow> block_test" where
  "submit_request op sec len = steps [
     write_guest 0x1000 (descriptor_bytes 0x4000 16 1 1),
     write_guest 0x1010 (descriptor_bytes 0x5000 len (if op = BLK_T_OUT then 1 else 3) 2),
     write_guest 0x1020 (descriptor_bytes 0x6000 1 2 0),
     write_guest 0x4000 (le_bytes 4 (unat op)),
     write_guest 0x4008 (le_bytes 8 (unat sec)),
     publish]"

fun write_chain :: "nat \<Rightarrow> (u64 \<times> u32 \<times> bool) list \<Rightarrow> block_test" where
  "write_chain i [] s = (Ok (), s)"
| "write_chain i ((addr, len, wo) # rest) s =
     (let cont = (rest \<noteq> []) in
      steps [write_guest (0x1000 + 16 * i) (descriptor_bytes addr len ((if cont then 1 else 0) OR (if wo then 2 else 0))
               (if cont then word_of_nat i + 1 else 0)), write_chain (Suc i) rest] s)"

definition submit_chain :: "(u64 \<times> u32 \<times> bool) list \<Rightarrow> block_test" where
  "submit_chain descs = steps [write_chain 0 descs, publish]"

definition header :: "u32 \<Rightarrow> u64 \<Rightarrow> block_test" where
  "header op sec = steps [write_guest 0x4000 (le_bytes 4 (unat op)), write_guest 0x4004 (le_bytes 4 0),
     write_guest 0x4008 (le_bytes 8 (unat sec))]"

definition last_used :: "test_block \<times> guest \<Rightarrow> u16 \<times> u32" where
  "last_used s = (let idx = guest_u16 0x3002 (snd s); slot = (idx - 1) mod gq_size (rings (queues (fst s)) ! 0) in
     (idx, word_of_nat (le_nat (load_bytes (0x3004 + unat slot * 8 + 4) 4 (snd s)))))"

definition good :: "(test_block \<Rightarrow> fake_disk \<Rightarrow> guest \<Rightarrow> bool) \<Rightarrow> block_test" where
  "good P s = (if P (fst s) (bdisk (device (fst s))) (snd s) then (Ok (), s) else (Panic, s))"

abbreviation status_byte :: "guest \<Rightarrow> u8" where
  "status_byte m \<equiv> m 0x6000"

section \<open>The tests\<close>

definition test_negotiation_rejects_unknown :: block_test where
  "test_negotiation_rejects_unknown = steps [
     wrb 0x70 0, wrb 0x70 3, wrb 0x20 1, wrb 0x70 11,
     good (\<lambda>t d m. mstatus t AND 8 = 0),
     is_err (wrb 0x70 15)]"

definition test_cyclic_chain_rejected :: block_test where
  "test_cyclic_chain_rejected = steps [
     write_guest 0x1000 (descriptor_bytes 0x4000 16 1 0), write_guest 0x2002 (le_bytes 2 1), is_err (wrb 0x50 0)]"

definition test_unmapped_chain_rejected :: block_test where
  "test_unmapped_chain_rejected = steps [
     write_guest 0x1000 (descriptor_bytes u64_max 16 1 1), write_guest 0x1010 (descriptor_bytes 0x6000 1 2 0),
     write_guest 0x2002 (le_bytes 2 1), is_err (wrb 0x50 0)]"

text \<open>The message of the error a step returns.\<close>

definition says :: "string \<Rightarrow> ('s, 'a, DeviceError) prog \<Rightarrow> ('s, unit, DeviceError) prog" where
  "says part p s = (case p s of (Err e, s) \<Rightarrow> (if sublist part (hd (device_chain (\<lambda>e. []) e)) then Ok () else Panic, s)
     | (_, s) \<Rightarrow> (Panic, s))"

definition test_rejects_indirect :: block_test where
  "test_rejects_indirect = steps [
     write_guest 0x1000 (descriptor_bytes 0x7000 32 4 0), write_guest 0x2002 (le_bytes 2 1), says ''indirect'' (wrb 0x50 0)]"

definition test_rejects_avail_overrun :: block_test where
  "test_rejects_avail_overrun = steps [write_guest 0x2002 (le_bytes 2 9), says ''overrun'' (wrb 0x50 0)]"

definition test_advertises_seg_max :: block_test where
  "test_advertises_seg_max = steps [
     good (\<lambda>t d m. let f = vd_features test_ops (device t) in f AND BLK_F_SEG_MAX \<noteq> 0 \<and> f AND push_bit 1 1 = 0),
     good (\<lambda>t d m. rdb t 0x100 8 = Some 8 \<and> rdb t 0x108 4 = Some 0 \<and> rdb t 0x10c 4 = Some 126 \<and> ucast SEG_MAX + 2 = MAX_QUEUE)]"

definition test_readonly_bounds_and_io_errors :: "u64 \<Rightarrow> block_test" where
  "test_readonly_bounds_and_io_errors sec = steps [
     submit_request BLK_T_OUT sec 512,
     good (\<lambda>t d m. status_byte m = 1 \<and> list_all (\<lambda>v. v = 0) (fd_data d))]"

definition test_get_id_unsupported_and_write_through :: block_test where
  "test_get_id_unsupported_and_write_through = steps [
     submit_request BLK_T_GET_ID 0 20,
     good (\<lambda>t d m. load_bytes 0x5000 20 m = map (word_of_nat \<circ> of_char) ''w-vmm-data-000000001'' \<and> status_byte m = 0 \<and>
       word_of_nat (le_nat (load_bytes 0x3008 4 m)) = (21 :: u32)),
     submit_request 0xffff 0 0,
     good (\<lambda>t d m. status_byte m = 2),
     (\<lambda>(t, m). (Ok (), t\<lparr>queues := (queues t)\<lparr>negotiated := negotiated (queues t) AND NOT BLK_F_FLUSH\<rparr>\<rparr>, m)),
     submit_request BLK_T_OUT 0 512,
     good (\<lambda>t d m. fd_flushes d = 1)]"

definition test_io_used_ring_flush_and_reset :: block_test where
  "test_io_used_ring_flush_and_reset = steps [
     write_guest 0x5000 (replicate 512 0x5a),
     submit_request BLK_T_OUT 1 512,
     good (\<lambda>t d m. status_byte m = 0 \<and> sub_bytes 512 512 (fd_data d) = replicate 512 0x5a),
     write_guest 0x5000 (replicate 512 0),
     submit_request BLK_T_IN 1 512,
     good (\<lambda>t d m. status_byte m = 0 \<and> m 0x5000 = 0x5a \<and> guest_u16 0x3002 m = 2 \<and> interrupt_pending t),
     wrb 0x64 1,
     good (\<lambda>t d m. \<not> interrupt_pending t),
     submit_request BLK_T_FLUSH 0 0,
     good (\<lambda>t d m. fd_flushes d = 1),
     wrb 0x70 0,
     good (\<lambda>t d m. mstatus t = 0 \<and> \<not> gq_ready (rings (queues t) ! 0) \<and> negotiated (queues t) = 0 \<and>
       gq_next_avail (rings (queues t) ! 0) = 0)]"

text \<open>One malformed request of the table, the \<open>i\<close>-th.\<close>

definition malformed :: "u16 \<Rightarrow> u32 \<Rightarrow> u64 \<Rightarrow> (u64 \<times> u32 \<times> bool) list \<Rightarrow> u8 \<Rightarrow> block_test" where
  "malformed i op sec descs expected = steps [
     header op sec,
     write_guest 0x6000 [0xff],
     wrb 0x64 1,
     submit_chain descs,
     (\<lambda>s. assert (last_used s = (i + 1, 1)) s),
     good (\<lambda>t d m. status_byte m = expected \<and> interrupt_pending t)]"

definition test_malformed_requests :: block_test where
  "test_malformed_requests = steps [
     malformed 0 BLK_T_IN 0 [(0x4000, 8, False), (0x6000, 1, True)] BLK_S_IOERR,
     malformed 1 BLK_T_IN 0 [(0x6000, 1, True)] BLK_S_IOERR,
     malformed 2 BLK_T_IN 0 [(0x4000, 16, True), (0x5000, 512, True), (0x6000, 1, True)] BLK_S_IOERR,
     malformed 3 BLK_T_OUT u64_max [(0x4000, 16, False), (0x5000, 512, False), (0x6000, 1, True)] BLK_S_IOERR,
     malformed 4 BLK_T_IN 0 [(0x4000, 16, False), (0x5000, 512, False), (0x6000, 1, True)] BLK_S_IOERR,
     malformed 5 BLK_T_OUT 0 [(0x4000, 16, False), (0x5000, 100, False), (0x6000, 1, True)] BLK_S_IOERR,
     malformed 6 BLK_T_OUT 8 [(0x4000, 16, False), (0x5000, 512, False), (0x6000, 1, True)] BLK_S_IOERR,
     malformed 7 BLK_T_FLUSH 0 [(0x4000, 16, False), (0x5000, 512, False), (0x6000, 1, True)] BLK_S_IOERR,
     malformed 8 BLK_T_GET_ID 0 [(0x4000, 16, False), (0x5000, 8, True), (0x6000, 1, True)] BLK_S_IOERR,
     malformed 9 0x7777 0 [(0x4000, 16, False), (0x5000, 3, True), (0x6000, 1, True)] BLK_S_UNSUPP,
     good (\<lambda>t d m. fd_addresses d = [] \<and> fd_flushes d = 0 \<and> list_all (\<lambda>v. v = 0) (fd_data d)),
     write_guest 0x5000 (replicate 512 0x42),
     submit_request BLK_T_OUT 0 512,
     good (\<lambda>t d m. status_byte m = BLK_S_OK \<and> fd_data d ! 0 = 0x42)]"

definition test_lenient_isolates_only_untrusted_chains :: block_test where
  "test_lenient_isolates_only_untrusted_chains = steps [
     (\<lambda>(t, m). (Ok (), with_strict False t, m)),
     header BLK_T_OUT 0,
     submit_chain [(0x4000, 16, False), (0x5000, 100, False), (0x6000, 1, True)],
     good (\<lambda>t d m. status_byte m = BLK_S_IOERR \<and> \<not> needs_reset t),
     wrb 0x64 1,
     submit_chain [(0x4000, 16, False), (0x6000, 2, True)],
     good (\<lambda>t d m. needs_reset t \<and> rdb t 0x60 4 = Some 2 \<and> last_used (t, m) = (1, 1) \<and> fd_addresses d = [])]"

definition test_failed_reset_is_fatal :: block_test where
  "test_failed_reset_is_fatal = steps [
     (\<lambda>(t, m). (Ok (), with_strict False t, m)),
     (\<lambda>s. case wrb 0x70 0 s of (Err (DeviceError.Storage _), s) \<Rightarrow> (Ok (), s) | (_, s) \<Rightarrow> (Panic, s)),
     good (\<lambda>t d m. mstatus t = 15)]"

definition test_block_names :: bool where
  "test_block_names \<longleftrightarrow>
     list_all (\<lambda>name. \<not> is_ok (block_new name (test_disk False False))) [[], ''too-long-disk-name-123'', ''a/b'',
       [CHR 0xE7, CHR 0xA3, CHR 0x81, CHR 0xE7, CHR 0x9B, CHR 0x98]] \<and>
     is_ok (block_new ''boxed'' (test_disk False False))"

section \<open>The model passes the tests\<close>

lemma list_all_replicate: "list_all P (replicate n x) \<longleftrightarrow> n = 0 \<or> P x"
  by (induction n) auto

definition ready_block :: "bool \<Rightarrow> bool \<Rightarrow> test_block" where
  "ready_block ro fail = \<lparr>device = \<lparr>bdisk = test_disk ro fail, bname = ''w-vmm-data-000000001'',
       bid = map (word_of_nat \<circ> of_char) ''w-vmm-data-000000001''\<rparr>,
     queues = \<lparr>rings = [\<lparr>gq_max = 128, gq_size = 8, gq_ready = True, gq_desc = 0x1000, gq_avail = 0x2000, gq_used = 0x3000,
       gq_next_avail = 0, gq_next_used = 0\<rparr>], negotiated = (if ro then 0x100000224 else 0x100000204), interrupt = 0\<rparr>,
     feature_sel = 0, driver_sel = 0, queue_sel = 0, features = (if ro then 0x100000224 else 0x100000204), mstatus = 15, strict = True,
     rejected = 0\<rparr>"

lemma block_setup_value: "block_setup ro fail = Ok (ready_block ro fail, \<lambda>a. 0)"
proof -
  have "list_all name_byte ''w-vmm-data-000000001''" by code_simp
  then have b: "block_new ''w-vmm-data-000000001'' (test_disk ro fail) =
      Ok \<lparr>bdisk = test_disk ro fail, bname = ''w-vmm-data-000000001'', bid = map (word_of_nat \<circ> of_char) ''w-vmm-data-000000001''\<rparr>"
    by (simp add: block_new_def put_bytes_def)
  show ?thesis unfolding block_setup_def b
    by (cases ro) (simp_all add: mmio_new_def test_ops_def block_ops_of_def block_features_def fake_storage_def test_disk_def wrb_def transport_eqs
        BLK_F_FLUSH_def BLK_F_SEG_MAX_def BLK_F_RO_def guest_def ready_block_def)
qed

lemma storage_at [simp]:
  "bs_size fake_storage = fd_size" "bs_read_only fake_storage = fd_ro" "bs_read fake_storage = fake_read" "bs_write fake_storage = fake_write"
  "bs_flush fake_storage = fake_flush"
  by (simp_all add: fake_storage_def)

lemma test_ops_at [simp]:
  "vd_notify test_ops q = block_notify guest fake_storage q" "vd_reset test_ops = block_flush fake_storage"
  "vd_features test_ops = block_features fake_storage" "vd_read_config test_ops = block_read_config fake_storage"
  "vd_required_features test_ops b = 0" "vd_generation test_ops b = 0"
  by (simp_all add: test_ops_def block_ops_of_def)

lemma lifted_at:
  "lift_storage f s = (case f s of (r, s') \<Rightarrow> (map_err DeviceError.Storage r, s'))"
  "flush_backend B (d, m) = (case lift_storage (bs_flush B) d of (r, d') \<Rightarrow> (r, d', m))"
  "on_backend g (b, qs, m) = (case g (bdisk b, m) of (r, d, m') \<Rightarrow> (r, b\<lparr>bdisk := d\<rparr>, qs, m'))"
  "block_flush B b = (case lift_storage (bs_flush B) (bdisk b) of (r, d) \<Rightarrow> (r, b\<lparr>bdisk := d\<rparr>))"
  by (simp_all add: lift_storage_def flush_backend_def on_backend_def block_flush_def)

lemmas block_at = lifted_at block_notify_def [THEN fun_cong] block_serve_def [THEN fun_cong] block_request_def [THEN fun_cong]
  execute_def [THEN fun_cong] parse_request_def [THEN fun_cong] dispatch_def [THEN fun_cong] block_transfer_def [THEN fun_cong]
  copy_to.simps [THEN fun_cong] copy_from.simps [THEN fun_cong]

lemmas block_run = passes_def block_setup_value ready_block_def test_disk_def wrb_def write_guest_def good_def publish_def test_prog_defs
  transport_eqs queue_eqs complete_def gq_add_used_def block_at slices_def range_slices_def range_from.simps used_length_def bounds_def fd_size_def fake_read_def fake_write_def
  fake_flush_def descriptor_bytes_def le_bytes_values BLK_T_IN_def BLK_T_OUT_def BLK_T_FLUSH_def BLK_T_GET_ID_def BLK_S_OK_def BLK_S_IOERR_def
  BLK_S_UNSUPP_def BLK_F_FLUSH_def BLK_F_SEG_MAX_def BLK_F_RO_def usize_add_def checked_mul_def checked_add_def

lemma negotiation_rejects_unknown: "passes (block_setup False False) test_negotiation_rejects_unknown"
  by (simp add: test_negotiation_rejects_unknown_def block_run)

lemma malformed_chain_rejected: "passes (block_setup False False) test_cyclic_chain_rejected"
   "passes (block_setup False False) test_unmapped_chain_rejected"
  by (simp_all add: test_cyclic_chain_rejected_def test_unmapped_chain_rejected_def block_run u64_max_value)

lemma rejects_indirect: "passes (block_setup False False) test_rejects_indirect"
   "passes (block_setup False False) test_rejects_avail_overrun"
  by (simp_all add: test_rejects_indirect_def test_rejects_avail_overrun_def says_def block_run sublist_Cons_right)

lemma advertises_seg_max: "passes (block_setup False False) test_advertises_seg_max"
  by (simp add: test_advertises_seg_max_def block_run block_features_def block_read_config_def rdb_def mmio_read_def read_config_def put_bytes_def
      SEG_MAX_def nth_append)

lemma readonly_bounds_and_io_errors:
  "passes (block_setup True False) (test_readonly_bounds_and_io_errors 0)"
  "passes (block_setup False True) (test_readonly_bounds_and_io_errors 0)"
  "passes (block_setup False False) (test_readonly_bounds_and_io_errors 8)"
  "passes (block_setup False False) (test_readonly_bounds_and_io_errors u64_max)"
  by (simp_all add: test_readonly_bounds_and_io_errors_def submit_request_def block_run list_all_replicate u64_max_value)

lemma get_id_unsupported_and_write_through: "passes (block_setup False False) test_get_id_unsupported_and_write_through"
  by (simp add: test_get_id_unsupported_and_write_through_def submit_request_def block_run load_same load_other)

lemma io_used_ring_flush_and_reset: "passes (block_setup False False) test_io_used_ring_flush_and_reset"
  by (simp add: test_io_used_ring_flush_and_reset_def submit_request_def block_run load_same load_other sub_bytes_def put_bytes_def
      interrupt_pending_def)

lemma lenient_isolates_only_untrusted_chains: "passes (block_setup False False) test_lenient_isolates_only_untrusted_chains"
  by (simp add: test_lenient_isolates_only_untrusted_chains_def submit_chain_def header_def last_used_def block_run with_strict_def
      needs_reset_def config_changed_def rdb_def mmio_read_def)

lemma failed_reset_is_fatal: "passes (block_setup False True) test_failed_reset_is_fatal"
  by (simp add: test_failed_reset_is_fatal_def block_run with_strict_def)

lemma block_names: test_block_names
  by code_simp

text \<open>The device after \<open>n\<close> requests that left the disk alone; guest memory is arbitrary.\<close>

definition block_served :: "u16 \<Rightarrow> u32 \<Rightarrow> test_block" where
  "block_served n irq = (ready_block False False)\<lparr>queues := \<lparr>rings = [\<lparr>gq_max = 128, gq_size = 8, gq_ready = True, gq_desc = 0x1000,
     gq_avail = 0x2000, gq_used = 0x3000, gq_next_avail = n, gq_next_used = n\<rparr>], negotiated = 0x100000204, interrupt = irq\<rparr>\<rparr>"

lemmas malformed_run = block_served_def malformed_def submit_chain_def header_def last_used_def block_run interrupt_pending_def u64_max_value

lemma malformed_0: "\<exists>m'. malformed 0 BLK_T_IN 0 [(0x4000, 8, False), (0x6000, 1, True)] BLK_S_IOERR (block_served 0 0, m) = (Ok (), block_served 1 1, m')"
  by (simp add: malformed_run)

lemma malformed_1: "\<exists>m'. malformed 1 BLK_T_IN 0 [(0x6000, 1, True)] BLK_S_IOERR (block_served 1 1, m) = (Ok (), block_served 2 1, m')"
  by (simp add: malformed_run)

lemma malformed_2: "\<exists>m'. malformed 2 BLK_T_IN 0 [(0x4000, 16, True), (0x5000, 512, True), (0x6000, 1, True)] BLK_S_IOERR (block_served 2 1, m) =
    (Ok (), block_served 3 1, m')"
  by (simp add: malformed_run)

lemma malformed_3: "\<exists>m'. malformed 3 BLK_T_OUT u64_max [(0x4000, 16, False), (0x5000, 512, False), (0x6000, 1, True)] BLK_S_IOERR (block_served 3 1, m) =
    (Ok (), block_served 4 1, m')"
  by (simp add: malformed_run)

lemma malformed_4: "\<exists>m'. malformed 4 BLK_T_IN 0 [(0x4000, 16, False), (0x5000, 512, False), (0x6000, 1, True)] BLK_S_IOERR (block_served 4 1, m) =
    (Ok (), block_served 5 1, m')"
  by (simp add: malformed_run)

lemma malformed_5: "\<exists>m'. malformed 5 BLK_T_OUT 0 [(0x4000, 16, False), (0x5000, 100, False), (0x6000, 1, True)] BLK_S_IOERR (block_served 5 1, m) =
    (Ok (), block_served 6 1, m')"
  by (simp add: malformed_run)

lemma malformed_6: "\<exists>m'. malformed 6 BLK_T_OUT 8 [(0x4000, 16, False), (0x5000, 512, False), (0x6000, 1, True)] BLK_S_IOERR (block_served 6 1, m) =
    (Ok (), block_served 7 1, m')"
  by (simp add: malformed_run)

lemma malformed_7: "\<exists>m'. malformed 7 BLK_T_FLUSH 0 [(0x4000, 16, False), (0x5000, 512, False), (0x6000, 1, True)] BLK_S_IOERR (block_served 7 1, m) =
    (Ok (), block_served 8 1, m')"
  by (simp add: malformed_run)

lemma malformed_8: "\<exists>m'. malformed 8 BLK_T_GET_ID 0 [(0x4000, 16, False), (0x5000, 8, True), (0x6000, 1, True)] BLK_S_IOERR (block_served 8 1, m) =
    (Ok (), block_served 9 1, m')"
  by (simp add: malformed_run)

lemma malformed_9: "\<exists>m'. malformed 9 0x7777 0 [(0x4000, 16, False), (0x5000, 3, True), (0x6000, 1, True)] BLK_S_UNSUPP (block_served 9 1, m) =
    (Ok (), block_served 10 1, m')"
  by (simp add: malformed_run)

lemma after_malformed: "fst (steps [
     good (\<lambda>t d m. fd_addresses d = [] \<and> fd_flushes d = 0 \<and> list_all (\<lambda>v. v = 0) (fd_data d)),
     write_guest 0x5000 (replicate 512 0x42),
     submit_request BLK_T_OUT 0 512,
     good (\<lambda>t d m. status_byte m = BLK_S_OK \<and> fd_data d ! 0 = 0x42)] (block_served 10 1, m)) = Ok ()"
  by (simp add: block_served_def submit_request_def block_run load_same load_other put_bytes_def list_all_replicate nth_append)

lemma step_on: "\<exists>m'. p (t, m) = (Ok (), t', m') \<Longrightarrow> (\<And>m'. fst (steps ps (t', m')) = Ok ()) \<Longrightarrow> fst (steps (p # ps) (t, m)) = Ok ()"
  by auto

lemma malformed_requests: "passes (block_setup False False) test_malformed_requests"
proof -
  have "block_setup False False = Ok (block_served 0 0, \<lambda>a. 0)"
    by (simp add: block_setup_value block_served_def ready_block_def)
  moreover have "fst (test_malformed_requests (block_served 0 0, m)) = Ok ()" for m
    unfolding test_malformed_requests_def
    by ((rule step_on, rule malformed_0 malformed_1 malformed_2 malformed_3 malformed_4 malformed_5 malformed_6 malformed_7 malformed_8
        malformed_9)+, rule after_malformed)
  ultimately show ?thesis by (simp add: passes_def)
qed

end
