(* ===== verification/NetTests.thy ===== *)
theory NetTests
  imports Net TestGuest
begin

text \<open>
  Unit tests of the network device (\<open>devices/net.rs\<close>): the fake backend and the tests as programs on device and guest
  memory. The test over two memory regions is not here.
  Lemmas: the model passes every test.
\<close>

section \<open>The fake backend\<close>

record fake_nic =
  fn_received :: "bytes list"
  fn_sent :: "bytes list"
  fn_blocked :: bool
  fn_fail :: bool
  fn_tx_addresses :: "nat option list list"
  fn_rx_addresses :: "nat option list list"

text \<open>Where the slices of a frame start: an address of the guest, or none for the buffer of the device.\<close>

fun frame_addresses :: "frame \<Rightarrow> nat option list" where
  "frame_addresses (Host bs) = [None]"
| "frame_addresses (Guest ss) = map (\<lambda>s. Some (vs_ptr s)) ss"

definition fake_send :: "frame \<Rightarrow> (fake_nic \<times> guest, bool, NetError) prog" where
  "fake_send frame s = (case s of (n, m) \<Rightarrow>
     let n = n\<lparr>fn_tx_addresses := fn_tx_addresses n @ [frame_addresses frame]\<rparr> in
     if fn_fail n then (Err (NetError.Backend ''injected send failure''), n, m)
     else if fn_blocked n then (Ok False, n, m)
     else (case frame of
        Host bs \<Rightarrow> (Ok True, n\<lparr>fn_sent := fn_sent n @ [bs]\<rparr>, m)
      | Guest ss \<Rightarrow> (case copy_to guest ss (sum_list (map vs_len ss)) m of
           (Ok bs, m) \<Rightarrow> (Ok True, n\<lparr>fn_sent := fn_sent n @ [bs]\<rparr>, m) | (_, m) \<Rightarrow> (Panic, n, m))))"

definition fake_recv :: "frame \<Rightarrow> (fake_nic \<times> guest, usize option \<times> bytes, NetError) prog" where
  "fake_recv frame s = (case s of (n, m) \<Rightarrow>
     let n = n\<lparr>fn_rx_addresses := fn_rx_addresses n @ [frame_addresses frame]\<rparr> in
     if fn_fail n then (Err (NetError.Backend ''injected receive failure''), n, m)
     else (case fn_received n of
        [] \<Rightarrow> (Ok (None, case frame of Host bs \<Rightarrow> bs | Guest _ \<Rightarrow> []), n, m)
      | bs # rest \<Rightarrow> (let n = n\<lparr>fn_received := rest\<rparr> in case frame of
           Host buf \<Rightarrow> (if length bs \<le> length buf then Ok (Some (length bs), put_bytes 0 bs buf) else Panic, n, m)
         | Guest ss \<Rightarrow> (case copy_from guest ss bs m of (Ok _, m) \<Rightarrow> (Ok (Some (length bs), []), n, m) | (_, m) \<Rightarrow> (Panic, n, m)))))"

definition nic_ops :: "(fake_nic, guest) net_ops" where
  "nic_ops = \<lparr>nd_mtu = 1500, nd_mac_address = (\<lambda>n. [2, 0, 0, 0, 0, 1]), nd_max_frame_len = (\<lambda>n. 1514), nd_send = fake_send,
     nd_recv = fake_recv\<rparr>"

text \<open>A backend with other limits, which is never asked for a frame.\<close>

definition limited_ops :: "u16 \<Rightarrow> usize \<Rightarrow> (unit, guest) net_ops" where
  "limited_ops mtu capacity = \<lparr>nd_mtu = mtu, nd_mac_address = (\<lambda>n. [2, 0, 0, 0, 0, 1]), nd_max_frame_len = (\<lambda>n. capacity),
     nd_send = (\<lambda>f s. (Panic, s)), nd_recv = (\<lambda>f s. (Panic, s))\<rparr>"

section \<open>The driver\<close>

type_synonym test_net = "(fake_nic net, guest_queue) mmio"

type_synonym net_test = "(test_net \<times> guest, unit, DeviceError) prog"

definition card_ops :: "(fake_nic net, guest_queue, guest) virtio_ops" where
  "card_ops = net_ops_of guest nic_ops"

definition wrn :: "u64 \<Rightarrow> u32 \<Rightarrow> net_test" where
  "wrn offset value s = drive card_ops offset value s"

definition rdn :: "test_net \<Rightarrow> u64 \<Rightarrow> usize \<Rightarrow> u64 option" where
  "rdn t offset width = mmio_read guest card_ops t offset width"

definition polln :: net_test where
  "polln s = mmio_poll card_ops s"

definition net_setup :: "(test_net \<times> guest, DeviceError) result" where
  "net_setup =
     and_then (net_new nic_ops \<lparr>fn_received = [], fn_sent = [], fn_blocked = False, fn_fail = False,
       fn_tx_addresses = [], fn_rx_addresses = []\<rparr>) (\<lambda>d.
     and_then (mmio_new guest card_ops d) (\<lambda>t.
     case initialize card_ops (t, \<lambda>a. 0) of (r, s) \<Rightarrow> and_then r (\<lambda>_. Ok s)))"

definition desc_bytes :: "u64 \<Rightarrow> u32 \<Rightarrow> u16 \<Rightarrow> u16 \<Rightarrow> bytes" where
  "desc_bytes addr len flags nxt = le_bytes 8 (unat addr) @ le_bytes 4 (unat len) @ le_bytes 2 (unat flags) @ le_bytes 2 (unat nxt)"

definition put_guest :: "nat \<Rightarrow> bytes \<Rightarrow> net_test" where
  "put_guest a bs s = (Ok (), fst s, store_bytes a bs (snd s))"

definition post :: "nat \<Rightarrow> bytes list \<Rightarrow> net_test" where
  "post i descs s = (let q = rings (queues (fst s)) ! i; idx = gq_next_avail q in
     steps [put_guest (unat (gq_desc q)) (concat descs), put_guest (unat (gq_avail q) + 4 + 2 * unat (idx mod gq_size q)) (le_bytes 2 0),
       put_guest (unat (gq_avail q) + 2) (le_bytes 2 (unat (idx + 1)))] s)"

definition send_frame :: net_test where
  "send_frame = steps [
     put_guest 0x8000 (replicate 5 0),
     put_guest 0x9000 (replicate 7 0 @ replicate 64 0x5a),
     post 1 [desc_bytes 0x8000 5 1 1, desc_bytes 0x9000 71 0 0]]"

definition used :: "nat \<Rightarrow> guest \<Rightarrow> u16 \<times> u32" where
  "used i m = (let base = 0x3000 + i * 0x3000 in (guest_u16 (base + 2) m, word_of_nat (le_nat (load_bytes (base + 8) 4 m))))"

definition nic :: "(fake_nic \<Rightarrow> fake_nic) \<Rightarrow> net_test" where
  "nic f s = (Ok (), (fst s)\<lparr>device := (device (fst s))\<lparr>backend := f (backend (device (fst s)))\<rparr>\<rparr>, snd s)"

definition fine :: "(test_net \<Rightarrow> fake_nic \<Rightarrow> guest \<Rightarrow> bool) \<Rightarrow> net_test" where
  "fine P s = (if P (fst s) (backend (device (fst s))) (snd s) then (Ok (), s) else (Panic, s))"

section \<open>The tests\<close>

definition test_associated_mtu_and_frame_capacity :: bool where
  "test_associated_mtu_and_frame_capacity \<longleftrightarrow>
     (case net_new (limited_ops 9000 9014) () of Ok d \<Rightarrow> word_of_nat (le_nat (read_config (nconfig d) 10 2)) = (9000 :: u16) | _ \<Rightarrow> False) \<and>
     \<not> is_ok (net_new (limited_ops 9000 9013) ()) \<and>
     \<not> is_ok (net_new (limited_ops 67 1514) ()) \<and>
     \<not> is_ok (net_new (limited_ops 1500 (65535 + 19)) ())"

definition test_scatter_transmit_receive_and_irq :: net_test where
  "test_scatter_transmit_receive_and_irq = steps [
     fine (\<lambda>t n m. rdn t 8 4 = Some 1 \<and> rdn t 0x100 4 = Some 2 \<and> rdn t 0x104 2 = Some 0x100 \<and> rdn t 0x10a 2 = Some 1500),
     send_frame,
     wrn 0x50 1,
     fine (\<lambda>t n m. fn_sent n = [replicate 64 0x5a] \<and> used 1 m = (1, 0)),
     post 0 [desc_bytes 0xa000 7 3 1, desc_bytes 0xb000 100 2 0],
     wrn 0x50 0,
     fine (\<lambda>t n m. used 0 m = (0, 0) \<and> gq_next_avail (rings (queues t) ! 0) = 0),
     nic (\<lambda>n. n\<lparr>fn_received := [replicate 64 0x5a]\<rparr>),
     polln,
     fine (\<lambda>t n m. used 0 m = (1, 76) \<and>
       load_bytes 0xa000 7 m @ load_bytes 0xb000 69 m = replicate 10 0 @ [1, 0] @ replicate 64 0x5a \<and> interrupt_pending t),
     wrn 0x64 1,
     fine (\<lambda>t n m. \<not> interrupt_pending t)]"

definition test_backpressure_retries_owned_frame_once :: net_test where
  "test_backpressure_retries_owned_frame_once = steps [
     send_frame,
     nic (\<lambda>n. n\<lparr>fn_blocked := True\<rparr>),
     wrn 0x50 1,
     fine (\<lambda>t n m. used 1 m = (0, 0) \<and> gq_next_avail (rings (queues t) ! 1) = 1),
     put_guest 0x9000 (replicate 71 0xff),
     polln,
     nic (\<lambda>n. n\<lparr>fn_blocked := False\<rparr>),
     polln,
     polln,
     fine (\<lambda>t n m. fn_sent n = [replicate 64 0x5a] \<and> used 1 m = (1, 0)),
     send_frame,
     nic (\<lambda>n. n\<lparr>fn_blocked := True\<rparr>),
     polln,
     fine (\<lambda>t n m. pending_tx (device t) \<noteq> None),
     wrn 0x70 0,
     fine (\<lambda>t n m. pending_tx (device t) = None),
     nic (\<lambda>n. n\<lparr>fn_blocked := False\<rparr>),
     polln,
     fine (\<lambda>t n m. length (fn_sent n) = 1)]"

definition test_disabled_tx_queue_holds_pending_frame :: net_test where
  "test_disabled_tx_queue_holds_pending_frame = steps [
     send_frame,
     nic (\<lambda>n. n\<lparr>fn_blocked := True\<rparr>),
     polln,
     fine (\<lambda>t n m. pending_tx (device t) \<noteq> None),
     wrn 0x30 1,
     wrn 0x44 0,
     fails_with DeviceError.QueueConfigurationAfterDriverOk (wrn 0x44 1),
     nic (\<lambda>n. n\<lparr>fn_blocked := False\<rparr>),
     polln,
     wrn 0x50 1,
     fine (\<lambda>t n m. fn_sent n = [] \<and> used 1 m = (0, 0)),
     nic (\<lambda>n. n\<lparr>fn_received := [replicate 64 0x77]\<rparr>),
     post 0 [desc_bytes 0xa000 2048 2 0],
     polln,
     fine (\<lambda>t n m. used 0 m = (1, 76)),
     wrn 0x70 0,
     fine (\<lambda>t n m. pending_tx (device t) = None)]"

definition test_lenient_isolates_guest_frames :: net_test where
  "test_lenient_isolates_guest_frames = steps [
     (\<lambda>(t, m). (Ok (), with_strict False t, m)),
     post 1 [desc_bytes 0x8000 11 0 0],
     polln,
     fine (\<lambda>t n m. needs_reset t \<and> \<not> active t \<and> rdn t 0x60 4 = Some 2 \<and> rdn t 0x70 4 = Some 0x4f),
     send_frame,
     polln,
     wrn 0x50 1,
     fine (\<lambda>t n m. fn_sent n = []),
     wrn 0x70 0,
     fine (\<lambda>t n m. \<not> needs_reset t \<and> \<not> interrupt_pending t)]"

definition test_lenient_backend_failure :: net_test where
  "test_lenient_backend_failure = steps [
     (\<lambda>(t, m). (Ok (), with_strict False t, m)),
     send_frame,
     nic (\<lambda>n. n\<lparr>fn_fail := True\<rparr>),
     (\<lambda>s. case polln s of (Err (DeviceError.Net _), s) \<Rightarrow> (Ok (), s) | (_, s) \<Rightarrow> (Panic, s)),
     fine (\<lambda>t n m. \<not> needs_reset t)]"

definition test_lenient_backend_contract :: net_test where
  "test_lenient_backend_contract = steps [
     (\<lambda>(t, m). (Ok (), with_strict False t, m)),
     post 0 [desc_bytes 0xa000 2048 2 0],
     nic (\<lambda>n. n\<lparr>fn_received := [replicate 8 0]\<rparr>),
     (\<lambda>s. case polln s of (Err (DeviceError.InvalidBackendRxPacketSize len _), s) \<Rightarrow> (if len = 8 then Ok () else Panic, s) | (_, s) \<Rightarrow> (Panic, s)),
     fine (\<lambda>t n m. \<not> needs_reset t)]"

definition test_short_rx_drops_packet :: net_test where
  "test_short_rx_drops_packet = steps [
     nic (\<lambda>n. n\<lparr>fn_received := [replicate 64 0x77]\<rparr>),
     put_guest 0x8000 (replicate 32 0xaa),
     post 0 [desc_bytes 0x8000 32 2 0],
     polln,
     fine (\<lambda>t n m. used 0 m = (1, 0) \<and> m 0x8000 = 0xaa)]"

definition test_invalid_frames :: "u32 \<Rightarrow> u16 \<Rightarrow> net_test" where
  "test_invalid_frames len flags = steps [
     post 1 [desc_bytes 0x8000 len flags 0], is_err polln, fine (\<lambda>t n m. fn_sent n = [])]"

definition test_offload_rejected :: net_test where
  "test_offload_rejected = steps [send_frame, put_guest 0x8000 [1], is_err polln]"

definition test_readable_rx_rejected :: net_test where
  "test_readable_rx_rejected = steps [
     post 0 [desc_bytes 0x8000 2048 0 0], nic (\<lambda>n. n\<lparr>fn_received := [replicate 64 0]\<rparr>), is_err polln]"

definition test_backend_error :: net_test where
  "test_backend_error = steps [
     send_frame,
     nic (\<lambda>n. n\<lparr>fn_fail := True\<rparr>),
     (\<lambda>s. case polln s of (Err (DeviceError.Net (NetError.Backend _)), s) \<Rightarrow> (Ok (), s) | (_, s) \<Rightarrow> (Panic, s)),
     fine (\<lambda>t n m. used 1 m = (0, 0))]"

definition test_overlapping_receive_uses_snapshot :: net_test where
  "test_overlapping_receive_uses_snapshot = steps [
     nic (\<lambda>n. n\<lparr>fn_received := [map word_of_nat [0 ..< 64]]\<rparr>),
     post 0 [desc_bytes 0x8000 20 3 1, desc_bytes 0x8000 2048 2 0],
     polln,
     fine (\<lambda>t n m. fn_rx_addresses n ! 0 ! 0 \<noteq> Some (0x8000 + HEADER) \<and> load_bytes 0x8000 56 m = map word_of_nat [8 ..< 64])]"

definition test_invalid_tail_never_reaches_backend :: net_test where
  "test_invalid_tail_never_reaches_backend = steps [
     post 1 [desc_bytes 0x8000 40 1 1, desc_bytes 0x1fff0 40 0 0],
     is_err polln,
     fine (\<lambda>t n m. fn_tx_addresses n = [])]"

section \<open>The model passes the tests\<close>

lemma nic_at [simp]: "nd_send nic_ops = fake_send" "nd_recv nic_ops = fake_recv"
  by (simp_all add: nic_ops_def)

lemma card_at [simp]:
  "vd_notify card_ops q = net_notify guest nic_ops q" "vd_poll card_ops = net_poll guest nic_ops" "vd_reset card_ops = net_reset"
  "vd_read_config card_ops d = read_config (nconfig d)" "vd_device_id card_ops d = 1" "vd_required_features card_ops d = 0"
  "vd_generation card_ops d = 0"
  by (simp_all add: card_ops_def net_ops_of_def net_device_id_def)

lemma net_lifted_at:
  "on_net f (d, qs, m) = (case f (backend d, m) of (r, n, m') \<Rightarrow> (map_err DeviceError.Net r, d\<lparr>backend := n\<rparr>, qs, m'))"
  "on_memory g (d, qs, m) = (case g m of (r, m') \<Rightarrow> (r, d, qs, m'))"
  by (simp_all add: on_net_def on_memory_def ext_at_state split: prod.splits)

lemma poll_eq: "polln (t, m) = (if active t then run_contained (net_poll guest nic_ops) (t, m) else (Ok (), t, m))"
  by (simp add: polln_def mmio_poll_def)

definition ready_net :: test_net where
  "ready_net = \<lparr>device = \<lparr>backend = \<lparr>fn_received = [], fn_sent = [], fn_blocked = False, fn_fail = False,
       fn_tx_addresses = [], fn_rx_addresses = []\<rparr>,
       nconfig = [2, 0, 0, 0, 0, 1, 0, 0, 0, 0, 220, 5], rx = replicate 1526 0, pending_tx = None, tx = []\<rparr>,
     queues = \<lparr>rings = [
        \<lparr>gq_max = 128, gq_size = 8, gq_ready = True, gq_desc = 0x1000, gq_avail = 0x2000, gq_used = 0x3000, gq_next_avail = 0, gq_next_used = 0\<rparr>,
        \<lparr>gq_max = 128, gq_size = 8, gq_ready = True, gq_desc = 0x4000, gq_avail = 0x5000, gq_used = 0x6000, gq_next_avail = 0, gq_next_used = 0\<rparr>],
        negotiated = 0x100000028, interrupt = 0\<rparr>,
     feature_sel = 0, driver_sel = 0, queue_sel = 1, features = 0x100000028, mstatus = 15, strict = True, rejected = 0\<rparr>"

lemma replicates: "replicate 2 x = [x, x]" "replicate 4 x = [x, x, x, x]" "replicate 6 x = [x, x, x, x, x, x]" "replicate 5 x = [x, x, x, x, x]"
  "replicate 7 x = [x, x, x, x, x, x, x]" "replicate 12 x = [x, x, x, x, x, x, x, x, x, x, x, x]"
  by (simp_all add: numeral_eq_Suc)

lemma net_setup_value: "net_setup = Ok (ready_net, \<lambda>a. 0)"
proof -
  have new: "net_new nic_ops n = Ok \<lparr>backend = n, nconfig = [2, 0, 0, 0, 0, 1, 0, 0, 0, 0, 220, 5], rx = replicate 1526 0, pending_tx = None,
      tx = []\<rparr>" for n
    by (simp add: net_new_def nic_ops_def HEADER_def put_bytes_def le_bytes_values replicates word_le_nat_alt)
  show ?thesis unfolding net_setup_def new
    by (simp add: mmio_new_def guest_def [THEN arg_cong, of cq_new] card_ops_def net_ops_of_def net_features_def NET_F_MAC_def NET_F_MTU_def
        initialize_def initialize_queue_def upt_rec test_prog_defs transport_eqs replicates ready_net_def)
qed

lemma associated_mtu_and_frame_capacity: test_associated_mtu_and_frame_capacity
  by (simp add: test_associated_mtu_and_frame_capacity_def net_new_def limited_ops_def HEADER_def put_bytes_def le_bytes_values replicates
      read_config_def upt_rec word_le_nat_alt)

lemmas net_at = net_lifted_at poll_eq net_notify_def [THEN fun_cong] net_poll_def [THEN fun_cong] transmit_def [THEN fun_cong]
  transmit_step_def [THEN fun_cong] transmit_pending_def [THEN fun_cong] transmit_chain_def [THEN fun_cong] receive_def [THEN fun_cong]
  receive_step_def [THEN fun_cong] receive_chain_def [THEN fun_cong] receive_frame_def [THEN fun_cong] deliver_def [THEN fun_cong]
  net_reset_def [THEN fun_cong] copy_to.simps [THEN fun_cong] copy_from.simps [THEN fun_cong] loop_step

lemmas net_run = passes_def net_setup_value ready_net_def wrn_def put_guest_def fine_def nic_def post_def test_prog_defs
  transport_eqs queue_eqs complete_def gq_add_used_def net_at slices_def range_slices_def range_from.simps chain_total_def
  fake_send_def fake_recv_def desc_bytes_def le_bytes_values usize_add_def send_frame_def used_def HEADER_def BUDGET_def
  unpop_def rx_header_def put_bytes_def replicates load_inside load_other overlaps_def

lemma short_rx_drops_packet: "passes net_setup test_short_rx_drops_packet"
  by (simp add: test_short_rx_drops_packet_def net_run)

lemma invalid_frames: "passes net_setup (test_invalid_frames 11 0)" "passes net_setup (test_invalid_frames 25 0)"
   "passes net_setup (test_invalid_frames 1527 0)" "passes net_setup (test_invalid_frames 76 2)"
  by (simp_all add: test_invalid_frames_def net_run)

lemma load_5: "load_bytes a 5 m = [m a, m (a + 1), m (a + 2), m (a + 3), m (a + 4)]"
  by (simp add: load_bytes_def upt_rec numeral_eq_Suc)

lemma offload_rejected: "passes net_setup test_offload_rejected"
  by (simp add: test_offload_rejected_def net_run load_5)

lemma readable_rx_rejected: "passes net_setup test_readable_rx_rejected"
  by (simp add: test_readable_rx_rejected_def net_run)

lemma backend_error: "passes net_setup test_backend_error"
  by (simp add: test_backend_error_def net_run)

lemma lenient_backend_failure: "passes net_setup test_lenient_backend_failure"
  by (simp add: test_lenient_backend_failure_def net_run with_strict_def needs_reset_def)

lemma lenient_backend_contract: "passes net_setup test_lenient_backend_contract"
  by (simp add: test_lenient_backend_contract_def net_run with_strict_def needs_reset_def)

lemma lenient_isolates_guest_frames: "passes net_setup test_lenient_isolates_guest_frames"
  by (simp add: test_lenient_isolates_guest_frames_def net_run with_strict_def needs_reset_def config_changed_def rdn_def mmio_read_def
      interrupt_pending_def)

lemma disabled_tx_queue_holds_pending_frame: "passes net_setup test_disabled_tx_queue_holds_pending_frame"
  by (simp add: test_disabled_tx_queue_holds_pending_frame_def net_run)

lemma backpressure_retries_owned_frame_once: "passes net_setup test_backpressure_retries_owned_frame_once"
  by (simp add: test_backpressure_retries_owned_frame_once_def net_run)

lemma invalid_tail_never_reaches_backend: "passes net_setup test_invalid_tail_never_reaches_backend"
  by (simp add: test_invalid_tail_never_reaches_backend_def net_run)

lemma overlapping_receive_uses_snapshot: "passes net_setup test_overlapping_receive_uses_snapshot"
  by (simp add: test_overlapping_receive_uses_snapshot_def net_run)

lemma replicate_10: "replicate 10 x = [x, x, x, x, x, x, x, x, x, x]"
  by (simp add: numeral_eq_Suc)

lemma scatter_transmit_receive_and_irq: "passes net_setup test_scatter_transmit_receive_and_irq"
  by (simp add: test_scatter_transmit_receive_and_irq_def net_run rdn_def mmio_read_def read_config_def interrupt_pending_def replicate_10)

end
