(* ===== verification/UnitTests.thy ===== *)
theory UnitTests
  imports Macos Messages Cli Scenarios TestGuest
begin

text \<open>
  The unit tests of the repository that need neither a guest nor queues, each as the conjunction of what it asserts on the model's
  definitions, in its order: \<open>storage.rs\<close>, \<open>boot.rs\<close>, \<open>net/macos.rs\<close>, \<open>error.rs\<close>, \<open>control.rs\<close>, the files of
  \<open>platform/macos_arm64\<close> and the demo's \<open>main.rs\<close>. A test with threads fixes the order in which they take their steps; where
  it waits for something, the condition of the wait is asserted to be false before and true after.
  That a reference-counted mapping is alive becomes: the table holds its allocation.
  Lemmas: the model passes every test.
\<close>

section \<open>Storage\<close>

definition test_disk_bounds :: bool where
  "test_disk_bounds \<longleftrightarrow>
     bounds 4096 4090 7 = Err (StorageError.OutOfBounds 4096 4090 7) \<and>
     (case bounds 4096 u64_max 1 of Err (StorageError.OutOfBounds _ offset _) \<Rightarrow> offset = u64_max | _ \<Rightarrow> False) \<and>
     is_ok (bounds 4096 0 4096)"

definition sample_header :: bytes where
  "sample_header = [0x51, 0x46, 0x49, 0xfb, 0, 0, 0, 3] @ replicate 15 0 @ [16] @ replicate 6 0 @ [2] @ replicate 72 0 @ [104]"

definition test_unsupported_headers :: bool where
  "test_unsupported_headers \<longleftrightarrow>
     validate_header sample_header = Ok 512 \<and>
     (\<forall>p \<in> set [8, 16, 32, 60, 64, 72]. \<not> is_ok (validate_header (sample_header[p := 1]))) \<and>
     validate_header (take 72 sample_header) = Err StorageError.InvalidHeader"

section \<open>Boot\<close>

text \<open>\<open>kern\<close> is the embedded kernel image and \<open>n\<close> the length of the initramfs.\<close>

definition test_large_ram_and_ipa_boundaries :: "bytes \<Rightarrow> usize \<Rightarrow> bool" where
  "test_large_ram_and_ipa_boundaries kern n \<longleftrightarrow>
     (case layout_new 32768 kern n of Ok l \<Rightarrow> bl_size l = 32768 * unat BOOT_MIB | _ \<Rightarrow> False) \<and>
     (\<forall>mib \<in> set [u64_max, u64_max div BOOT_MIB + 1, u64_max div BOOT_MIB]. \<not> is_ok (layout_new mib kern 0)) \<and>
     (let limit = push_bit 36 1 in
       validate_ipa_range RAM (limit - RAM) 36 = Ok () \<and>
       \<not> is_ok (validate_ipa_range RAM (limit - RAM + 1) 36)) \<and>
     \<not> is_ok (validate_ipa_range u64_max 1 64) \<and>
     (\<forall>bits \<in> set [0, 65]. \<not> is_ok (validate_ipa_range RAM BOOT_MIB bits)) \<and>
     validate_ipa_range RAM BOOT_MIB 64 = Ok ()"

definition test_rejects_layout_overflow :: "bytes \<Rightarrow> usize \<Rightarrow> bool" where
  "test_rejects_layout_overflow kern n \<longleftrightarrow>
     \<not> is_ok (layout_new 64 kern n) \<and>
     \<not> is_ok (layout_new 128 kern (unat u64_max)) \<and>
     \<not> is_ok (layout_new 512 (take 16 kern @ replicate 8 0xff @ drop 24 (take 64 kern)) 0)"

definition test_device_regions :: bool where
  "test_device_regions \<longleftrightarrow>
     (\<forall>n \<in> set [0, 1, 2, 3]. case virtio_regions n of
        Ok regions \<Rightarrow> length regions = n \<and> (\<forall>(i, region) \<in> set (enumerate 0 regions).
          vr_address region = VIRTIO_BASE + word_of_nat i * VIRTIO_STRIDE \<and> vr_irq region = VIRTIO_IRQ_BASE + word_of_nat i \<and>
          vr_address region + VIRTIO_STRIDE \<le> GIC_REDIST)
      | _ \<Rightarrow> False) \<and>
     \<not> is_ok (virtio_regions (unat u64_max))"

section \<open>Network addresses\<close>

definition test_mac_parsing :: bool where
  "test_mac_parsing \<longleftrightarrow>
     parse_mac ''02:ab:00:19:FE:01'' = Ok [2, 171, 0, 25, 254, 1] \<and>
     (\<forall>invalid \<in> set ['''', ''02:00:00'', ''0:00:00:00:00:00'', ''gg:00:00:00:00:00'']. \<not> is_ok (parse_mac invalid))"

section \<open>Errors\<close>

definition test_only_guest_errors_are_containable :: bool where
  "test_only_guest_errors_are_containable \<longleftrightarrow>
     (\<forall>(e, guest) \<in> set [
        (DeviceError.AvailableRingOverrun 9 8, True),
        (DeviceError.InvalidBlockHeaderStatus, True),
        (DeviceError.StatusBitsCleared, True),
        (DeviceError.Memory (MemoryError.InvalidVirtioMemRequestBuffers 0 0), True),
        (DeviceError.Memory (MemoryError.RollbackFailed (MemoryError.Backend ''map'') (MemoryError.Backend ''unmap'')), False),
        (DeviceError.Memory (memory_error_from PlatformError.EmptyRegion), False),
        (DeviceError.Storage StorageError.ReadOnly, False),
        (DeviceError.Net NetError.Closed, False),
        (DeviceError.InvalidBackendRxPacketSize 8 1514, False)]. is_guest e = guest)"

definition test_errors_keep_backend_causes :: bool where
  "test_errors_keep_backend_causes \<longleftrightarrow>
     diagnostic (vmm_chain (\<lambda>e. if e = ''backend flush'' then [''host failure''] else [])
       (VmmError.Storage (StorageError.Backend ''backend flush''))) = ''backend flush: host failure''"

section \<open>The lifecycle\<close>

text \<open>Thread 0 runs the VM.\<close>

definition running_control :: vm_control where
  "running_control = running (snd (begin_run 0 (control_new None)))"

definition test_unused_cancelled_and_owner_thread :: bool where
  "test_unused_cancelled_and_owner_thread \<longleftrightarrow>
     (let c = control_new None in
       fst (submit 0 OpPause c) = Err ControlError.NotRunning \<and> fst (submit 0 OpResume c) = Err ControlError.NotRunning \<and>
       (case stop 0 c of (r, c) \<Rightarrow> r = Ok () \<and> stop_result c = Some (Ok ()) \<and>
        (case stop 0 c of (r, c) \<Rightarrow> r = Ok () \<and> stop_result c = Some (Ok ()) \<and>
          fst (begin_run 0 c) = Err ControlError.Cancelled \<and> vm_lifecycle (dropped False c) = VmStopped))) \<and>
     vm_lifecycle (dropped False (control_new None)) = VmStopped \<and>
     fst (begin_run 0 (control_new None)) = Ok () \<and>
     (\<forall>r \<in> set [and_then (fst (submit 0 OpPause running_control)) (\<lambda>_. Ok ()),
        and_then (fst (submit 0 OpResume running_control)) (\<lambda>_. Ok ()), fst (stop 0 running_control)].
        case r of Err e \<Rightarrow> sublist ''VMM thread'' (hd (control_chain (\<lambda>e. []) e)) | _ \<Rightarrow> False)"

definition test_paused_wait :: bool where
  "test_paused_wait \<longleftrightarrow>
     (let c = (control_new None)\<lparr>vm_lifecycle := VmPaused\<rparr> in
       \<not> wait_over c \<and>
       (let c = c\<lparr>requests := requests c @ [\<lparr>operation = OpResume, reply = 0\<rparr>]\<rparr> in
         wait_over c \<and>
         (case next_request c of (r, c) \<Rightarrow> r \<noteq> None \<and> wait_over (c\<lparr>vm_lifecycle := VmStopping\<rparr>))))"

definition test_stop_cancels_queue :: bool where
  "test_stop_cancels_queue \<longleftrightarrow>
     (case submit 1 OpPause running_control of (Ok ticket, c) \<Rightarrow>
       let c = snd (stop 5 (snd (stop 4 (snd (stop 3 (snd (stop 2 c))))))) in
       stopping c \<and>
       map_option submit_result (map_of (replies c) ticket) = Some (Err (ControlError.ReplyFailed STOPPING)) \<and>
       stop_result c = None \<and> fst (next_request c) = None \<and>
       (let error = Some (vmm_chain (\<lambda>e. []) (VmmError.Storage (StorageError.Backend ''flush failed'')));
            c = finish error (cleanup_result error c) in
         (case stop_result c of Some (Err e) \<Rightarrow> hd (control_chain (\<lambda>e. []) e) = ''flush failed'' | _ \<Rightarrow> False) \<and>
         stop_result (snd (stop 1 c)) = Some (Err (ControlError.CleanupFailed ''flush failed'')) \<and>
         final_error c = Some ''flush failed'')
     | _ \<Rightarrow> False)"

definition test_full_diagnostics :: bool where
  "test_full_diagnostics \<longleftrightarrow>
     (let outcome = Some (vmm_chain (\<lambda>e. if e = ''backend cleanup'' then [''host failure''] else [])
            (VmmError.Platform (PlatformError.Backend ''backend cleanup'')));
          c = complete_request \<lparr>operation = OpPause, reply = 7\<rparr> outcome running_control;
          shown = ''backend cleanup: host failure'' in
       map_option submit_result (map_of (replies c) 7) = Some (Err (ControlError.ReplyFailed shown)) \<and>
       (let c = finish outcome (cleanup_result outcome c) in
         stop_result (snd (stop 1 c)) = Some (Err (ControlError.CleanupFailed shown)) \<and>
         stop_result (snd (stop 1 (snd (stop 1 c)))) = Some (Err (ControlError.CleanupFailed shown)) \<and>
         final_error c = Some shown))"

section \<open>The table of mappings\<close>

text \<open>A region with its own host allocation, the hypervisor calls that succeed, fail or must not happen.\<close>

definition test_region :: "u64 \<Rightarrow> u64 \<Rightarrow> nat \<Rightarrow> region" where
  "test_region address sz alloc = \<lparr>r_start = address, r_len = sz, r_ptr = 0, r_alloc = alloc\<rparr>"

definition injected :: "(unit, unit, PlatformError) prog" where
  "injected = throw (PlatformError.Backend ''injected'')"

definition unreachable :: "(unit, unit, PlatformError) prog" where
  "unreachable h = (Panic, h)"

definition table_map :: "region \<Rightarrow> (unit, unit, PlatformError) prog \<Rightarrow> mappings \<Rightarrow> (unit, PlatformError) result \<times> mappings" where
  "table_map r f t = (case mappings_map r f (t, ()) of (x, t, _) \<Rightarrow> (x, t))"

definition table_unmap ::
  "region \<Rightarrow> (u64 \<Rightarrow> u64 \<Rightarrow> (unit, unit, PlatformError) prog) \<Rightarrow> mappings \<Rightarrow> (unit, PlatformError) result \<times> mappings" where
  "table_unmap r f t = (case mappings_unmap r f (t, ()) of (x, t, _) \<Rightarrow> (x, t))"

definition table_holds :: "nat \<Rightarrow> mappings \<Rightarrow> bool" where
  "table_holds alloc t \<longleftrightarrow> alloc \<in> r_alloc ` set (bt_values t)"

definition test_table_owns_mappings :: bool where
  "test_table_owns_mappings \<longleftrightarrow>
     (let a = test_region 0x10000 0x4000 1 in
      case table_map a (ret ()) [] of (x1, t) \<Rightarrow>
      case table_unmap (test_region 0x10000 0x4000 2) (\<lambda>_ _. unreachable) t of (x2, t2) \<Rightarrow>
      case table_unmap (a\<lparr>r_start := 0x14000\<rparr>) (\<lambda>_ _. unreachable) t2 of (x3, t3) \<Rightarrow>
      case table_map (test_region 0x20000 0x8000 3) (ret ()) t3 of (x4, t4) \<Rightarrow>
      case table_unmap (test_region 0x20000 0x4000 4) (\<lambda>_ _. unreachable) t4 of (x5, t5) \<Rightarrow>
      case table_unmap a (\<lambda>_ _. injected) t5 of (x6, t6) \<Rightarrow>
      case table_unmap a (\<lambda>address sz. if address = 0x10000 \<and> sz = 0x4000 then ret () else unreachable) t6 of (x7, t7) \<Rightarrow>
        x1 = Ok () \<and> table_holds 1 t \<and> bt_get t 0x10000 = Some a \<and>
        x2 = Err (PlatformError.MappingMismatch 0x10000 0x4000) \<and>
        x3 = Err (PlatformError.MappingNotFound 0x14000 0x4000) \<and>
        x4 = Ok () \<and>
        x5 = Err (PlatformError.MappingNotFound 0x20000 0x4000) \<and>
        \<not> is_ok x6 \<and> table_holds 1 t6 \<and>
        x7 = Ok () \<and> \<not> table_holds 1 t7 \<and> length t7 = 1)"

definition test_failed_map_takes_no_ownership :: bool where
  "test_failed_map_takes_no_ownership \<longleftrightarrow>
     (case table_map (test_region 0x10000 0x4000 1) (ret ()) [] of (x1, t) \<Rightarrow>
      x1 = Ok () \<and>
      (\<forall>(address, sz) \<in> set [(0x10000, 0x4000), (0xf000, 0x2000), (0x13000, 0x4000)].
         table_map (test_region address sz 2) unreachable t = (Err (PlatformError.MappingOverlap address sz), t)) \<and>
      (case table_map (test_region 0xc000 0x4000 3) (ret ()) t of (x2, t) \<Rightarrow>
       case table_map (test_region 0x14000 0x4000 4) (ret ()) t of (x3, t) \<Rightarrow>
       case table_map (test_region 0x20000 0x4000 5) injected t of (x4, t) \<Rightarrow>
         x2 = Ok () \<and> x3 = Ok () \<and> \<not> is_ok x4 \<and> \<not> table_holds 5 t \<and> length t = 3))"

definition test_destroy_failure_leaks :: bool where
  "test_destroy_failure_leaks \<longleftrightarrow>
     (\<forall>success \<in> set [True, False].
        case table_map (test_region 0x10000 0x4000 1) (ret ()) [] of (x, t) \<Rightarrow>
        case mappings_destroyed success t of (t, leaked) \<Rightarrow>
          x = Ok () \<and> (1 \<notin> r_alloc ` set leaked \<and> \<not> table_holds 1 t) = success)"

section \<open>vCPU threads\<close>

definition test_psci_states_and_affinity :: bool where
  "test_psci_states_and_affinity \<longleftrightarrow>
     (let s = shared_new 4 in
      case shared_on 3 0x8000 42 s of (r1, s1) \<Rightarrow>
      case shared_on 3 0x8000 0 s1 of (r2, s2) \<Rightarrow>
      let s3 = s2\<lparr>power := (power s2)[3 := On]\<rparr> in
      case shared_on 3 0x8000 0 s3 of (r4, s4) \<Rightarrow>
      let s5 = s4\<lparr>power := (power s4)[3 := Off]\<rparr> in
      case shared_on 3 0x9000 9 s5 of (r6, s6) \<Rightarrow>
        shared_affinity 3 0 s = 1 \<and> r1 = 0 \<and> r2 = - 5 \<and> shared_affinity 3 0 s2 = 2 \<and> r4 = - 4 \<and> shared_affinity 3 0 s4 = 0 \<and>
        r6 = 0 \<and> fst (shared_on 4 0 0 s6) = - 2 \<and> fst (shared_on u64_max 0 0 s6) = - 2 \<and> fst (shared_on 0 3 0 s6) = - 9 \<and>
        shared_affinity 4 0 s6 = - 2 \<and> shared_affinity 0 4 s6 = - 2 \<and> shared_affinity 0 1 s6 = 0 \<and> shared_affinity 3 1 s6 = 0 \<and>
        shared_affinity 0x100 1 s6 = - 2)"

definition test_pause_and_stop :: bool where
  "test_pause_and_stop \<longleftrightarrow>
     (let s = pause_begin (set_running 0 True (shared_new 4)) in
      paused s \<and> pause_outcome s = None \<and>
      (let s = set_running 0 False s in
       pause_outcome s = Some OutcomePaused \<and> paused s \<and>
       (let s = shared_resume s in
        \<not> paused s \<and> pause_outcome (pause_begin (shared_stop s)) = Some OutcomeStopping)))"

definition test_reply_cannot_cross_pause :: bool where
  "test_reply_cannot_cross_pause \<longleftrightarrow>
     (\<forall>halt \<in> set [False, True].
        let s = pause_begin (wait_io 0 (set_running 0 True (shared_new 4))) in
        pause_outcome s = Some OutcomePaused \<and> io_barred s \<and> \<not> running_flags s ! 0 \<and>
        (let s = (if halt then shared_stop s else shared_resume s) in
         \<not> io_barred s \<and> fst (complete_io 0 s) = (\<not> halt)))"

definition test_write_values_are_masked :: bool where
  "test_write_values_are_masked \<longleftrightarrow>
     (\<forall>(width, stored) \<in> set [(1, 0xff), (2, 0xeeff), (4, 0xccddeeff), (8, 0x8899aabbccddeeff)].
        mask_write 0x8899aabbccddeeff width = stored)"

definition test_reply_disconnect :: bool where
  "test_reply_disconnect \<longleftrightarrow>
     (let s = shared_new 1 in
      wait_reply 0x1000 (Inr 42) s = Some (Ok (Some 42)) \<and>
      wait_reply 0x1000 (Inl RecvTimeoutError.Disconnected) s = Some (Err (PlatformError.MmioReplyDisconnected 0x1000)) \<and>
      wait_reply 0x1000 (Inl RecvTimeoutError.Disconnected) (shared_stop s) = Some (Ok None) \<and>
      wait_reply 0 (Inl RecvTimeoutError.Timeout) s = None \<and>
      wait_reply 0 (Inl RecvTimeoutError.Timeout) (shared_stop s) = Some (Ok None))"

definition test_stop_racing_pause :: bool where
  "test_stop_racing_pause \<longleftrightarrow>
     (let s = set_running 1 True (shared_new 2) in
      pause_outcome (pause_begin s) = None \<and>
      (\<forall>s \<in> set [shared_stop (pause_begin s), pause_begin (shared_stop s)].
         pause_outcome s = Some OutcomeStopping \<and> pause_outcome (pause_begin s) = Some OutcomeStopping))"

section \<open>Events of the machine\<close>

definition test_access :: "u64 \<Rightarrow> cpu_event" where
  "test_access addr = Access \<lparr>ac_addr = addr, ac_width = 4, ac_write = False, ac_value = 0\<rparr>"

definition test_fault :: "u64 \<Rightarrow> cpu_event" where
  "test_fault address = Failed (PlatformError.MmioReplyDisconnected address)"

text \<open>Nothing for an error that is not expected.\<close>

fun reported_fault :: "(unit, PlatformError) result \<Rightarrow> u64 option option" where
  "reported_fault (Ok _) = Some None"
| "reported_fault (Err (PlatformError.MmioReplyDisconnected address)) = Some (Some address)"
| "reported_fault _ = None"

definition test_drain_returns_first_fault :: bool where
  "test_drain_returns_first_fault \<longleftrightarrow>
     reported_fault (drain [test_access 0x10, ShutdownEvent, test_fault 1, test_fault 2] (Ok ())) = Some (Some 1) \<and>
     reported_fault (drain [] (Ok ())) = Some None"

definition test_polled_fault_is_not_reported_again :: bool where
  "test_polled_fault_is_not_reported_again \<longleftrightarrow>
     (case poll_channel [test_fault 1, ShutdownEvent, test_fault 2] False False of (x1, evs) \<Rightarrow>
      case poll_channel evs False False of (x2, evs) \<Rightarrow>
        x1 = Err (PlatformError.MmioReplyDisconnected 1) \<and> x2 = Ok (Some Shutdown) \<and>
        reported_fault (drain evs (Ok ())) = Some (Some 2) \<and> reported_fault (drain [] (Ok ())) = Some None)"

definition test_poll_orders_events :: bool where
  "test_poll_orders_events \<longleftrightarrow>
     fst (poll_channel [] False False) = Ok None \<and>
     (case poll_channel [test_access 0x20, test_fault 3] False True of (x1, evs) \<Rightarrow>
      case poll_channel evs False True of (x2, evs) \<Rightarrow>
        (case x1 of Ok (Some (Event.Io a)) \<Rightarrow> a_address a = 0x20 | _ \<Rightarrow> False) \<and> \<not> is_ok x2 \<and>
        fst (poll_channel evs False True) = Ok (Some Shutdown) \<and>
        fst (poll_channel evs True True) = Ok (Some Shutdown) \<and>
        fst (poll_channel evs True False) = Err PlatformError.EventChannelDisconnected)"

section \<open>The command line\<close>

definition test_named_disks_and_legacy_path :: bool where
  "test_named_disks_and_legacy_path \<longleftrightarrow>
     (case disk_paths [''sdb=b.qcow2'', ''sda=a.qcow2''] of Ok disks \<Rightarrow> bt_keys disks = [''sda'', ''sdb''] | _ \<Rightarrow> False) \<and>
     (case disk_paths [''a.qcow2''] of Ok disks \<Rightarrow> bt_get disks ''disk0'' = Some ''a.qcow2'' | _ \<Rightarrow> False) \<and>
     \<not> is_ok (disk_paths [''sda=a'', ''sda=b'']) \<and>
     \<not> is_ok (disk_paths [''sda=''])"

section \<open>The model passes the tests\<close>

lemma disk_bounds: "test_disk_bounds"
  by (simp add: test_disk_bounds_def bounds_def checked_add_def u64_max_value)

lemma sample_header_bytes: "sample_header =
  [0x51, 0x46, 0x49, 0xfb, 0, 0, 0, 3] @ [0, 0, 0, 0, 0, 0, 0, 0] @ [0, 0, 0, 0, 0, 0, 0, 16] @ [0, 0, 0, 0, 0, 0, 2, 0] @
  [0, 0, 0, 0, 0, 0, 0, 0] @ [0, 0, 0, 0, 0, 0, 0, 0] @ [0, 0, 0, 0, 0, 0, 0, 0] @ [0, 0, 0, 0, 0, 0, 0, 0] @ [0, 0, 0, 0, 0, 0, 0, 0] @
  [0, 0, 0, 0, 0, 0, 0, 0] @ [0, 0, 0, 0, 0, 0, 0, 0] @ [0, 0, 0, 0, 0, 0, 0, 0] @ [0, 0, 0, 0, 0, 0, 0, 104]"
  by (simp add: sample_header_def numeral_nat)

lemma unsupported_headers: "test_unsupported_headers"
  by (simp add: test_unsupported_headers_def sample_header_bytes validate_header_def qcow2_magic_def u32at_def u64at_def
      sub_bytes_def be_nat_def is_multiple_of_def)

lemma is_ok_and_then: "is_ok (and_then r f) \<longleftrightarrow> (\<exists>x. r = Ok x \<and> is_ok (f x))"
  by (cases r) auto

lemma eight_times: "replicate 8 x = [x, x, x, x, x, x, x, x]"
  by (simp add: numeral_eq_Suc)

lemmas layout_defs = layout_new_def boot_mib_bytes_def checked_mul_def checked_add_def checked_sub_def BOOT_MIB_def RAM_def u64_max_value
  Let_def

lemma image_size_overflow: "\<not> is_ok (layout_new 512 (take 16 kern @ replicate 8 0xff @ drop 24 (take 64 kern)) 0)"
proof (cases "64 \<le> length kern")
  case True
  let ?k = "take 16 kern @ replicate 8 0xff @ drop 24 (take 64 kern)"
  have size: "kernel_word ?k 16 = u64_max"
    using True by (simp add: kernel_word_def sub_bytes_def eight_times u64_max_value)
  have "max u64_max x = u64_max" for x
    by (simp add: max_absorb1 u64_max_def)
  moreover have "checked_add e u64_max = None" if "checked_add RAM off = Some e" for e off :: u64
    using checked_add_Some [OF that] by (simp add: checked_add_None_iff RAM_def u64_max_value)
  ultimately show ?thesis
    by (auto simp: layout_new_def size Let_def is_ok_and_then)
qed (auto simp: layout_new_def)

lemma rejects_layout_overflow: "test_rejects_layout_overflow kern n"
  using image_size_overflow
  by (auto simp: test_rejects_layout_overflow_def layout_defs)

text \<open>A kernel of 64 bytes; any that fits into the memory passes.\<close>

lemma large_layout: "layout_new 32768 small_kernel 4096 =
    Ok \<lparr>bl_size = 0x800000000, bl_entry = 0x40000000, bl_initrd = 0x83fdf0000, bl_dtb = 0x83fe00000\<rparr>"
proof -
  have k: "kernel_word small_kernel 16 = 64" "kernel_word small_kernel 24 = 0" "kernel_word small_kernel 8 = 0"
    by code_simp+
  have "sub_bytes 56 4 small_kernel = [0x41, 0x52, 0x4d, 0x64]" "length small_kernel = 64" by code_simp+
  then show ?thesis unfolding layout_new_def k Let_def
    by (simp add: layout_defs is_multiple_of_def word_le_nat_alt word_less_nat_alt max_def)
qed

lemma large_ram_and_ipa_boundaries: "test_large_ram_and_ipa_boundaries small_kernel 4096"
proof -
  have "\<not> is_ok (layout_new mib kern 0)" if "mib \<in> {u64_max, u64_max div BOOT_MIB + 1, u64_max div BOOT_MIB}" for mib kern
    using that by (auto simp: layout_new_def boot_mib_bytes_def checked_mul_def BOOT_MIB_def u64_max_value Let_def is_ok_and_then)
  then show ?thesis
    by (simp add: test_large_ram_and_ipa_boundaries_def large_layout validate_ipa_range_def checked_add_def RAM_def BOOT_MIB_def u64_max_value)
qed

lemma device_regions: "test_device_regions"
  by (simp add: test_device_regions_def virtio_regions_def upt_rec u64_max_value VIRTIO_BASE_def VIRTIO_STRIDE_def VIRTIO_IRQ_BASE_def GIC_REDIST_def)

lemma mac_parsing: "test_mac_parsing"
  by code_simp

lemma only_guest_errors_are_containable: "test_only_guest_errors_are_containable"
  by code_simp

lemma errors_keep_backend_causes: "test_errors_keep_backend_causes"
  by code_simp

lemma unused_cancelled_and_owner_thread: "test_unused_cancelled_and_owner_thread"
  by code_simp

lemma paused_wait: "test_paused_wait"
  by code_simp

lemma stop_cancels_queue: "test_stop_cancels_queue"
  by code_simp

lemma full_diagnostics: "test_full_diagnostics"
  by code_simp

lemmas table_defs = test_region_def table_map_def table_unmap_def mappings_map_def mappings_unmap_def table_holds_def unreachable_def
  injected_def bnd_def zoom_snd_def modify_def ret_def throw_def checked_add_def bt_values_def bt_get_def bt_last_below_def bt_remove_def

lemma table_owns_mappings: "test_table_owns_mappings"
  by (simp add: test_table_owns_mappings_def table_defs)

lemma failed_map_takes_no_ownership: "test_failed_map_takes_no_ownership"
  by (simp add: test_failed_map_takes_no_ownership_def table_defs)

lemma destroy_failure_leaks: "test_destroy_failure_leaks"
  by (simp add: test_destroy_failure_leaks_def mappings_destroyed_def table_defs)

lemma four_times: "replicate 4 x = [x, x, x, x]"
  by (simp add: numeral_eq_Suc)

lemma psci_states_and_affinity: "test_psci_states_and_affinity"
proof -
  have four: "shared_new 4 = \<lparr>stop_flag = False, paused = False, started = False, power = [Off, Off, Off, Off],
      running_flags = [False, False, False, False], ids = [None, None, None, None]\<rparr>"
    by (simp add: shared_new_def four_times)
  show ?thesis
    by (simp add: test_psci_states_and_affinity_def four shared_on_def shared_affinity_def u64_max_value)
qed

lemma pause_and_stop: "test_pause_and_stop"
  by code_simp

lemma reply_cannot_cross_pause: "test_reply_cannot_cross_pause"
  by code_simp

lemma write_values_are_masked: "test_write_values_are_masked"
  by code_simp

lemma reply_disconnect: "test_reply_disconnect"
  by code_simp

lemma stop_racing_pause: "test_stop_racing_pause"
  by code_simp

lemma drain_returns_first_fault: "test_drain_returns_first_fault"
  by code_simp

lemma polled_fault_is_not_reported_again: "test_polled_fault_is_not_reported_again"
  by code_simp

lemma poll_orders_events: "test_poll_orders_events"
  by code_simp

lemma named_disks_and_legacy_path: "test_named_disks_and_legacy_path"
  by code_simp

end
