(* ===== verification/Spec2Isabelle.thy ===== *)
theory Spec2Isabelle
  imports Prelude Errors Crates Buffers Storage Mmio Block Net Sample Btree VirtioMem Boot Platform Hvf Vmnet
    Devices Control Cpus Macos Runtime Vmm InProcess Text Messages Peer DemoErrors Terminal Server Cli Examples Scenarios DemoScenarios
    TestGuest MmioTests MemoryTests BlockTests NetTests UnitTests
begin

text \<open>
  Verification of w-vmm, a virtual machine monitor for Linux guests on Apple Silicon written in Rust.

  \<^bold>\<open>The program.\<close> A \<open>Vmm\<close> (\<open>src/src/lib.rs\<close>) owns a configuration, disks, a network backend, hot-pluggable memory
  and a serial line. The runtime (\<open>src/src/runtime.rs\<close>) builds one virtio-mmio device for each of them, asks a platform
  for a machine layout, validates it, starts the virtual machine and then runs one loop on the calling thread:
  it serves pause and resume requests of other threads, polls the serial line and the devices, processes memory
  requests of the guest, and answers the vCPUs' accesses to device registers. On every exit it cleans up. The platform
  (\<open>src/src/platform\<close>) is an interface; the built-in one uses Hypervisor.framework with one thread per vCPU.
  Other threads act through handles (\<open>src/src/control.rs\<close>). The demo program (\<open>src/demo\<close>) is a command line around the
  library: it puts the terminal into raw mode, turns signals and an escape key into a stop, and serves a
  control socket with one JSON request per line. Two examples show a platform and a network backend of one's own.

  \<^bold>\<open>Theories and sources.\<close> Each theory has the operations of its source file in the file's order.
  \<^item> \<open>Prelude\<close>: machine integers, results (\<open>Ok\<close>, \<open>Err\<close>, \<open>Panic\<close>), programs over a state with the \<open>?\<close>
    operator (\<open>bnd\<close>), Hoare triples with error postconditions, what a program keeps of its state, byte encodings.
  \<^item> \<open>Errors\<close>: the error enums of \<open>error.rs\<close>, which of them are the guest's fault, and diagnostics;
    \<open>Messages\<close>: the text of each error and of its causes.
  \<^item> \<open>Crates\<close>: the operations of vm-memory and virtio-queue as a record of parameters with named laws;
    \<open>Sample\<close> is an instance that satisfies them. \<open>Btree\<close>: the standard library's \<open>BTreeMap\<close> as a sorted list.
  \<^item> \<open>Buffers\<close> (\<open>devices/buffers.rs\<close>), \<open>Storage\<close> (\<open>storage.rs\<close>), \<open>Mmio\<close> (\<open>devices/mmio.rs\<close>), \<open>Block\<close>
    (\<open>devices/block.rs\<close>), \<open>Net\<close> (\<open>net.rs\<close>, \<open>devices/net.rs\<close>), \<open>Vmnet\<close> (\<open>net/macos.rs\<close>), \<open>VirtioMem\<close>
    (\<open>memory.rs\<close>, \<open>devices/memory.rs\<close>), \<open>Devices\<close> (\<open>devices/mod.rs\<close>).
  \<^item> \<open>Boot\<close> (\<open>boot.rs\<close>), \<open>Platform\<close> (\<open>platform/mod.rs\<close>), \<open>Hvf\<close>, \<open>Cpus\<close>, \<open>Macos\<close> (\<open>platform/macos_arm64\<close>).
  \<^item> \<open>Control\<close> (\<open>control.rs\<close>), \<open>Runtime\<close> (\<open>runtime.rs\<close>, \<open>serial.rs\<close>), \<open>Vmm\<close> (\<open>lib.rs\<close>).
  \<^item> \<open>DemoErrors\<close>, \<open>Server\<close>, \<open>Terminal\<close>, \<open>Cli\<close>: \<open>error.rs\<close>, \<open>control.rs\<close>, \<open>terminal.rs\<close> and \<open>main.rs\<close> of the demo program;
    \<open>Text\<close>: the text operations they use.
  \<^item> \<open>InProcess\<close> (\<open>src/examples/platform.rs\<close>) and \<open>Peer\<close> (\<open>src/demo/examples/net-peer.rs\<close>); the peer's \<open>main\<close> is in \<open>Cli\<close>.
  \<^item> \<open>Examples\<close>, \<open>Scenarios\<close> and \<open>DemoScenarios\<close>: the properties at concrete inputs.
  \<^item> \<open>TestGuest\<close>, \<open>MmioTests\<close>, \<open>BlockTests\<close>, \<open>NetTests\<close>, \<open>MemoryTests\<close>, \<open>UnitTests\<close>: the unit tests of the sources, with their fake
    backends, as programs on the model; \<open>TestGuest\<close> has the guest memory and the split queues they run on.

  \<^bold>\<open>Interfaces.\<close> Where a component relies on another the contract is a locale, and the lemmas of the client are proved
  in it: \<open>block_storage\<close> (a disk behind the block device, interpreted by \<open>Disk\<close>), \<open>virtio_device\<close> (a device behind the
  transport, interpreted by each device type and by the enum), \<open>net_backend\<close> (interpreted by vmnet and by the test peer) and
  \<open>mapper\<close> (what maps guest memory, interpreted by the table of Hypervisor.framework mappings, by the macOS virtual machine and
  by the in-process platform).

  \<^bold>\<open>What is shown.\<close>
  \<^item> Data paths: batched disk transfers equal one flat transfer, also with overlapping segments; every chain a device gets
    was validated in full; a block request becomes at most one in-bounds access; network frames have legal sizes and a
    refused frame is retried unchanged; no guest input makes a device panic.
  \<^item> Registers: confirmed features and queue counts stay consistent whatever the guest writes; a rejected write changes
    nothing; in lenient mode an error of the guest isolates its device until the driver resets it.
  \<^item> Dynamic memory: in all reachable states the plugged blocks are aligned, disjoint, mapped and accounted; a request
    is a transaction; it respects the host's target and the memory that pending descriptors use; memory is remapped only
    while all vCPUs are at rest; the cleanup unmaps everything.
  \<^item> Machine: every layout of the built-in platform is accepted, and acceptance means disjoint windows; the boot image,
    initramfs and device tree do not overlap; the device tree describes exactly the machine.
  \<^item> Concurrency: vCPU threads and callers of the handles are interleaved step relations. Paused vCPUs stay paused until a
    resume, every request is answered once, the lifecycle only moves forward, a stop ends the event loop, no vCPU fault is
    lost or reported twice. However a run ends, the lifecycle it leaves is final.
  \<^item> Demo: every connection gets one well-formed response, and success only for a completed request; bad input has no effect;
    connection threads are bounded; the server removes no file but its own socket; a notification stops the VM and dropping the
    guard does not hang; whatever the run command meets, terminal, handlers and files are put back.
  \<^item> Diagnostics: the text of an error shows all its causes, each once, unless a failed rollback is among them.
  \<^item> Unit tests: the model of each component passes the tests that the repository has for it, so the definitions agree with
    the code wherever the tests look.
  \<^item> Examples: the in-process platform runs to its end and prints its message; the peer's replies are valid packets.

  \<^bold>\<open>State and errors.\<close> A method is a function from its receiver's state to a result and the state it leaves, also on
  error. A panic is a value, so its absence is part of the theorems. \<open>u64\<close> and the other fixed-width integers are words;
  lengths (\<open>usize\<close>) are naturals. Unchecked word arithmetic wraps, as in the release profile; where the code relies on it not
  wrapping the bound is proved. A mutex-protected method is one atomic step; a wait is the condition that ends it.
  In \<open>Runtime\<close> the other threads take their turn before every access to the shared lifecycle (\<open>e_others\<close>), and the status
  of dynamic memory, one object behind two handles, is exchanged there.

  \<^bold>\<open>Loops.\<close> Bounded loops of the code keep its bounds (64 frames, 128 memory requests, the queue size for chains);
  other loops are structural. The event loop is a partial function into \<open>option\<close>; \<open>stop_ends_loop\<close> shows when it returns. So are
  the loops that read a stream byte by byte: the server's ends by its deadline, the client's when the server answers or disconnects.

  \<^bold>\<open>Parameters.\<close> Code outside the repository is a parameter: vm-memory, virtio-queue, imago, the operating system's file
  calls, vm-fdt, linux-loader, vm_superio, vmnet and XPC, Hypervisor.framework, host allocation, the embedded kernel and
  initramfs; for the demo the terminal, signals, streams, clock and files of the operating system and the JSON text format. Laws about them are hypotheses of the theorems, and the scenarios show that they can hold. The value of a completed
  access travels to its vCPU through a channel: the platform's \<open>complete_io\<close> has no other effect, and the receiving
  vCPU gets an arbitrary value in \<open>cpus_step\<close>.

  \<^bold>\<open>Not modelled.\<close> Integration tests (\<open>src/tests\<close>), build scripts and FFI declarations; the unit tests over several regions of
  guest memory or transfers of megabytes, those that read the bytes of the device tree or open files and network
  interfaces, and those of the command line syntax; argument parsing by clap and log output;
  timeouts of waits other than the deadline of a request line; memory management beyond what the sources
  say about keeping mapped regions alive.
\<close>

section \<open>The runtime on the built-in platform\<close>

text \<open>What the vCPU threads do while the host waits in \<open>pause\<close>: they never undo the pause, and the wait ends.\<close>

definition settles :: "(cpus \<Rightarrow> cpus) \<Rightarrow> bool" where
  "settles meanwhile \<longleftrightarrow> (\<forall>c. paused c \<longrightarrow> paused (meanwhile c) \<and> pause_outcome (meanwhile c) \<noteq> None)"

text \<open>No vCPU of the machine executes the guest or touches its registers.\<close>

definition at_rest :: "'h macos_vm \<Rightarrow> bool" where
  "at_rest v = (case mv_cpus v of None \<Rightarrow> False | Some c \<Rightarrow> quiescent c)"

lemma pause_at_rest:
  assumes "settles meanwhile" and "macos_pause meanwhile v = (Ok OutcomePaused, v')"
  shows "at_rest v'"
proof -
  from assms(2) obtain c where c: "mv_cpus v = Some c" "\<not> stop_flag (meanwhile (pause_begin c))"
    "mv_cpus v' = Some (meanwhile (pause_begin c))"
    by (auto simp: macos_pause_def Let_def split: option.splits if_splits)
  with assms(1) show ?thesis
    by (auto simp: settles_def at_rest_def quiescent_def pause_outcome_def pause_begin_def split: if_splits)
qed

lemma mapping_keeps_rest: "keeps_quiet at_rest (macos_mapper H)"
  by (auto simp: keeps_quiet_def at_rest_def macos_mapper_def on_inner_def split: prod.splits)





end
